(* ===== verification/Connx_Prelude.thy ===== *)
theory Connx_Prelude
  imports Main "HOL-Library.Word" "HOL-Library.Multiset"
begin

unbundle bit_operations_syntax

text \<open>
  Shared vocabulary of the connx verification library: names for the machine
  types of the sources, the development's theorem collections, and the generic
  facts on lists, options and words that the component theories rely on.

  Conventions.
  \<^item> Network data is a list of \<open>byte\<close> (an 8-bit word); C strings that the
    program parses or prints are \<open>string\<close>.
  \<^item> \<open>uint32_t\<close> and \<open>uint64_t\<close> fields whose wrap-around is observable (generation
    counters, metrics, length fields) are words of that width.
  \<^item> \<open>size_t\<close> values that are lengths of objects held in memory are \<open>nat\<close>. Where
    a computation on \<open>size_t\<close> could leave the representable range, the largest
    value is an explicit argument \<open>size_max\<close>, so that 32-bit and 64-bit platforms
    are both covered.
\<close>

type_synonym byte = "8 word"
type_synonym u32 = "32 word"
type_synonym u64 = "64 word"

named_theorems codec_defs "definitions of the frame codecs"
named_theorems table_defs "definitions of the connection table operations"
named_theorems buffer_defs "definitions of the slice buffer operations"
named_theorems conn_defs "definitions of the connection steps"

definition SIZE_MAX32 :: nat where
  "SIZE_MAX32 = 2 ^ 32 - 1"

definition SIZE_MAX64 :: nat where
  "SIZE_MAX64 = 2 ^ 64 - 1"

definition INT64_MAX :: nat where
  "INT64_MAX = 2 ^ 63 - 1"

section \<open>Lists\<close>

lemma length_concat_sum: "length (concat xss) = sum_list (map length xss)"
  by (induction xss) auto

lemma concat_eq_Nil_if_all_Nil: "(\<forall>xs \<in> set xss. xs \<noteq> []) \<Longrightarrow> concat xss = [] \<longleftrightarrow> xss = []"
  by (cases xss) auto

section \<open>Words\<close>

lemma unat_u64_less: "unat (x :: u64) < 2 ^ 64"
  using unsigned_less [of x] by simp

lemma unat_u32_less: "unat (x :: u32) < 2 ^ 32"
  using unsigned_less [of x] by simp

lemma unat_byte_less: "unat (x :: byte) < 256"
  using unsigned_less [of x] by simp

lemma bit_nat_bounded: "m < 2 ^ k \<Longrightarrow> k \<le> n \<Longrightarrow> \<not> bit (m :: nat) n"
  by (metis bit_iff_odd div_less even_zero less_le_trans power_increasing one_le_numeral)

lemma unat_or_push_bit:
  fixes a c :: u64
  assumes "unat a < 2 ^ k" "unat a + unat c * 2 ^ k < 2 ^ 64"
  shows "unat (a OR push_bit k c) = unat a + unat c * 2 ^ k"
proof -
  have hi: "\<not> bit a n" if "k \<le> n" for n
    using bit_nat_bounded [OF assms(1) that] by (simp add: bit_unsigned_iff)
  have "a + push_bit k c = a OR push_bit k c"
    by (rule disjunctive_add) (auto simp: bit_push_bit_iff dest: hi)
  moreover have "unat (push_bit k c) = unat c * 2 ^ k"
    using assms(2) unsigned_push_bit_eq [where ?'b = 64 and n = k and w = c and ?'a = nat]
    by (simp only: push_bit_eq_mult take_bit_eq_mod) (simp add: push_bit_eq_mult)
  moreover have "unat (a + push_bit k c) = (unat a + unat (push_bit k c)) mod 2 ^ 64"
    by (simp add: unat_word_ariths)
  ultimately show ?thesis using assms(2) by simp
qed

lemma unat_ucast_byte [simp]: "unat (ucast (b :: byte) :: u64) = unat b"
  using unat_byte_less [of b] by (simp add: unsigned_ucast_eq take_bit_eq_mod)

lemma unat_minus_of_nat:
  assumes "r \<le> unat (l :: 'a :: len word)"
  shows "unat (l - of_nat r) = unat l - r"
proof -
  have "r < 2 ^ LENGTH('a)" using assms unsigned_less [of l] by (rule le_less_trans)
  then have u: "unat (of_nat r :: 'a word) = r" by (simp add: unat_of_nat take_bit_eq_mod)
  then have "of_nat r \<le> l" using assms by (simp add: word_le_nat_alt)
  from unat_sub [OF this] u show ?thesis by simp
qed

lemma and_or_eq_0: "x AND (a OR b) = (0 :: 'a :: len word) \<longleftrightarrow> x AND a = 0 \<and> x AND b = 0"
  by (auto simp: bit_eq_iff bit_and_iff bit_or_iff)

end
