(* ===== verification/Codecs.thy ===== *)
theory Codecs
  imports Connx_Prelude
begin

text \<open>
  The frame codecs (include/connx/codec.h, src/codec): the three built-in codecs
  and the callback codec of the C interface, the contract that a codec gives its
  caller (locale \<open>framing_codec\<close>), and the specification \<open>frames\<close> of cutting a byte
  stream into frames. The contract is what the receive path of a connection relies
  on; every built-in codec is shown to satisfy it.
\<close>

section \<open>Decoding results\<close>

datatype DecodeResult = kSuccess | kNeedMoreData | kDecodeError

section \<open>The delimiter codec\<close>

record DelimiterCodec =
  delimiter :: byte

text \<open>\<open>memchr\<close>: the index of the first occurrence, or no pointer.\<close>

fun memchr :: "byte list \<Rightarrow> byte \<Rightarrow> nat option" where
  "memchr [] c = None"
| "memchr (b # bs) c = (if b = c then Some 0 else map_option Suc (memchr bs c))"

definition DelimiterCodec_Decode :: "DelimiterCodec \<Rightarrow> byte list \<Rightarrow> DecodeResult \<times> nat" where
  [codec_defs]: "DelimiterCodec_Decode c data =
     (case memchr data (delimiter c) of
        Some pos \<Rightarrow> (kSuccess, pos + 1)
      | None \<Rightarrow> (kNeedMoreData, 0))"

section \<open>The fixed-length codec\<close>

record FixedLengthCodec =
  fixed_length :: nat

definition FixedLengthCodec_new :: "nat \<Rightarrow> FixedLengthCodec" where
  "FixedLengthCodec_new n = \<lparr>fixed_length = (if n = 0 then 1 else n)\<rparr>"

definition FixedLengthCodec_Decode :: "FixedLengthCodec \<Rightarrow> byte list \<Rightarrow> DecodeResult \<times> nat" where
  [codec_defs]: "FixedLengthCodec_Decode c data =
     (if length data < fixed_length c then kNeedMoreData else kSuccess, fixed_length c)"

section \<open>The length-field codec\<close>

record LengthFieldCodec =
  length_field_offset :: u32
  length_field_length :: u32
  header_len :: u32
  network_to_host :: bool

text \<open>The constructor's three assertions abort the process; \<open>None\<close> is that abort.\<close>

definition LengthFieldCodec_new :: "u32 \<Rightarrow> u32 \<Rightarrow> u32 \<Rightarrow> bool \<Rightarrow> LengthFieldCodec option" where
  "LengthFieldCodec_new off len hdr n2h =
     (if \<not> off < hdr then None
      else if \<not> (1 \<le> len \<and> len \<le> 8) then None
      else if \<not> len \<le> hdr then None
      else Some \<lparr>length_field_offset = off, length_field_length = len,
                 header_len = hdr, network_to_host = n2h\<rparr>)"

text \<open>
  The two loops of \<open>ReadLengthValue\<close>. The list is the memory from the read pointer to
  the end of the buffer; \<open>None\<close> is a read behind that end.
\<close>

fun read_be :: "nat \<Rightarrow> byte list \<Rightarrow> u64 \<Rightarrow> u64 option" where
  "read_be 0 data value = Some value"
| "read_be (Suc n) [] value = None"
| "read_be (Suc n) (b # data) value = read_be n data (push_bit 8 value OR ucast b)"

fun read_le :: "nat \<Rightarrow> nat \<Rightarrow> byte list \<Rightarrow> u64 \<Rightarrow> u64 option" where
  "read_le i 0 data value = Some value"
| "read_le i (Suc n) [] value = None"
| "read_le i (Suc n) (b # data) value =
     read_le (Suc i) n data (value OR push_bit (i * 8) (ucast b))"

definition ReadLengthValue :: "LengthFieldCodec \<Rightarrow> byte list \<Rightarrow> u64 option" where
  "ReadLengthValue c data =
     (if network_to_host c then read_be (unat (length_field_length c)) data 0
      else read_le 0 (unat (length_field_length c)) data 0)"

text \<open>
  \<open>Decode\<close>, for a platform whose largest \<open>size_t\<close> is \<open>size_max\<close>; the sum of the header
  length and the body length is a \<open>size_t\<close> and so is taken modulo \<open>size_max + 1\<close>, as is
  the cast of the body length. \<open>None\<close> is a read outside the buffer.
\<close>

definition LengthFieldCodec_Decode ::
    "nat \<Rightarrow> LengthFieldCodec \<Rightarrow> byte list \<Rightarrow> (DecodeResult \<times> nat) option" where
  [codec_defs]: "LengthFieldCodec_Decode size_max c data =
     (if length data < unat (header_len c) then Some (kNeedMoreData, 0)
      else case ReadLengthValue c (drop (unat (length_field_offset c)) data) of
        None \<Rightarrow> None
      | Some body_length \<Rightarrow>
          if INT64_MAX \<le> unat body_length \<or> size_max - unat (header_len c) < unat body_length
          then Some (kDecodeError, 0)
          else let consumed = (unat (header_len c) + unat body_length mod (size_max + 1))
                                mod (size_max + 1)
               in Some (if length data < consumed then kNeedMoreData else kSuccess, consumed))"

section \<open>Dispatch\<close>

text \<open>
  The subclasses of \<open>Codec\<close>; the callback codec wraps a function of the C interface,
  whose result is cast to \<open>DecodeResult\<close>.
\<close>

datatype Codec =
    Delimiter DelimiterCodec
  | FixedLength FixedLengthCodec
  | LengthField LengthFieldCodec
  | Callback "(byte list \<Rightarrow> DecodeResult \<times> nat) option"

definition connx_decode_callback_Decode ::
    "(byte list \<Rightarrow> DecodeResult \<times> nat) option \<Rightarrow> byte list \<Rightarrow> DecodeResult \<times> nat" where
  "connx_decode_callback_Decode cb data =
     (case cb of None \<Rightarrow> (kDecodeError, 0) | Some f \<Rightarrow> f data)"

fun Codec_Decode :: "nat \<Rightarrow> Codec \<Rightarrow> byte list \<Rightarrow> (DecodeResult \<times> nat) option" where
  "Codec_Decode sm (Delimiter c) data = Some (DelimiterCodec_Decode c data)"
| "Codec_Decode sm (FixedLength c) data = Some (FixedLengthCodec_Decode c data)"
| "Codec_Decode sm (LengthField c) data = LengthFieldCodec_Decode sm c data"
| "Codec_Decode sm (Callback cb) data = Some (connx_decode_callback_Decode cb data)"

section \<open>Cutting a stream into frames\<close>

text \<open>
  The specification of the receive path: cut off frames while the codec succeeds. The
  result is the frames, the bytes left over, and whether the codec reported a protocol
  error (or a frame size that does not fit the data, which the receive path treats alike).
\<close>

function frames ::
    "(byte list \<Rightarrow> DecodeResult \<times> nat) \<Rightarrow> byte list \<Rightarrow> byte list list \<times> byte list \<times> bool" where
  "frames dec data =
     (if data = [] then ([], [], False)
      else case dec data of (r, n) \<Rightarrow>
        if r = kNeedMoreData then ([], data, False)
        else if r = kDecodeError \<or> n = 0 \<or> length data < n then ([], data, True)
        else case frames dec (drop n data) of (ms, rest, err) \<Rightarrow> (take n data # ms, rest, err))"
  by pat_completeness auto
termination
  by (relation "measure (\<lambda>(dec, data). length data)") auto

declare frames.simps [simp del]

lemma frames_Nil [simp]: "frames dec [] = ([], [], False)"
  by (simp add: frames.simps)

lemma frames_need_more:
  "data \<noteq> [] \<Longrightarrow> fst (dec data) = kNeedMoreData \<Longrightarrow> frames dec data = ([], data, False)"
  by (cases "dec data") (simp add: frames.simps)

lemma frames_success:
  "dec data = (kSuccess, n) \<Longrightarrow> 0 < n \<Longrightarrow> n \<le> length data \<Longrightarrow>
   frames dec data = (case frames dec (drop n data) of (ms, rest, err) \<Rightarrow> (take n data # ms, rest, err))"
  by (auto simp: frames.simps [of dec data])

lemma frames_error:
  "data \<noteq> [] \<Longrightarrow> fst (dec data) = kDecodeError \<Longrightarrow> frames dec data = ([], data, True)"
  by (cases "dec data") (simp add: frames.simps)

text \<open>Whatever the codec, cutting loses no byte and reorders none.\<close>

lemma frames_conserve: "frames dec data = (ms, rest, err) \<Longrightarrow> concat ms @ rest = data"
proof (induction dec data arbitrary: ms rest err rule: frames.induct)
  case (1 dec data)
  then show ?case
    by (auto simp: frames.simps [of dec data] split: if_splits prod.splits)
qed

lemma frames_nonempty: "frames dec data = (ms, rest, err) \<Longrightarrow> [] \<notin> set ms"
proof (induction dec data arbitrary: ms rest err rule: frames.induct)
  case (1 dec data)
  then show ?case
    by (auto simp: frames.simps [of dec data] split: if_splits prod.splits)
qed

section \<open>The contract of a codec\<close>

text \<open>
  What the receive path needs of a codec, for data of at most \<open>bound\<close> bytes: a frame is
  not empty and lies inside the data, and a verdict (a frame, or a protocol error) is not
  changed by bytes that arrive later.
\<close>

locale framing_codec =
  fixes dec :: "byte list \<Rightarrow> DecodeResult \<times> nat"
    and bound :: nat
  assumes success_inside: "dec d = (kSuccess, n) \<Longrightarrow> length d \<le> bound \<Longrightarrow> 0 < n \<and> n \<le> length d"
    and success_stable: "dec d = (kSuccess, n) \<Longrightarrow> length (d @ e) \<le> bound \<Longrightarrow> dec (d @ e) = (kSuccess, n)"
    and error_stable: "fst (dec d) = kDecodeError \<Longrightarrow> length (d @ e) \<le> bound \<Longrightarrow>
      fst (dec (d @ e)) = kDecodeError"
begin

lemma frames_step_cases:
  assumes "length d \<le> bound" "d \<noteq> []"
  obtains (need) "fst (dec d) = kNeedMoreData"
    | (error) "fst (dec d) = kDecodeError"
    | (frame) n where "dec d = (kSuccess, n)" "0 < n" "n \<le> length d"
  using assms success_inside by (cases "dec d"; cases "fst (dec d)") auto

text \<open>
  Reassembly does not depend on how the stream was split: cutting \<open>a @ b\<close> at once gives
  the frames of \<open>a\<close> followed by the frames of what was left of \<open>a\<close> together with \<open>b\<close>.
\<close>

lemma frames_append:
  assumes "length (a @ b) \<le> bound"
  shows "frames dec (a @ b) =
    (case frames dec a of (ms, rest, err) \<Rightarrow>
       if err then (ms, rest @ b, True)
       else case frames dec (rest @ b) of (ms', rest', err') \<Rightarrow> (ms @ ms', rest', err'))"
  using assms
proof (induction "length a" arbitrary: a rule: less_induct)
  case less
  show ?case
  proof (cases "a = []")
    case True
    then show ?thesis by (simp split: prod.splits)
  next
    case False
    have la: "length a \<le> bound" using less.prems by simp
    show ?thesis
    proof (rule frames_step_cases [OF la False])
      assume "fst (dec a) = kNeedMoreData"
      then show ?thesis using False by (simp add: frames_need_more split: prod.splits)
    next
      assume e: "fst (dec a) = kDecodeError"
      have "fst (dec (a @ b)) = kDecodeError" using e less.prems by (rule error_stable)
      then show ?thesis using False e by (simp add: frames_error)
    next
      fix n assume n: "dec a = (kSuccess, n)" "0 < n" "n \<le> length a"
      have ab: "dec (a @ b) = (kSuccess, n)" using n(1) less.prems by (rule success_stable)
      have IH: "frames dec (drop n a @ b) =
        (case frames dec (drop n a) of (ms, rest, err) \<Rightarrow>
           if err then (ms, rest @ b, True)
           else case frames dec (rest @ b) of (ms', rest', err') \<Rightarrow> (ms @ ms', rest', err'))"
        using less.hyps [of "drop n a"] less.prems n by simp
      have "frames dec (a @ b) =
        (case frames dec (drop n a @ b) of (ms, rest, err) \<Rightarrow> (take n a # ms, rest, err))"
        using frames_success [of dec "a @ b" n, OF ab] n by simp
      then show ?thesis
        using IH by (simp add: frames_success [of dec a n, OF n] split: prod.splits)
    qed
  qed
qed

lemma frames_rest_stuck:
  assumes "length d \<le> bound" "frames dec d = (ms, rest, False)"
  shows "frames dec rest = ([], rest, False)"
  using assms
proof (induction "length d" arbitrary: d ms rule: less_induct)
  case less
  show ?case
  proof (cases "d = []")
    case True
    then show ?thesis using less.prems by simp
  next
    case False
    show ?thesis
    proof (rule frames_step_cases [OF less.prems(1) False])
      assume "fst (dec d) = kNeedMoreData"
      then show ?thesis using less.prems False by (auto simp: frames_need_more)
    next
      assume "fst (dec d) = kDecodeError"
      then show ?thesis using less.prems False by (auto simp: frames_error)
    next
      fix n assume n: "dec d = (kSuccess, n)" "0 < n" "n \<le> length d"
      then obtain ms' where "frames dec (drop n d) = (ms', rest, False)"
        using less.prems(2) frames_success [of dec d n, OF n] by (auto split: prod.splits)
      then show ?thesis using less.hyps [of "drop n d"] less.prems n by simp
    qed
  qed
qed

end

section \<open>The built-in codecs satisfy the contract\<close>

subsection \<open>Delimiter codec\<close>

lemma memchr_append:
  "memchr (a @ b) c =
     (case memchr a c of Some i \<Rightarrow> Some i | None \<Rightarrow> map_option ((+) (length a)) (memchr b c))"
  by (induction a; cases "memchr b c"; auto split: option.splits)

lemma memchr_Some:
  "memchr data c = Some i \<Longrightarrow> i < length data \<and> data ! i = c \<and> c \<notin> set (take i data)"
  by (induction data arbitrary: i) (auto split: if_splits simp: nth_Cons')

lemma memchr_None: "memchr data c = None \<longleftrightarrow> c \<notin> set data"
  by (induction data) auto

lemma memchr_first: "c \<notin> set xs \<Longrightarrow> memchr (xs @ c # ys) c = Some (length xs)"
  using memchr_None [of xs c] by (simp add: memchr_append)

interpretation delim_codec: framing_codec "DelimiterCodec_Decode c" bound for c bound
  by unfold_locales
    (auto simp: DelimiterCodec_Decode_def memchr_append dest!: memchr_Some split: option.splits)

subsection \<open>Fixed-length codec\<close>

lemma FixedLengthCodec_new_pos [simp]: "0 < fixed_length (FixedLengthCodec_new n)"
  by (simp add: FixedLengthCodec_new_def)

interpretation fixed_codec: framing_codec "FixedLengthCodec_Decode (FixedLengthCodec_new n)" bound
  for n bound
  by unfold_locales
    (auto simp: FixedLengthCodec_Decode_def FixedLengthCodec_new_def Suc_le_eq split: if_splits)

subsection \<open>Length-field codec\<close>

text \<open>
  The documented requirement of the header layout: the length field lies inside the
  header. The constructor does not check it.
\<close>

definition lf_field_in_header :: "LengthFieldCodec \<Rightarrow> bool" where
  "lf_field_in_header c \<longleftrightarrow>
     unat (length_field_offset c) + unat (length_field_length c) \<le> unat (header_len c)"

lemma read_be_None: "read_be n data v = None \<longleftrightarrow> length data < n"
  by (induction n data v rule: read_be.induct) auto

lemma read_le_None: "read_le i n data v = None \<longleftrightarrow> length data < n"
  by (induction i n data v rule: read_le.induct) auto

lemma read_be_append: "read_be n data v = Some x \<Longrightarrow> read_be n (data @ e) v = Some x"
  by (induction n data v rule: read_be.induct) auto

lemma read_le_append: "read_le i n data v = Some x \<Longrightarrow> read_le i n (data @ e) v = Some x"
  by (induction i n data v rule: read_le.induct) auto

lemma ReadLengthValue_None:
  "ReadLengthValue c data = None \<longleftrightarrow> length data < unat (length_field_length c)"
  by (simp add: ReadLengthValue_def read_be_None read_le_None)

lemma ReadLengthValue_append:
  "ReadLengthValue c data = Some x \<Longrightarrow> ReadLengthValue c (data @ e) = Some x"
  by (auto simp: ReadLengthValue_def read_be_append read_le_append split: if_splits)

lemma lf_Decode_defined: "lf_field_in_header c \<Longrightarrow> LengthFieldCodec_Decode sm c data \<noteq> None"
  by (auto simp: LengthFieldCodec_Decode_def lf_field_in_header_def Let_def
      ReadLengthValue_None split: option.splits)

text \<open>The virtual call for a codec whose reads stay inside the buffer.\<close>

definition codec_call :: "nat \<Rightarrow> Codec \<Rightarrow> byte list \<Rightarrow> DecodeResult \<times> nat" where
  "codec_call sm c data = (case Codec_Decode sm c data of Some r \<Rightarrow> r | None \<Rightarrow> (kDecodeError, 0))"

lemma lf_consumed_no_wrap:
  assumes "unat body \<le> sm - unat hdr" "unat (hdr :: u32) \<le> sm"
  shows "(unat hdr + unat (body :: u64) mod (sm + 1)) mod (sm + 1) = unat hdr + unat body"
  using assms by simp

lemma lf_Decode_append:
  assumes "length data \<ge> unat (header_len c)" "lf_field_in_header c"
  shows "\<exists>body. ReadLengthValue c (drop (unat (length_field_offset c)) data) = Some body \<and>
                ReadLengthValue c (drop (unat (length_field_offset c)) (data @ e)) = Some body"
proof -
  have "ReadLengthValue c (drop (unat (length_field_offset c)) data) \<noteq> None"
    using assms by (simp add: ReadLengthValue_None lf_field_in_header_def)
  then obtain body where b: "ReadLengthValue c (drop (unat (length_field_offset c)) data) = Some body"
    by blast
  have "unat (length_field_offset c) \<le> length data"
    using assms by (simp add: lf_field_in_header_def)
  then show ?thesis using b ReadLengthValue_append [OF b] by simp
qed

lemma lf_success_iff:
  assumes "unat (header_len c) \<le> sm"
  shows "LengthFieldCodec_Decode sm c data = Some (kSuccess, n) \<longleftrightarrow>
    unat (header_len c) \<le> length data \<and>
    (\<exists>body. ReadLengthValue c (drop (unat (length_field_offset c)) data) = Some body \<and>
       unat body < INT64_MAX \<and> unat body \<le> sm - unat (header_len c) \<and>
       n = unat (header_len c) + unat body \<and> n \<le> length data)"
  using assms
  by (auto simp: LengthFieldCodec_Decode_def Let_def lf_consumed_no_wrap split: option.splits)

lemma lf_error_iff:
  "fst (codec_call sm (LengthField c) data) = kDecodeError \<longleftrightarrow>
    unat (header_len c) \<le> length data \<and>
    (case ReadLengthValue c (drop (unat (length_field_offset c)) data) of
       None \<Rightarrow> True
     | Some body \<Rightarrow> INT64_MAX \<le> unat body \<or> sm - unat (header_len c) < unat body)"
  by (auto simp: codec_call_def LengthFieldCodec_Decode_def Let_def split: option.splits)

text \<open>
  The codecs an application can build: one of the three constructors, with the
  documented layout for the length-field codec, on a platform whose \<open>size_t\<close> can hold a
  header length.
\<close>

fun builtin_codec :: "nat \<Rightarrow> Codec \<Rightarrow> bool" where
  "builtin_codec sm (Delimiter c) = True"
| "builtin_codec sm (FixedLength c) = (0 < fixed_length c)"
| "builtin_codec sm (LengthField c) =
     (0 < header_len c \<and> lf_field_in_header c \<and> unat (header_len c) \<le> sm)"
| "builtin_codec sm (Callback cb) = False"

lemma builtin_codec_framing:
  assumes "builtin_codec sm c"
  shows "framing_codec (codec_call sm c) sm"
proof (cases c)
  case (Delimiter d)
  have "codec_call sm c = DelimiterCodec_Decode d"
    using Delimiter by (simp add: codec_call_def fun_eq_iff)
  then show ?thesis by (simp add: delim_codec.framing_codec_axioms)
next
  case (FixedLength f)
  have "FixedLengthCodec_new (fixed_length f) = f"
    using assms FixedLength by (cases f) (simp add: FixedLengthCodec_new_def)
  moreover have "codec_call sm c = FixedLengthCodec_Decode f"
    using FixedLength by (simp add: codec_call_def fun_eq_iff)
  ultimately show ?thesis using fixed_codec.framing_codec_axioms [of "fixed_length f" sm] by simp
next
  case (LengthField l)
  have wf: "0 < header_len l" "lf_field_in_header l" "unat (header_len l) \<le> sm"
    using assms LengthField by auto
  have hdr: "0 < unat (header_len l)"
    using wf(1) by (simp add: word_less_nat_alt)
  have succ: "codec_call sm c d = (kSuccess, n) \<longleftrightarrow> LengthFieldCodec_Decode sm l d = Some (kSuccess, n)"
    for d n using LengthField by (auto simp: codec_call_def split: option.splits)
  show ?thesis
  proof
    fix d n assume "codec_call sm c d = (kSuccess, n)"
    then show "0 < n \<and> n \<le> length d" using hdr wf(3) by (auto simp: succ lf_success_iff)
  next
    fix d e n assume a: "codec_call sm c d = (kSuccess, n)"
    then show "codec_call sm c (d @ e) = (kSuccess, n)"
      using lf_Decode_append [of l d e] wf by (auto simp: succ lf_success_iff)
  next
    fix d e assume "fst (codec_call sm c d) = kDecodeError"
    then show "fst (codec_call sm c (d @ e)) = kDecodeError"
      using lf_Decode_append [of l d e] wf LengthField by (auto simp: lf_error_iff split: option.splits)
  qed
next
  case (Callback cb)
  then show ?thesis using assms by simp
qed

end
