(* ===== verification/Codec_Roundtrip.thy ===== *)
theory Codec_Roundtrip
  imports Codecs
begin

unbundle bit_operations_syntax

text \<open>
  What the codecs compute, against reference definitions: the number a length field
  denotes in big- and little-endian order, the encoding of a frame, and the round trip
  from encoded frames through the decoder. The last section holds the properties of the
  codecs that the rest of the library and the documentation rely on.
\<close>

section \<open>The number in a length field\<close>

fun be_value :: "byte list \<Rightarrow> nat" where
  "be_value [] = 0"
| "be_value (b # bs) = unat b * 256 ^ length bs + be_value bs"

fun le_value :: "byte list \<Rightarrow> nat" where
  "le_value [] = 0"
| "le_value (b # bs) = unat b + 256 * le_value bs"

lemma be_value_less: "be_value bs < 256 ^ length bs"
proof (induction bs)
  case (Cons b bs)
  have "unat b * 256 ^ length bs + be_value bs < (unat b + 1) * 256 ^ length bs"
    using Cons by simp
  also have "\<dots> \<le> 256 * 256 ^ length bs"
    using unat_byte_less [of b] by (intro mult_right_mono) auto
  finally show ?case by simp
qed simp

lemma le_value_less: "le_value bs < 256 ^ length bs"
proof (induction bs)
  case (Cons b bs)
  then show ?case using unat_byte_less [of b] by simp
qed simp

lemma read_be_value:
  assumes "n \<le> length data" "unat v * 256 ^ n + 256 ^ n \<le> 2 ^ 64"
  shows "\<exists>x. read_be n data v = Some x \<and> unat x = unat v * 256 ^ n + be_value (take n data)"
  using assms
proof (induction n data v rule: read_be.induct)
  case (3 n b data v)
  have p: "unat v * 256 ^ Suc n + 256 ^ Suc n = (unat v + 1) * 256 * 256 ^ n" by (simp add: algebra_simps)
  have "(unat v + 1) * 256 * 1 \<le> (unat v + 1) * 256 * 256 ^ n"
    by (intro mult_left_mono) auto
  then have "(unat v + 1) * 256 \<le> 2 ^ 64" using "3.prems"(2) p by linarith
  then have w: "unat (push_bit 8 v OR ucast b) = unat v * 256 + unat b"
    using unat_or_push_bit [of "ucast b" 8 v] unat_byte_less [of b] by (simp add: or.commute)
  have "(unat v * 256 + unat b) * 256 ^ n + 256 ^ n \<le> (unat v + 1) * 256 * 256 ^ n"
  proof -
    have "unat v * 256 + unat b + 1 \<le> (unat v + 1) * 256" using unat_byte_less [of b] by simp
    then have "(unat v * 256 + unat b + 1) * 256 ^ n \<le> (unat v + 1) * 256 * 256 ^ n"
      by (rule mult_right_mono) simp
    then show ?thesis by (simp add: algebra_simps)
  qed
  then have "unat (push_bit 8 v OR ucast b) * 256 ^ n + 256 ^ n \<le> 2 ^ 64"
    using w "3.prems"(2) p by simp
  then show ?case using "3.IH" "3.prems"(1) w by (auto simp: algebra_simps min_absorb2)
qed auto

lemma read_le_value:
  assumes "n \<le> length data" "i + n \<le> 8" "unat v < 2 ^ (8 * i)"
  shows "\<exists>x. read_le i n data v = Some x \<and> unat x = unat v + 2 ^ (8 * i) * le_value (take n data)"
  using assms
proof (induction i n data v rule: read_le.induct)
  case (3 i n b data v)
  have p: "2 ^ (8 * Suc i) = 2 ^ (8 * i) * (256 :: nat)" by (simp add: power_add)
  have "unat v + unat b * 2 ^ (8 * i) < (unat b + 1) * 2 ^ (8 * i)" using "3.prems"(3) by simp
  also have "\<dots> \<le> 256 * 2 ^ (8 * i)" using unat_byte_less [of b] by (intro mult_right_mono) auto
  finally have lt: "unat v + unat b * 2 ^ (8 * i) < 2 ^ (8 * Suc i)" using p by simp
  have "(2 :: nat) ^ (8 * Suc i) \<le> 2 ^ 64" using "3.prems"(2) by (intro power_increasing) auto
  then have w: "unat (v OR push_bit (i * 8) (ucast b)) = unat v + unat b * 2 ^ (8 * i)"
    using unat_or_push_bit [of v "8 * i" "ucast b"] "3.prems"(3) lt by (simp add: mult.commute)
  then show ?case using "3.IH" "3.prems" lt p by (auto simp: algebra_simps)
qed auto

section \<open>Encoding a length\<close>

fun be_bytes :: "nat \<Rightarrow> nat \<Rightarrow> byte list" where
  "be_bytes 0 v = []"
| "be_bytes (Suc n) v = word_of_nat (v div 256 ^ n) # be_bytes n v"

fun le_bytes :: "nat \<Rightarrow> nat \<Rightarrow> byte list" where
  "le_bytes 0 v = []"
| "le_bytes (Suc n) v = word_of_nat v # le_bytes n (v div 256)"

lemma be_bytes_numeral [simp]:
  "be_bytes (numeral k) v = word_of_nat (v div 256 ^ pred_numeral k) # be_bytes (pred_numeral k) v"
  by (simp only: numeral_eq_Suc [of k] be_bytes.simps)

lemma le_bytes_numeral [simp]:
  "le_bytes (numeral k) v = word_of_nat v # le_bytes (pred_numeral k) (v div 256)"
  by (simp only: numeral_eq_Suc [of k] le_bytes.simps)

lemma length_be_bytes [simp]: "length (be_bytes n v) = n"
  by (induction n) auto

lemma length_le_bytes [simp]: "length (le_bytes n v) = n"
  by (induction n arbitrary: v) auto

lemma unat_of_nat_byte: "unat (word_of_nat v :: byte) = v mod 256"
  by (simp add: unat_of_nat)

lemma be_value_be_bytes: "be_value (be_bytes n v) = v mod 256 ^ n"
proof (induction n)
  case (Suc n)
  have "v mod (256 ^ n * 256) = 256 ^ n * (v div 256 ^ n mod 256) + v mod 256 ^ n"
    by (rule mod_mult2_eq)
  then show ?case using Suc by (simp add: unat_of_nat_byte mult.commute)
qed simp

lemma le_value_le_bytes: "le_value (le_bytes n v) = v mod 256 ^ n"
proof (induction n arbitrary: v)
  case (Suc n)
  have "v mod (256 * 256 ^ n) = 256 * (v div 256 mod 256 ^ n) + v mod 256"
    by (rule mod_mult2_eq)
  then show ?case using Suc by (simp add: unat_of_nat_byte)
qed simp

definition length_field_bytes :: "LengthFieldCodec \<Rightarrow> nat \<Rightarrow> byte list" where
  "length_field_bytes c v =
     (if network_to_host c then be_bytes (unat (length_field_length c)) v
      else le_bytes (unat (length_field_length c)) v)"

lemma length_length_field_bytes [simp]:
  "length (length_field_bytes c v) = unat (length_field_length c)"
  by (simp add: length_field_bytes_def)

lemma pow256_le_2_64: "n \<le> 8 \<Longrightarrow> (256 :: nat) ^ n \<le> 2 ^ 64"
proof -
  assume "n \<le> 8"
  then have "(256 :: nat) ^ n \<le> 256 ^ 8" by (intro power_increasing) auto
  then show ?thesis by simp
qed

lemma ReadLengthValue_length_field_bytes:
  assumes "unat (length_field_length c) \<le> 8" "v < 256 ^ unat (length_field_length c)"
  shows "\<exists>x. ReadLengthValue c (length_field_bytes c v @ rest) = Some x \<and> unat x = v"
proof (cases "network_to_host c")
  case True
  have "\<exists>x. read_be (unat (length_field_length c)) (length_field_bytes c v @ rest) 0 = Some x \<and>
    unat x = be_value (take (unat (length_field_length c)) (length_field_bytes c v @ rest))"
    using read_be_value [of "unat (length_field_length c)" "length_field_bytes c v @ rest" 0]
      pow256_le_2_64 [OF assms(1)] by simp
  then show ?thesis
    using True assms(2) by (simp add: ReadLengthValue_def length_field_bytes_def be_value_be_bytes)
next
  case False
  have "\<exists>x. read_le 0 (unat (length_field_length c)) (length_field_bytes c v @ rest) 0 = Some x \<and>
    unat x = le_value (take (unat (length_field_length c)) (length_field_bytes c v @ rest))"
    using read_le_value [of "unat (length_field_length c)" "length_field_bytes c v @ rest" 0 0] assms(1)
    by simp
  then show ?thesis
    using False assms(2) by (simp add: ReadLengthValue_def length_field_bytes_def le_value_le_bytes)
qed

section \<open>Encoded frames\<close>

text \<open>
  A sender's frame: \<open>pre\<close> and \<open>post\<close> are the header bytes before and after the length
  field.
\<close>

definition lf_frame :: "LengthFieldCodec \<Rightarrow> byte list \<Rightarrow> byte list \<Rightarrow> byte list \<Rightarrow> byte list" where
  "lf_frame c pre post body = pre @ length_field_bytes c (length body) @ post @ body"

definition lf_frame_ok :: "nat \<Rightarrow> LengthFieldCodec \<Rightarrow> byte list \<Rightarrow> byte list \<Rightarrow> byte list \<Rightarrow> bool" where
  "lf_frame_ok sm c pre post body \<longleftrightarrow>
     length pre = unat (length_field_offset c) \<and>
     length pre + unat (length_field_length c) + length post = unat (header_len c) \<and>
     length body < 256 ^ unat (length_field_length c) \<and> length body < INT64_MAX \<and>
     unat (header_len c) + length body \<le> sm"

lemma LengthFieldCodec_new_SomeD:
  assumes "LengthFieldCodec_new off len hdr n2h = Some c"
  shows "off < hdr" "1 \<le> len" "len \<le> 8" "len \<le> hdr"
    "c = \<lparr>length_field_offset = off, length_field_length = len, header_len = hdr, network_to_host = n2h\<rparr>"
  using assms by (auto simp: LengthFieldCodec_new_def split: if_splits)

lemma lf_Decode_frame:
  assumes "unat (length_field_length c) \<le> 8" "lf_frame_ok sm c pre post body"
  shows "LengthFieldCodec_Decode sm c (lf_frame c pre post body @ rest) =
    Some (kSuccess, length (lf_frame c pre post body))"
proof -
  have ok: "length pre = unat (length_field_offset c)"
    "length pre + unat (length_field_length c) + length post = unat (header_len c)"
    "length body < 256 ^ unat (length_field_length c)" "length body < INT64_MAX"
    "unat (header_len c) + length body \<le> sm"
    using assms(2) by (auto simp: lf_frame_ok_def)
  obtain x where x: "ReadLengthValue c (length_field_bytes c (length body) @ post @ body @ rest) = Some x"
    "unat x = length body"
    using ReadLengthValue_length_field_bytes [OF assms(1) ok(3), of "post @ body @ rest"] by auto
  have "drop (unat (length_field_offset c)) (lf_frame c pre post body @ rest) =
    length_field_bytes c (length body) @ post @ body @ rest"
    using ok(1) by (simp add: lf_frame_def)
  moreover have "length (lf_frame c pre post body) = unat (header_len c) + length body"
    using ok(2) by (simp add: lf_frame_def)
  ultimately show ?thesis
    using x ok by (simp add: lf_success_iff)
qed

text \<open>A frame the codec recognises whatever follows it, and streams of such frames.\<close>

definition self_delimiting :: "(byte list \<Rightarrow> DecodeResult \<times> nat) \<Rightarrow> byte list \<Rightarrow> bool" where
  "self_delimiting dec m \<longleftrightarrow> m \<noteq> [] \<and> (\<forall>rest. dec (m @ rest) = (kSuccess, length m))"

lemma frames_of_stream:
  "(\<And>m. m \<in> set ms \<Longrightarrow> self_delimiting dec m) \<Longrightarrow> frames dec (concat ms) = (ms, [], False)"
proof (induction ms)
  case (Cons m ms)
  have m: "m \<noteq> []" "dec (m @ concat ms) = (kSuccess, length m)"
    using Cons.prems [of m] by (auto simp: self_delimiting_def)
  have "frames dec (concat ms) = (ms, [], False)" using Cons by simp
  then show ?case using m frames_success [of dec "m @ concat ms" "length m"] by simp
qed simp

lemma delimiter_self_delimiting:
  "delimiter c \<notin> set msg \<Longrightarrow> self_delimiting (DelimiterCodec_Decode c) (msg @ [delimiter c])"
  by (simp add: self_delimiting_def DelimiterCodec_Decode_def memchr_first)

lemma fixed_length_self_delimiting:
  "0 < fixed_length c \<Longrightarrow> length msg = fixed_length c \<Longrightarrow> self_delimiting (FixedLengthCodec_Decode c) msg"
  by (auto simp: self_delimiting_def FixedLengthCodec_Decode_def)

lemma lf_self_delimiting:
  assumes "unat (length_field_length c) \<le> 8" "0 < header_len c" "lf_frame_ok sm c pre post body"
  shows "self_delimiting (codec_call sm (LengthField c)) (lf_frame c pre post body)"
proof -
  have "0 < unat (header_len c)" using assms(2) by (simp add: word_less_nat_alt)
  moreover have "length (lf_frame c pre post body) = unat (header_len c) + length body"
    using assms(3) by (simp add: lf_frame_def lf_frame_ok_def)
  ultimately have "0 < length (lf_frame c pre post body)" by linarith
  then have "lf_frame c pre post body \<noteq> []" by auto
  then show ?thesis
    using lf_Decode_frame [OF assms(1,3)] by (simp add: self_delimiting_def codec_call_def)
qed

section \<open>Properties\<close>

text \<open>
  C3: A stream of length-prefixed frames, encoded with the header layout the codec was
  constructed for, is cut back into exactly those frames, with nothing left over and no
  protocol error, for either byte order and either width of \<open>size_t\<close>.
\<close>

theorem lf_stream_roundtrip:
  assumes new: "LengthFieldCodec_new off len hdr n2h = Some c"
    and ok: "\<And>pre post body. (pre, post, body) \<in> set fs \<Longrightarrow> lf_frame_ok sm c pre post body"
  shows "frames (codec_call sm (LengthField c)) (concat (map (\<lambda>(pre, post, body). lf_frame c pre post body) fs)) =
    (map (\<lambda>(pre, post, body). lf_frame c pre post body) fs, [], False)"
proof (rule frames_of_stream)
  fix m assume "m \<in> set (map (\<lambda>(pre, post, body). lf_frame c pre post body) fs)"
  then obtain pre post body where m: "m = lf_frame c pre post body" "(pre, post, body) \<in> set fs" by auto
  note new = LengthFieldCodec_new_SomeD [OF new]
  have "unat (length_field_length c) \<le> 8" "0 < header_len c"
    using new by (auto simp: word_le_nat_alt word_less_nat_alt)
  then show "self_delimiting (codec_call sm (LengthField c)) m"
    using m ok lf_self_delimiting by blast
qed

theorem lf_stream_roundtrip_witness:
  "frames (codec_call SIZE_MAX64 (LengthField \<lparr>length_field_offset = 0, length_field_length = 2,
       header_len = 2, network_to_host = True\<rparr>)) [0, 2, 7, 8, 0, 1, 9] = ([[0, 2, 7, 8], [0, 1, 9]], [], False)"
proof -
  let ?c = "\<lparr>length_field_offset = 0, length_field_length = 2, header_len = 2, network_to_host = True\<rparr>"
  have "LengthFieldCodec_new 0 2 2 True = Some ?c" by (simp add: LengthFieldCodec_new_def)
  moreover have "lf_frame_ok SIZE_MAX64 ?c pre post body"
    if "(pre, post, body) \<in> set [([], [], [7, 8]), ([], [], [9])]" for pre post body
    using that by (auto simp: lf_frame_ok_def INT64_MAX_def SIZE_MAX64_def)
  ultimately have "frames (codec_call SIZE_MAX64 (LengthField ?c))
      (concat (map (\<lambda>(pre, post, body). lf_frame ?c pre post body) [([], [], [7, 8]), ([], [], [9])])) =
    (map (\<lambda>(pre, post, body). lf_frame ?c pre post body) [([], [], [7, 8]), ([], [], [9])], [], False)"
    by (rule lf_stream_roundtrip)
  then show ?thesis by (simp add: lf_frame_def length_field_bytes_def)
qed

text \<open>
  C4: For every built-in codec, cutting the received stream into frames does not depend
  on how the network split it: the frames of \<open>a @ b\<close> are those of \<open>a\<close> followed by those of
  the remainder of \<open>a\<close> joined with \<open>b\<close>, and a protocol error found in \<open>a\<close> is final.
\<close>

theorem codec_split_independent:
  assumes "builtin_codec sm c" "length (a @ b) \<le> sm"
  shows "frames (codec_call sm c) (a @ b) =
    (case frames (codec_call sm c) a of (ms, rest, err) \<Rightarrow>
       if err then (ms, rest @ b, True)
       else case frames (codec_call sm c) (rest @ b) of (ms', rest', err') \<Rightarrow> (ms @ ms', rest', err'))"
  using framing_codec.frames_append [OF builtin_codec_framing [OF assms(1)] assms(2)] .

theorem codec_split_independent_witness:
  "frames (codec_call SIZE_MAX32 (Delimiter \<lparr>delimiter = 10\<rparr>)) ([1, 2] @ [3, 10, 4]) =
     ([[1, 2, 3, 10]], [4], False)"
  using codec_split_independent [of SIZE_MAX32 "Delimiter \<lparr>delimiter = 10\<rparr>" "[1, 2]" "[3, 10, 4]"]
  by (simp add: SIZE_MAX32_def frames.simps codec_call_def DelimiterCodec_Decode_def)

text \<open>
  The overflow guards of the length-field codec are sufficient on every platform:
  whenever the decoder accepts a frame, the frame size it reports is the header length
  plus the declared body length, computed without wrap-around, is larger than zero and
  fits both the data and \<open>size_t\<close>.
\<close>

lemma lf_frame_size_exact:
  assumes "LengthFieldCodec_new off len hdr n2h = Some c" "unat hdr \<le> sm"
    and "LengthFieldCodec_Decode sm c data = Some (kSuccess, n)"
  shows "\<exists>body. ReadLengthValue c (drop (unat off) data) = Some body \<and>
    n = unat hdr + unat body \<and> 0 < n \<and> n \<le> length data \<and> n \<le> sm"
proof -
  note new = LengthFieldCodec_new_SomeD [OF assms(1)]
  have "0 < unat hdr" using new(1) by (auto simp: word_less_nat_alt)
  then show ?thesis using assms(2,3) new(5) by (auto simp: lf_success_iff)
qed

lemma lf_frame_size_exact_example:
  "\<exists>body. ReadLengthValue \<lparr>length_field_offset = 1, length_field_length = 1, header_len = 2, network_to_host = True\<rparr>
       (drop (unat (1 :: u32)) [0, 1, 5]) = Some body \<and>
     3 = unat (2 :: u32) + unat body \<and> 0 < (3 :: nat) \<and> 3 \<le> length [0, 1, 5 :: byte] \<and> 3 \<le> SIZE_MAX32"
  by (rule lf_frame_size_exact [where len = 1 and n2h = True])
    (simp_all add: LengthFieldCodec_new_def SIZE_MAX32_def LengthFieldCodec_Decode_def
      ReadLengthValue_def INT64_MAX_def)

text \<open>
  C21: A frame the delimiter codec accepts ends with the delimiter and contains it nowhere
  else, so the delimiter is part of the data handed to the application (the header
  documents the opposite).
\<close>

theorem delimiter_in_frame:
  assumes "DelimiterCodec_Decode c data = (kSuccess, n)"
  shows "\<exists>msg. take n data = msg @ [delimiter c] \<and> delimiter c \<notin> set msg"
proof -
  obtain i where i: "memchr data (delimiter c) = Some i" "n = Suc i"
    using assms by (auto simp: DelimiterCodec_Decode_def split: option.splits)
  then have "take n data = take i data @ [delimiter c]" "delimiter c \<notin> set (take i data)"
    using memchr_Some [OF i(1)] by (auto simp: take_Suc_conv_app_nth)
  then show ?thesis by blast
qed

theorem delimiter_in_frame_witness:
  "\<exists>msg. take 3 [104, 105, 10, 33] = msg @ [delimiter \<lparr>delimiter = 10\<rparr>] \<and> delimiter \<lparr>delimiter = 10\<rparr> \<notin> set msg"
  by (rule delimiter_in_frame) (simp add: DelimiterCodec_Decode_def)

text \<open>
  C20: The constructor of the length-field codec accepts layouts whose length field runs
  past the header (here a 4-byte field at offset 3 of a 4-byte header); with such a codec
  a buffer of exactly one header makes the decoder read outside the buffer, on every
  platform. With the documented layout it never does.
\<close>

theorem lf_reads_outside_buffer:
  "(\<exists>c data. LengthFieldCodec_new 3 4 4 True = Some c \<and> length data = 4 \<and>
      LengthFieldCodec_Decode sm c data = None) \<and>
   (\<forall>c data. lf_field_in_header c \<longrightarrow> LengthFieldCodec_Decode sm c data \<noteq> None)"
proof
  let ?c = "\<lparr>length_field_offset = 3, length_field_length = 4, header_len = 4, network_to_host = True\<rparr>"
  have "LengthFieldCodec_new 3 4 4 True = Some ?c" by (simp add: LengthFieldCodec_new_def)
  moreover have "LengthFieldCodec_Decode sm ?c [0, 0, 0, 0] = None"
    using ReadLengthValue_None [of ?c "[0]"] by (simp add: LengthFieldCodec_Decode_def)
  ultimately show "\<exists>c data. LengthFieldCodec_new 3 4 4 True = Some c \<and> length data = 4 \<and>
      LengthFieldCodec_Decode sm c data = None"
    by (intro exI [of _ ?c] exI [of _ "[0, 0, 0, 0]"]) simp
qed (simp add: lf_Decode_defined)

theorem lf_reads_outside_buffer_witness:
  "LengthFieldCodec_Decode SIZE_MAX64 \<lparr>length_field_offset = 0, length_field_length = 4,
     header_len = 4, network_to_host = True\<rparr> [0, 0, 0, 0] \<noteq> None"
  using lf_reads_outside_buffer [of SIZE_MAX64] by (simp add: lf_field_in_header_def)

end
