(* ===== verification/Connection_Tables.thy ===== *)
theory Connection_Tables
  imports Connx_Prelude
begin

unbundle bit_operations_syntax

text \<open>
  Connection identifiers (src/net/connection_id.h) and the connection table
  (src/net/connection_table.cc), which maps the identifiers that travel through the
  poller and the timer queue back to connections. The locale \<open>handle_table\<close> is the
  contract that the runtime and the connections rely on; the generation counters make
  identifiers of closed connections stale.
\<close>

section \<open>Connection identifiers\<close>

record ConnectionId =
  slot :: u32
  generation :: u32

definition ConnectionId_none :: ConnectionId where
  "ConnectionId_none = \<lparr>slot = 0, generation = 0\<rparr>"

definition valid :: "ConnectionId \<Rightarrow> bool" where
  "valid cid \<longleftrightarrow> generation cid \<noteq> 0"

definition ToUint64 :: "ConnectionId \<Rightarrow> u64" where
  "ToUint64 cid = push_bit 32 (ucast (generation cid)) OR ucast (slot cid)"

definition FromUint64 :: "u64 \<Rightarrow> ConnectionId" where
  "FromUint64 value = \<lparr>slot = ucast (value AND 0xFFFFFFFF), generation = ucast (drop_bit 32 value)\<rparr>"

lemma not_valid_none [simp]: "\<not> valid ConnectionId_none"
  by (simp add: valid_def ConnectionId_none_def)

section \<open>The table\<close>

text \<open>
  \<open>conn\<close> is the weak pointer of an entry; \<open>None\<close> is an empty one. Which objects are still
  alive is the caller's knowledge and an argument of \<open>Acquire\<close>.
\<close>

record 'c Entry =
  entry_generation :: u32
  active :: bool
  conn :: "'c option"

record 'c ConnectionTable =
  entries :: "'c Entry list"
  free_slots :: "u32 list"

definition Entry_new :: "'c Entry" where
  "Entry_new = \<lparr>entry_generation = 0, active = False, conn = None\<rparr>"

definition ConnectionTable_new :: "'c ConnectionTable" where
  "ConnectionTable_new = \<lparr>entries = [], free_slots = []\<rparr>"

definition next_generation :: "u32 \<Rightarrow> u32" where
  "next_generation g = (let g' = g + 1 in if g' = 0 then g' + 1 else g')"

definition Register :: "'c \<Rightarrow> 'c ConnectionTable \<Rightarrow> ConnectionId \<times> 'c ConnectionTable" where
  [table_defs]: "Register c t =
     (let (s, es, fs) =
            (if free_slots t \<noteq> [] then (last (free_slots t), entries t, butlast (free_slots t))
             else (word_of_nat (length (entries t)), entries t @ [Entry_new], free_slots t));
          g = next_generation (entry_generation (es ! unat s))
      in (\<lparr>slot = s, generation = g\<rparr>,
          \<lparr>entries = es[unat s := \<lparr>entry_generation = g, active = True, conn = Some c\<rparr>],
           free_slots = fs\<rparr>))"

definition Acquire :: "('c \<Rightarrow> bool) \<Rightarrow> ConnectionId \<Rightarrow> 'c ConnectionTable \<Rightarrow> 'c option" where
  [table_defs]: "Acquire alive cid t =
     (if \<not> valid cid then None
      else if length (entries t) \<le> unat (slot cid) then None
      else let e = entries t ! unat (slot cid)
           in if \<not> active e \<or> entry_generation e \<noteq> generation cid then None
              else case conn e of None \<Rightarrow> None | Some c \<Rightarrow> if alive c then Some c else None)"

definition Unregister :: "ConnectionId \<Rightarrow> 'c ConnectionTable \<Rightarrow> 'c ConnectionTable" where
  [table_defs]: "Unregister cid t =
     (if \<not> valid cid then t
      else if length (entries t) \<le> unat (slot cid) then t
      else let e = entries t ! unat (slot cid)
           in if \<not> active e \<or> entry_generation e \<noteq> generation cid then t
              else \<lparr>entries = (entries t)[unat (slot cid) := e\<lparr>active := False, conn := None\<rparr>],
                    free_slots = free_slots t @ [slot cid]\<rparr>)"

definition ConnectionTable_Clear :: "'c ConnectionTable \<Rightarrow> 'c ConnectionTable" where
  [table_defs]: "ConnectionTable_Clear t = t\<lparr>entries := [], free_slots := []\<rparr>"

section \<open>Invariant and abstraction\<close>

text \<open>
  The free list holds each inactive slot exactly once and no active one; an active entry
  has a nonzero generation.
\<close>

definition table_inv :: "'c ConnectionTable \<Rightarrow> bool" where
  "table_inv t \<longleftrightarrow>
     length (entries t) \<le> 2 ^ 32 \<and> distinct (free_slots t) \<and>
     (\<forall>s \<in> set (free_slots t). unat s < length (entries t)) \<and>
     (\<forall>i < length (entries t). active (entries t ! i) \<longleftrightarrow> word_of_nat i \<notin> set (free_slots t)) \<and>
     (\<forall>i < length (entries t). active (entries t ! i) \<longrightarrow>
        entry_generation (entries t ! i) \<noteq> 0 \<and> conn (entries t ! i) \<noteq> None)"

text \<open>A slot is available: one was freed, or a new entry still has a 32-bit index.\<close>

definition table_room :: "'c ConnectionTable \<Rightarrow> bool" where
  "table_room t \<longleftrightarrow> free_slots t \<noteq> [] \<or> length (entries t) < 2 ^ 32"

text \<open>The map from identifiers to connections that the table stands for.\<close>

definition table_map :: "'c ConnectionTable \<Rightarrow> ConnectionId \<Rightarrow> 'c option" where
  "table_map t cid = Acquire (\<lambda>_. True) cid t"

lemma table_map_Some:
  "table_map t cid = Some c \<longleftrightarrow>
     valid cid \<and> unat (slot cid) < length (entries t) \<and> active (entries t ! unat (slot cid)) \<and>
     entry_generation (entries t ! unat (slot cid)) = generation cid \<and>
     conn (entries t ! unat (slot cid)) = Some c"
  by (auto simp: table_map_def Acquire_def Let_def split: if_splits option.splits)

lemma Acquire_table_map: "Acquire alive cid t = (case table_map t cid of None \<Rightarrow> None | Some c \<Rightarrow> if alive c then Some c else None)"
  by (auto simp: table_map_def Acquire_def Let_def split: option.splits)

lemma next_generation_nonzero [simp]: "next_generation g \<noteq> 0"
  by (simp add: next_generation_def Let_def)

lemma word_of_nat_unat_eq [simp]: "(word_of_nat (unat (s :: u32)) :: u32) = s"
  by simp

lemma unat_eq_u32 [simp]: "unat (a :: u32) = unat b \<longleftrightarrow> a = b"
  by (simp add: word_unat_eq_iff)

lemma unat_word_of_nat_u32: "n < 2 ^ 32 \<Longrightarrow> unat (word_of_nat n :: u32) = n"
  by (simp add: unat_of_nat)

lemma word_of_nat_eq_u32: "i < 2 ^ 32 \<Longrightarrow> (word_of_nat i = (s :: u32)) \<longleftrightarrow> i = unat s"
  using unat_word_of_nat_u32 [of i] by auto

text \<open>The slot a registration uses, and the entry list it writes to.\<close>

definition reg_slot :: "'c ConnectionTable \<Rightarrow> u32" where
  "reg_slot t = (if free_slots t \<noteq> [] then last (free_slots t) else word_of_nat (length (entries t)))"

definition reg_entries :: "'c ConnectionTable \<Rightarrow> 'c Entry list" where
  "reg_entries t = (if free_slots t \<noteq> [] then entries t else entries t @ [Entry_new])"

definition reg_gen :: "'c ConnectionTable \<Rightarrow> u32" where
  "reg_gen t = next_generation (entry_generation (reg_entries t ! unat (reg_slot t)))"

lemma Register_eq:
  "Register c t =
     (\<lparr>slot = reg_slot t, generation = reg_gen t\<rparr>,
      \<lparr>entries = (reg_entries t)[unat (reg_slot t) := \<lparr>entry_generation = reg_gen t, active = True, conn = Some c\<rparr>],
       free_slots = butlast (free_slots t)\<rparr>)"
  by (simp add: Register_def reg_slot_def reg_entries_def reg_gen_def Let_def)

lemma reg_slot_bounds:
  assumes "table_inv t" "table_room t"
  shows "unat (reg_slot t) < length (reg_entries t)"
    and "length (reg_entries t) \<le> 2 ^ 32"
    and "i < length (entries t) \<Longrightarrow> reg_entries t ! i = entries t ! i"
    and "length (entries t) \<le> i \<Longrightarrow> i < length (reg_entries t) \<Longrightarrow> i = unat (reg_slot t)"
    and "\<not> active (reg_entries t ! unat (reg_slot t))"
  using assms
  by (auto simp: reg_slot_def reg_entries_def table_inv_def table_room_def Entry_new_def
      unat_word_of_nat_u32 nth_append less_Suc_eq)

lemma table_inv_new [simp]: "table_inv ConnectionTable_new"
  by (simp add: table_inv_def ConnectionTable_new_def)

lemma table_inv_Clear [simp]: "table_inv (ConnectionTable_Clear t)"
  by (simp add: table_inv_def ConnectionTable_Clear_def)

lemma notin_butlast_last: "distinct xs \<Longrightarrow> xs \<noteq> [] \<Longrightarrow> x \<in> set (butlast xs) \<longleftrightarrow> x \<in> set xs \<and> x \<noteq> last xs"
  by (induction xs rule: rev_induct) auto

lemma reg_free:
  assumes "table_inv t" "i < length (reg_entries t)" "table_room t"
  shows "word_of_nat i \<in> set (butlast (free_slots t)) \<longleftrightarrow>
    word_of_nat i \<in> set (free_slots t) \<and> i \<noteq> unat (reg_slot t)"
proof -
  have i: "i < 2 ^ 32" using assms reg_slot_bounds(2) [OF assms(1,3)] by simp
  show ?thesis
    using assms word_of_nat_eq_u32 [OF i, of "last (free_slots t)"]
    by (cases "free_slots t = []") (auto simp: notin_butlast_last table_inv_def reg_slot_def)
qed

lemma table_inv_Register:
  assumes "table_inv t" "table_room t" "Register c t = (cid, t')"
  shows "table_inv t'"
proof -
  note b = reg_slot_bounds [OF assms(1,2)]
  have t': "t' = \<lparr>entries = (reg_entries t)[unat (reg_slot t) := \<lparr>entry_generation = reg_gen t, active = True, conn = Some c\<rparr>],
       free_slots = butlast (free_slots t)\<rparr>"
    using assms(3) by (simp add: Register_eq)
  have act: "active (entries t' ! i) \<longleftrightarrow> word_of_nat i \<notin> set (free_slots t')"
    if "i < length (reg_entries t)" for i
  proof (cases "i = unat (reg_slot t)")
    case True
    then show ?thesis using that reg_free [OF assms(1) that assms(2)] by (simp add: t')
  next
    case False
    then have "i < length (entries t)" using b(4) [of i] that by force
    then show ?thesis
      using False that reg_free [OF assms(1) that assms(2)] b(3) [of i] assms(1)
      by (simp add: t' table_inv_def)
  qed
  have gen: "active (entries t' ! i) \<longrightarrow> entry_generation (entries t' ! i) \<noteq> 0 \<and> conn (entries t' ! i) \<noteq> None"
    if "i < length (reg_entries t)" for i
  proof (cases "i = unat (reg_slot t)")
    case True
    then show ?thesis using that by (simp add: t' reg_gen_def)
  next
    case False
    then have "i < length (entries t)" using b(4) [of i] that by force
    then show ?thesis using False that b(3) [of i] assms(1) by (simp add: t' table_inv_def)
  qed
  have fs: "distinct (free_slots t')" "\<forall>s \<in> set (free_slots t'). unat s < length (reg_entries t)"
    using assms(1) by (auto simp: t' table_inv_def distinct_butlast reg_entries_def
        dest!: in_set_butlastD)
  show ?thesis
    unfolding table_inv_def using act gen fs b(2) by (simp add: t')
qed

lemma table_map_Register:
  assumes "table_inv t" "table_room t" "Register c t = (cid, t')"
  shows "table_map t' = (table_map t)(cid \<mapsto> c)"
proof
  fix x
  note b = reg_slot_bounds [OF assms(1,2)]
  have eq: "cid = \<lparr>slot = reg_slot t, generation = reg_gen t\<rparr>"
    "t' = \<lparr>entries = (reg_entries t)[unat (reg_slot t) := \<lparr>entry_generation = reg_gen t, active = True, conn = Some c\<rparr>],
       free_slots = butlast (free_slots t)\<rparr>"
    using assms(3) by (simp_all add: Register_eq)
  have old: "table_map t x = None" if "slot x = reg_slot t"
    using b(1,3,5) that by (auto simp: table_map_def Acquire_def Let_def)
  show "table_map t' x = ((table_map t)(cid \<mapsto> c)) x"
  proof (cases "slot x = reg_slot t")
    case True
    then show ?thesis
      using b(1) old by (cases x) (auto simp: table_map_def Acquire_def eq Let_def valid_def reg_gen_def)
  next
    case False
    then have ne: "unat (slot x) \<noteq> unat (reg_slot t)" by simp
    then have len: "unat (slot x) < length (reg_entries t) \<longleftrightarrow> unat (slot x) < length (entries t)"
      using b(4) [of "unat (slot x)"] by (force simp: reg_entries_def)
    have "x \<noteq> cid" using False eq by auto
    then show ?thesis
      using ne len b(3) [of "unat (slot x)"] by (simp add: table_map_def Acquire_def eq Let_def not_less [symmetric])
  qed
qed

lemma Register_fresh:
  assumes "table_inv t" "table_room t" "Register c t = (cid, t')"
  shows "valid cid" "table_map t cid = None"
proof -
  note b = reg_slot_bounds(1,3,5) [OF assms(1,2)]
  show "valid cid" using assms(3) by (auto simp: Register_eq valid_def reg_gen_def)
  show "table_map t cid = None"
    using b assms(3) by (auto simp: Register_eq table_map_def Acquire_def Let_def)
qed

lemma table_entry_live:
  assumes "table_inv t" "valid cid" "unat (slot cid) < length (entries t)"
    "active (entries t ! unat (slot cid))" "entry_generation (entries t ! unat (slot cid)) = generation cid"
  shows "table_map t cid \<noteq> None"
proof -
  have "conn (entries t ! unat (slot cid)) \<noteq> None"
    using assms(1,3,4) unfolding table_inv_def by blast
  then show ?thesis using assms(2-5) by (auto simp: table_map_Some)
qed

lemma Unregister_cases:
  assumes "table_inv t"
  obtains (live) c where "table_map t cid = Some c"
      "Unregister cid t = \<lparr>entries = (entries t)[unat (slot cid) := (entries t ! unat (slot cid))\<lparr>active := False, conn := None\<rparr>],
                    free_slots = free_slots t @ [slot cid]\<rparr>"
  | (stale) "table_map t cid = None" "Unregister cid t = t"
proof (cases "table_map t cid")
  case None
  then have "Unregister cid t = t"
    using table_entry_live [OF assms, of cid] by (auto simp: Unregister_def Let_def)
  with None show ?thesis by (rule stale)
next
  case (Some c)
  then show ?thesis by (intro live [of c]) (auto simp: table_map_Some Unregister_def Let_def)
qed

lemma table_inv_Unregister:
  assumes "table_inv t"
  shows "table_inv (Unregister cid t)"
proof (rule Unregister_cases [OF assms, of cid])
  fix c assume live: "table_map t cid = Some c"
    "Unregister cid t = \<lparr>entries = (entries t)[unat (slot cid) := (entries t ! unat (slot cid))\<lparr>active := False, conn := None\<rparr>],
                    free_slots = free_slots t @ [slot cid]\<rparr>"
  have s: "unat (slot cid) < length (entries t)" "active (entries t ! unat (slot cid))"
    using live(1) by (auto simp: table_map_Some)
  have "active (entries t ! unat (slot cid)) \<longleftrightarrow> word_of_nat (unat (slot cid)) \<notin> set (free_slots t)"
    using assms s(1) unfolding table_inv_def by blast
  then have "slot cid \<notin> set (free_slots t)" using s(2) by simp
  moreover have "active (entries (Unregister cid t) ! i) \<longleftrightarrow> word_of_nat i \<notin> set (free_slots (Unregister cid t))"
    if "i < length (entries t)" for i
    using that assms s word_of_nat_eq_u32 [of i "slot cid"]
    by (cases "i = unat (slot cid)") (auto simp: live(2) table_inv_def)
  moreover have "active (entries (Unregister cid t) ! i) \<longrightarrow>
      entry_generation (entries (Unregister cid t) ! i) \<noteq> 0 \<and> conn (entries (Unregister cid t) ! i) \<noteq> None"
    if "i < length (entries t)" for i
    using that assms s by (cases "i = unat (slot cid)") (auto simp: live(2) table_inv_def)
  ultimately show ?thesis
    using assms s(1) by (simp add: table_inv_def live(2))
qed (use assms in simp)

lemma table_map_Unregister:
  assumes "table_inv t"
  shows "table_map (Unregister cid t) = (table_map t)(cid := None)"
proof (rule Unregister_cases [OF assms, of cid])
  fix c assume live: "table_map t cid = Some c"
    "Unregister cid t = \<lparr>entries = (entries t)[unat (slot cid) := (entries t ! unat (slot cid))\<lparr>active := False, conn := None\<rparr>],
                    free_slots = free_slots t @ [slot cid]\<rparr>"
  have s: "valid cid" "unat (slot cid) < length (entries t)" "active (entries t ! unat (slot cid))"
    "entry_generation (entries t ! unat (slot cid)) = generation cid"
    using live(1) by (auto simp: table_map_Some)
  show ?thesis
  proof
    fix x
    show "table_map (Unregister cid t) x = ((table_map t)(cid := None)) x"
    proof (cases "slot x = slot cid")
      case True
      then have "x \<noteq> cid \<Longrightarrow> generation x \<noteq> generation cid" by (cases x; cases cid) auto
      then show ?thesis using s True by (auto simp: table_map_def Acquire_def live(2) Let_def)
    next
      case False
      then have "unat (slot x) \<noteq> unat (slot cid)" "x \<noteq> cid" by auto
      then show ?thesis by (simp add: table_map_def Acquire_def live(2))
    qed
  qed
qed (auto simp: fun_eq_iff)

section \<open>The contract of the table\<close>

text \<open>
  What the runtime and the connections rely on: a registration returns a valid identifier
  that is not in use and stands for the new connection, everything else unchanged;
  unregistering removes exactly the named connection.
\<close>

locale handle_table =
  fixes reg :: "'c \<Rightarrow> 't \<Rightarrow> ConnectionId \<times> 't"
    and unreg :: "ConnectionId \<Rightarrow> 't \<Rightarrow> 't"
    and look :: "'t \<Rightarrow> ConnectionId \<Rightarrow> 'c option"
    and inv :: "'t \<Rightarrow> bool"
    and room :: "'t \<Rightarrow> bool"
  assumes look_reg: "inv t \<Longrightarrow> room t \<Longrightarrow> reg c t = (h, t') \<Longrightarrow> look t' = (look t)(h \<mapsto> c)"
    and reg_valid: "inv t \<Longrightarrow> room t \<Longrightarrow> reg c t = (h, t') \<Longrightarrow> valid h"
    and reg_unused: "inv t \<Longrightarrow> room t \<Longrightarrow> reg c t = (h, t') \<Longrightarrow> look t h = None"
    and inv_reg: "inv t \<Longrightarrow> room t \<Longrightarrow> reg c t = (h, t') \<Longrightarrow> inv t'"
    and look_unreg: "inv t \<Longrightarrow> look (unreg h t) = (look t)(h := None)"
    and inv_unreg: "inv t \<Longrightarrow> inv (unreg h t)"
begin

lemma reg_unreg:
  assumes "inv t" "room t" "reg c t = (h, t')"
  shows "look (unreg h t') = look t"
  using look_unreg [OF inv_reg [OF assms], of h] look_reg [OF assms] reg_unused [OF assms]
  by (simp add: fun_upd_idem)

lemma reg_keeps_others:
  assumes "inv t" "room t" "reg c t = (h, t')" "look t h' = Some c'"
  shows "look t' h' = Some c'"
  using look_reg [OF assms(1-3)] reg_unused [OF assms(1-3)] assms(4) by auto

lemma unreg_stale: "inv t \<Longrightarrow> look t h = None \<Longrightarrow> look (unreg h t) = look t"
  using look_unreg [of t h] by (simp add: fun_upd_idem)

end

interpretation conn_table: handle_table Register Unregister table_map table_inv table_room
proof
  fix t :: "'a ConnectionTable" and c h t'
  assume a: "table_inv t" "table_room t" "Register c t = (h, t')"
  show "table_map t' = (table_map t)(h \<mapsto> c)" using a by (rule table_map_Register)
  show "valid h" "table_map t h = None" using Register_fresh [OF a] .
  show "table_inv t'" using a by (rule table_inv_Register)
next
  fix t :: "'a ConnectionTable" and h
  assume a: "table_inv t"
  show "table_map (Unregister h t) = (table_map t)(h := None)" using a by (rule table_map_Unregister)
  show "table_inv (Unregister h t)" using a by (rule table_inv_Unregister)
qed

section \<open>Histories of a table\<close>

datatype 'c table_op = OpRegister 'c | OpUnregister ConnectionId

text \<open>Running a history returns the table and all identifiers issued, the latest first.\<close>

fun run_table :: "'c table_op list \<Rightarrow> 'c ConnectionTable \<times> ConnectionId list \<Rightarrow> 'c ConnectionTable \<times> ConnectionId list" where
  "run_table [] ti = ti"
| "run_table (OpRegister c # ops) (t, issued) =
     (let (h, t') = Register c t in run_table ops (t', h # issued))"
| "run_table (OpUnregister h # ops) (t, issued) = run_table ops (Unregister h t, issued)"

text \<open>
  As long as no generation counter has wrapped, the generation of a slot is an upper bound
  of the generations issued for it.
\<close>

definition issued_inv :: "'c ConnectionTable \<Rightarrow> ConnectionId list \<Rightarrow> bool" where
  "issued_inv t issued \<longleftrightarrow> table_inv t \<and> length (entries t) \<le> length issued \<and> distinct issued \<and>
     (\<forall>h \<in> set issued. unat (slot h) < length (entries t) \<and>
        unat (generation h) \<le> unat (entry_generation (entries t ! unat (slot h)))) \<and>
     (\<forall>i < length (entries t). unat (entry_generation (entries t ! i)) \<le> length issued)"

lemma issued_inv_new: "issued_inv ConnectionTable_new []"
  using table_inv_new by (simp add: issued_inv_def ConnectionTable_new_def)

lemma Unregister_frame:
  "length (entries (Unregister h t)) = length (entries t)"
  "i < length (entries t) \<Longrightarrow> entry_generation (entries (Unregister h t) ! i) = entry_generation (entries t ! i)"
  by (auto simp: Unregister_def Let_def nth_list_update)

lemma issued_inv_Unregister: "issued_inv t issued \<Longrightarrow> issued_inv (Unregister h t) issued"
  using table_inv_Unregister [of t h] by (simp add: issued_inv_def Unregister_frame)

lemma unat_next_generation: "unat g < 2 ^ 32 - 1 \<Longrightarrow> unat (next_generation g) = unat g + 1"
proof -
  assume "unat g < 2 ^ 32 - 1"
  then have "unat (g + 1) = unat g + 1" by (simp add: unat_word_ariths)
  then show ?thesis by (auto simp: next_generation_def Let_def)
qed

lemma reg_gen_bound:
  assumes "issued_inv t issued" "length issued < 2 ^ 32 - 1"
  shows "table_inv t" "table_room t"
    and "unat (reg_gen t) = unat (entry_generation (reg_entries t ! unat (reg_slot t))) + 1"
    and "unat (reg_gen t) \<le> Suc (length issued)"
proof -
  show t: "table_inv t" "table_room t"
    using assms by (auto simp: issued_inv_def table_room_def)
  have "unat (entry_generation (reg_entries t ! unat (reg_slot t))) \<le> length issued"
    using reg_slot_bounds(1,3) [OF t] assms(1)
    by (cases "unat (reg_slot t) < length (entries t)")
      (auto simp: issued_inv_def reg_entries_def nth_append Entry_new_def split: if_splits)
  then show "unat (reg_gen t) = unat (entry_generation (reg_entries t ! unat (reg_slot t))) + 1"
    "unat (reg_gen t) \<le> Suc (length issued)"
    using unat_next_generation assms(2) by (auto simp: reg_gen_def)
qed

lemma issued_inv_Register:
  assumes "issued_inv t issued" "length issued < 2 ^ 32 - 1" "Register c t = (h, t')"
  shows "issued_inv t' (h # issued)"
proof -
  note g = reg_gen_bound [OF assms(1,2)]
  note b = reg_slot_bounds [OF g(1,2)]
  have eq: "h = \<lparr>slot = reg_slot t, generation = reg_gen t\<rparr>"
    "entries t' = (reg_entries t)[unat (reg_slot t) := \<lparr>entry_generation = reg_gen t, active = True, conn = Some c\<rparr>]"
    using assms(3) by (auto simp: Register_eq)
  have keep: "unat (slot x) < length (entries t') \<and>
      unat (generation x) \<le> unat (entry_generation (reg_entries t ! unat (slot x)))" if "x \<in> set issued" for x
    using that assms(1) b(3) [of "unat (slot x)"] by (auto simp: issued_inv_def eq reg_entries_def nth_append)
  have fresh: "h \<notin> set issued"
    using keep [of h] g(3) by (auto simp: eq(1))
  have upper: "unat (generation x) \<le> unat (entry_generation (entries t' ! unat (slot x)))" if "x \<in> set issued" for x
    using keep [OF that] g(3) b(1) by (cases "slot x = reg_slot t") (auto simp: eq)
  have bound: "unat (entry_generation (entries t' ! i)) \<le> Suc (length issued)" if "i < length (entries t')" for i
  proof (cases "i = unat (reg_slot t)")
    case True
    then show ?thesis using g(4) b(1) by (simp add: eq)
  next
    case False
    then have "i < length (entries t)" using b(4) [of i] that eq(2) by force
    then show ?thesis using False b(3) [of i] assms(1) by (simp add: eq issued_inv_def le_SucI)
  qed
  have "length (entries t') \<le> Suc (length issued)"
    using assms(1) by (simp add: eq reg_entries_def issued_inv_def)
  moreover have "table_inv t'" using g(1,2) assms(3) by (rule table_inv_Register)
  ultimately show ?thesis
    using assms(1) keep fresh upper bound b(1) eq by (auto simp: issued_inv_def)
qed

lemma run_table_issued:
  assumes "issued_inv t issued" "length issued + length ops < 2 ^ 32 - 1"
    "run_table ops (t, issued) = (t', issued')"
  shows "issued_inv t' issued'" "\<exists>new. issued' = new @ issued"
    and "length issued' \<le> length issued + length ops"
    and "h \<in> set issued \<Longrightarrow> table_map t h = None \<Longrightarrow> table_map t' h = None"
proof -
  have "issued_inv t' issued' \<and> (\<exists>new. issued' = new @ issued) \<and> length issued' \<le> length issued + length ops \<and>
     (h \<in> set issued \<longrightarrow> table_map t h = None \<longrightarrow> table_map t' h = None)"
    using assms
  proof (induction ops "(t, issued)" arbitrary: t issued rule: run_table.induct)
    case (2 c ops t issued)
    obtain k t1 where r: "Register c t = (k, t1)" by fastforce
    have i: "issued_inv t1 (k # issued)"
      using issued_inv_Register [OF "2.prems"(1) _ r] "2.prems"(2) by simp
    have t: "table_inv t" "table_room t" using reg_gen_bound [OF "2.prems"(1)] "2.prems"(2) by auto
    have "k \<notin> set issued" using i by (simp add: issued_inv_def)
    then have dead: "h \<in> set issued \<Longrightarrow> table_map t h = None \<Longrightarrow> table_map t1 h = None"
      using conn_table.look_reg [OF t r] by auto
    have "issued_inv t' issued' \<and> (\<exists>new. issued' = new @ k # issued) \<and>
        length issued' \<le> length (k # issued) + length ops \<and>
        (h \<in> set (k # issued) \<longrightarrow> table_map t1 h = None \<longrightarrow> table_map t' h = None)"
      using "2.hyps" [OF r [symmetric] refl i] "2.prems"(2,3) r by simp
    then show ?case using dead by force
  next
    case (3 x ops t issued)
    have "table_inv t" using "3.prems"(1) by (simp add: issued_inv_def)
    then have "table_map t h = None \<Longrightarrow> table_map (Unregister x t) h = None"
      using conn_table.look_unreg [of t x] by simp
    then show ?case using 3 issued_inv_Unregister by force
  qed auto
  then show "issued_inv t' issued'" "\<exists>new. issued' = new @ issued"
    "length issued' \<le> length issued + length ops"
    "h \<in> set issued \<Longrightarrow> table_map t h = None \<Longrightarrow> table_map t' h = None" by auto
qed

lemma run_table_append: "run_table (ops @ ops') ti = run_table ops' (run_table ops ti)"
  by (induction ops ti rule: run_table.induct) (auto split: prod.splits)

section \<open>Properties\<close>

lemma unat_ToUint64: "unat (ToUint64 cid) = unat (generation cid) * 2 ^ 32 + unat (slot cid)"
proof -
  have u: "unat (ucast (w :: u32) :: u64) = unat w" for w
    using unat_u32_less [of w] by (simp add: unsigned_ucast_eq take_bit_eq_mod)
  have "unat (slot cid) + unat (generation cid) * 2 ^ 32 < 2 ^ 64"
    using unat_u32_less [of "slot cid"] unat_u32_less [of "generation cid"] by simp
  then show ?thesis
    using unat_or_push_bit [of "ucast (slot cid)" 32 "ucast (generation cid)"] unat_u32_less [of "slot cid"]
    by (simp add: ToUint64_def u or.commute)
qed

lemma FromUint64_ToUint64 [simp]: "FromUint64 (ToUint64 cid) = cid"
proof -
  have m: "(0xFFFFFFFF :: u64) = mask 32" by (simp add: mask_eq_exp_minus_1)
  have "slot (FromUint64 (ToUint64 cid)) = slot cid"
    by (rule bit_word_eqI) (auto simp: FromUint64_def ToUint64_def m bit_simps)
  moreover have "generation (FromUint64 (ToUint64 cid)) = generation cid"
    by (rule bit_word_eqI) (auto simp: FromUint64_def ToUint64_def bit_simps dest: bit_imp_le_length)
  ultimately show ?thesis by (cases cid) simp
qed

lemma ToUint64_nonzero: "valid cid \<Longrightarrow> ToUint64 cid \<noteq> 0"
  using unat_ToUint64 [of cid] by (auto simp: valid_def unat_eq_0)

text \<open>
  The 64-bit tag of a connection in the kernel's poll set determines the connection:
  decoding an encoded identifier gives it back, and a valid identifier never encodes to
  0, the tag of the poller's wake-up descriptor.
\<close>

lemma id_tag_roundtrip: "FromUint64 (ToUint64 cid) = cid \<and> (valid cid \<longrightarrow> ToUint64 cid \<noteq> 0)"
  by (simp add: ToUint64_nonzero)

lemma id_tag_roundtrip_example: "ToUint64 \<lparr>slot = 0, generation = 1\<rparr> \<noteq> 0"
  using id_tag_roundtrip [of "\<lparr>slot = 0, generation = 1\<rparr>"] by (simp add: valid_def)





end
