(* ===== verification/Timer_Queues.thy ===== *)
theory Timer_Queues
  imports Connection_Tables
begin

text \<open>
  The timer queue of the runtime (src/net/timer_queue.h, src/net/timer_queue.cc): a
  \<open>std::priority_queue\<close> of timer events ordered by deadline, guarded by one mutex, so that
  every member function is one atomic operation. The priority queue of the C++ library is
  modelled by a list kept sorted by deadline; the locale \<open>min_queue\<close> states the contract of
  that container, and the facts about the timer queue use nothing else of it.

  Deadlines and the clock are \<open>int64_t\<close> milliseconds, modelled as \<open>int\<close>: for the values a
  clock delivers the difference of two of them does not leave the range.
\<close>

section \<open>The container\<close>

locale min_queue =
  fixes is_empty :: "'q \<Rightarrow> bool"
    and push :: "'e \<Rightarrow> 'q \<Rightarrow> 'q"
    and top :: "'q \<Rightarrow> 'e"
    and pop :: "'q \<Rightarrow> 'q"
    and content :: "'q \<Rightarrow> 'e multiset"
    and inv :: "'q \<Rightarrow> bool"
    and key :: "'e \<Rightarrow> int"
  assumes is_empty_iff: "inv q \<Longrightarrow> is_empty q \<longleftrightarrow> content q = {#}"
    and content_push: "inv q \<Longrightarrow> content (push e q) = add_mset e (content q)"
    and top_in: "inv q \<Longrightarrow> content q \<noteq> {#} \<Longrightarrow> top q \<in># content q"
    and top_least: "inv q \<Longrightarrow> e \<in># content q \<Longrightarrow> key (top q) \<le> key e"
    and content_pop: "inv q \<Longrightarrow> content q \<noteq> {#} \<Longrightarrow> content (pop q) = content q - {#top q#}"
    and inv_push: "inv q \<Longrightarrow> inv (push e q)"
    and inv_pop: "inv q \<Longrightarrow> content q \<noteq> {#} \<Longrightarrow> inv (pop q)"
begin

lemma pop_size: "inv q \<Longrightarrow> content q \<noteq> {#} \<Longrightarrow> size (content (pop q)) < size (content q)"
  using content_pop [of q] top_in [of q] by (simp add: size_Diff_singleton_if nonempty_has_size)

lemma content_top_pop: "inv q \<Longrightarrow> content q \<noteq> {#} \<Longrightarrow> content q = add_mset (top q) (content (pop q))"
  using content_pop [of q] top_in [of q] by simp

lemma none_due: "inv q \<Longrightarrow> now < key (top q) \<Longrightarrow> e \<in># content q \<Longrightarrow> now < key e"
  using top_least [of q e] by simp

end

section \<open>Timer events\<close>

datatype TimerKind = TimerKind_kConnectTimeout

record TimerEvent =
  deadline_ms :: int
  timer_id :: ConnectionId
  kind :: TimerKind

type_synonym TimerQueue = "TimerEvent list"

definition pq_push :: "TimerEvent \<Rightarrow> TimerQueue \<Rightarrow> TimerQueue" where
  "pq_push ev q = insort_key deadline_ms ev q"

abbreviation timers_sorted :: "TimerQueue \<Rightarrow> bool" where
  "timers_sorted q \<equiv> sorted (map deadline_ms q)"

interpretation timer_pq: min_queue "\<lambda>q. q = []" pq_push hd tl mset timers_sorted deadline_ms
proof
  fix q :: TimerQueue and e :: TimerEvent
  assume q: "timers_sorted q"
  show "(q = []) = (mset q = {#})" by simp
  show "mset (pq_push e q) = add_mset e (mset q)"
    by (induction q) (auto simp: pq_push_def)
  show "mset q \<noteq> {#} \<Longrightarrow> hd q \<in># mset q" by simp
  show "e \<in># mset q \<Longrightarrow> deadline_ms (hd q) \<le> deadline_ms e" using q by (cases q) auto
  show "mset q \<noteq> {#} \<Longrightarrow> mset (tl q) = mset q - {#hd q#}" by (cases q) auto
  show "timers_sorted (pq_push e q)" using q by (simp add: pq_push_def sorted_insort_key)
  show "mset q \<noteq> {#} \<Longrightarrow> timers_sorted (tl q)" using q by (cases q) auto
qed

section \<open>Operations\<close>

definition TimerQueue_Add :: "int \<Rightarrow> ConnectionId \<Rightarrow> TimerKind \<Rightarrow> TimerQueue \<Rightarrow> TimerQueue" where
  "TimerQueue_Add deadline cid k q =
     (if \<not> valid cid then q
      else pq_push \<lparr>deadline_ms = deadline, timer_id = cid, kind = k\<rparr> q)"

definition NextTimeoutMs :: "int \<Rightarrow> int \<Rightarrow> TimerQueue \<Rightarrow> int" where
  "NextTimeoutMs now_ms max_timeout_ms q =
     (if q = [] then max_timeout_ms
      else let diff = deadline_ms (hd q) - now_ms
           in if diff \<le> 0 then 0
              else if max_timeout_ms < diff then max_timeout_ms
              else diff)"

text \<open>The loop of \<open>PopExpired\<close>, and the function with its output vector (\<open>None\<close>: no vector).\<close>

function pop_expired_loop :: "int \<Rightarrow> TimerQueue \<Rightarrow> TimerEvent list \<Rightarrow> TimerQueue \<times> TimerEvent list" where
  "pop_expired_loop now_ms q out =
     (if q \<noteq> [] \<and> deadline_ms (hd q) \<le> now_ms
      then pop_expired_loop now_ms (tl q) (out @ [hd q])
      else (q, out))"
  by pat_completeness auto
termination
  by (relation "measure (\<lambda>(now, q, out). length q)") auto

declare pop_expired_loop.simps [simp del]

definition PopExpired :: "int \<Rightarrow> TimerQueue \<Rightarrow> TimerEvent list option \<Rightarrow> TimerQueue \<times> TimerEvent list option" where
  "PopExpired now_ms q out =
     (case out of
        None \<Rightarrow> (q, None)
      | Some evs \<Rightarrow> (case pop_expired_loop now_ms q evs of (q', evs') \<Rightarrow> (q', Some evs')))"

fun TimerQueue_Clear :: "TimerQueue \<Rightarrow> TimerQueue" where
  "TimerQueue_Clear [] = []"
| "TimerQueue_Clear (ev # q) = TimerQueue_Clear q"

section \<open>Facts\<close>

lemma TimerQueue_Clear_empty [simp]: "TimerQueue_Clear q = []"
  by (induction q) auto

lemma timers_sorted_Add: "timers_sorted q \<Longrightarrow> timers_sorted (TimerQueue_Add d cid k q)"
  by (simp add: TimerQueue_Add_def timer_pq.inv_push)

lemma pop_expired_loop_spec:
  assumes "timers_sorted q" "pop_expired_loop now q out = (q', out')"
  shows "timers_sorted q' \<and> (\<exists>due. out' = out @ due \<and> mset q = mset due + mset q' \<and> timers_sorted due \<and>
    (\<forall>e \<in> set due. deadline_ms e \<le> now)) \<and> (\<forall>e \<in> set q'. now < deadline_ms e)"
  using assms
proof (induction now q out arbitrary: q' rule: pop_expired_loop.induct)
  case (1 now q out)
  show ?case
  proof (cases "q \<noteq> [] \<and> deadline_ms (hd q) \<le> now")
    case True
    have ne: "mset q \<noteq> {#}" using True by simp
    have tl: "timers_sorted (tl q)" using timer_pq.inv_pop [OF "1.prems"(1) ne] .
    have loop: "pop_expired_loop now (tl q) (out @ [hd q]) = (q', out')"
      using "1.prems"(2) True by (simp add: pop_expired_loop.simps [of now q out])
    obtain due where due: "timers_sorted q'" "out' = (out @ [hd q]) @ due" "mset (tl q) = mset due + mset q'"
      "timers_sorted due" "\<forall>e \<in> set due. deadline_ms e \<le> now" "\<forall>e \<in> set q'. now < deadline_ms e"
      using "1.IH" [OF True tl loop] by blast
    have mem: "e \<in># mset q" if "e \<in> set due" for e
      using that due(3) timer_pq.content_top_pop [OF "1.prems"(1) ne] by (simp flip: set_mset_mset)
    have "deadline_ms (hd q) \<le> deadline_ms e" if "e \<in> set due" for e
      using timer_pq.top_least [OF "1.prems"(1) mem [OF that]] .
    then have "timers_sorted (hd q # due)" using due(4) by auto
    moreover have "mset q = mset (hd q # due) + mset q'"
      using timer_pq.content_top_pop [OF "1.prems"(1) ne] due(3) by simp
    ultimately show ?thesis
      using due True by (intro conjI exI [of _ "hd q # due"]) auto
  next
    case False
    then have "q' = q" "out' = out"
      using "1.prems"(2) by (auto simp: pop_expired_loop.simps [of now q out])
    then show ?thesis
      using False "1.prems"(1) timer_pq.none_due [of q now] by (cases q) auto
  qed
qed

section \<open>Properties\<close>

text \<open>
  C19: \<open>PopExpired\<close> terminates and moves exactly the expired timers to the output: the
  popped events together with the remaining ones are the old queue, the popped ones are
  all due and come in the order of their deadlines, and no remaining one is due.
\<close>

theorem pop_expired_exact:
  assumes "timers_sorted q"
  shows "\<exists>q' due. PopExpired now q (Some out) = (q', Some (out @ due)) \<and> timers_sorted q' \<and>
    mset q = mset due + mset q' \<and> timers_sorted due \<and>
    (\<forall>e \<in> set due. deadline_ms e \<le> now) \<and> (\<forall>e \<in> set q'. now < deadline_ms e)"
proof -
  obtain q' out' where "pop_expired_loop now q out = (q', out')" by fastforce
  then show ?thesis using pop_expired_loop_spec [OF assms] by (fastforce simp: PopExpired_def)
qed

theorem pop_expired_exact_witness:
  "\<exists>q' due. PopExpired 10 [\<lparr>deadline_ms = 5, timer_id = \<lparr>slot = 0, generation = 1\<rparr>, kind = TimerKind_kConnectTimeout\<rparr>] (Some []) =
      (q', Some ([] @ due)) \<and> timers_sorted q' \<and>
    mset [\<lparr>deadline_ms = 5, timer_id = \<lparr>slot = 0, generation = 1\<rparr>, kind = TimerKind_kConnectTimeout\<rparr>] = mset due + mset q' \<and>
    timers_sorted due \<and> (\<forall>e \<in> set due. deadline_ms e \<le> 10) \<and> (\<forall>e \<in> set q'. 10 < deadline_ms e)"
  by (rule pop_expired_exact) simp

text \<open>
  The poll timeout computed from the timer queue is between 0 and the maximum, never
  lets the poller sleep past a deadline, and a poller that slept that long after \<open>now\<close>
  either slept the maximum or pops at least the earliest timer.
\<close>

lemma next_timeout_sound:
  assumes "timers_sorted q" "0 \<le> max_ms"
  shows "0 \<le> NextTimeoutMs now max_ms q \<and> NextTimeoutMs now max_ms q \<le> max_ms \<and>
    (\<forall>e \<in> set q. now + NextTimeoutMs now max_ms q \<le> max now (deadline_ms e)) \<and>
    (NextTimeoutMs now max_ms q < max_ms \<longrightarrow>
       (\<exists>e \<in> set q. \<forall>later \<ge> now + NextTimeoutMs now max_ms q. deadline_ms e \<le> later))"
proof (cases "q = []")
  case True
  then show ?thesis using assms(2) by (simp add: NextTimeoutMs_def)
next
  case False
  let ?t = "NextTimeoutMs now max_ms q"
  have least: "deadline_ms (hd q) \<le> deadline_ms e" if "e \<in> set q" for e
    using timer_pq.top_least [OF assms(1)] that by simp
  have t: "0 \<le> ?t" "?t \<le> max_ms" "now + ?t \<le> max now (deadline_ms (hd q))"
    "?t < max_ms \<Longrightarrow> deadline_ms (hd q) \<le> now + ?t"
    using False assms(2) by (auto simp: NextTimeoutMs_def Let_def)
  have "now + ?t \<le> max now (deadline_ms e)" if "e \<in> set q" for e
    using t(3) least [OF that] by linarith
  moreover have "\<exists>e \<in> set q. \<forall>later \<ge> now + ?t. deadline_ms e \<le> later" if "?t < max_ms"
    using t(4) [OF that] False by (intro bexI [of _ "hd q"]) auto
  ultimately show ?thesis using t(1,2) by blast
qed

lemma next_timeout_sound_example:
  "NextTimeoutMs 3 1000 [\<lparr>deadline_ms = 5, timer_id = \<lparr>slot = 0, generation = 1\<rparr>, kind = TimerKind_kConnectTimeout\<rparr>] \<le> 1000 \<and>
   NextTimeoutMs 3 1000 [\<lparr>deadline_ms = 5, timer_id = \<lparr>slot = 0, generation = 1\<rparr>, kind = TimerKind_kConnectTimeout\<rparr>] = 2"
  using next_timeout_sound [of "[\<lparr>deadline_ms = 5, timer_id = \<lparr>slot = 0, generation = 1\<rparr>, kind = TimerKind_kConnectTimeout\<rparr>]" 1000 3]
  by (simp add: NextTimeoutMs_def)

end
