(* ===== verification/Slices.thy ===== *)
theory Slices
  imports Connx_Prelude
begin

text \<open>
  Byte slices (src/utils/slice.h, src/utils/slice.cc). A slice keeps up to 23 bytes inside
  the object and refers to a reference-counted heap block otherwise. The heap is explicit:
  a block that has been freed is \<open>None\<close>, addresses are never reused, and an access to a freed
  block or outside a block is an error value, so that the absence of such accesses is a
  theorem. Memory that was allocated and not yet written has the contents \<open>junk\<close>; an
  allocation fails, and the program aborts, when less memory than requested is left.

  The functions act on the fields of one \<open>Slice\<close> object and on the heap. Statements of a
  program over a store of slice objects, where two operands may be the same object, are
  \<open>exec\<close> at the end of the model. The main result is that such a program computes what it
  computes over plain byte strings, and that the heap holds no block once every object is
  destroyed.
\<close>

section \<open>Heap\<close>

datatype mem_error = UseAfterFree | OutOfBounds | OutOfMemory

record block =
  refs :: u32
  blk_bytes :: "byte list"

record heap =
  blocks :: "block option list"
  mem_left :: nat
  junk :: "nat \<Rightarrow> byte"

fun try_bind :: "'e + 'a \<Rightarrow> ('a \<Rightarrow> 'e + 'b) \<Rightarrow> 'e + 'b" where
  "try_bind (Inl e) f = Inl e"
| "try_bind (Inr x) f = f x"

definition sizeof_SliceRefCount :: nat where
  "sizeof_SliceRefCount = 4"

definition lookup_block :: "nat \<Rightarrow> heap \<Rightarrow> mem_error + block" where
  "lookup_block a h =
     (if a < length (blocks h)
      then (case blocks h ! a of None \<Rightarrow> Inl UseAfterFree | Some b \<Rightarrow> Inr b)
      else Inl OutOfBounds)"

text \<open>\<open>malloc\<close> of a block and the construction of its counter.\<close>

definition malloc_block :: "nat \<Rightarrow> heap \<Rightarrow> mem_error + (nat \<times> heap)" where
  "malloc_block len h =
     (if mem_left h < sizeof_SliceRefCount + len then Inl OutOfMemory
      else Inr (length (blocks h),
        h\<lparr>blocks := blocks h @ [Some \<lparr>refs = 1, blk_bytes = map (junk h) [0..<len]\<rparr>],
          mem_left := mem_left h - (sizeof_SliceRefCount + len)\<rparr>))"

definition memcpy_block :: "nat \<Rightarrow> nat \<Rightarrow> byte list \<Rightarrow> heap \<Rightarrow> mem_error + heap" where
  "memcpy_block a off src h =
     try_bind (lookup_block a h) (\<lambda>b.
       if length (blk_bytes b) < off + length src then Inl OutOfBounds
       else Inr (h\<lparr>blocks := (blocks h)[a := Some (b\<lparr>blk_bytes :=
              take off (blk_bytes b) @ src @ drop (off + length src) (blk_bytes b)\<rparr>)]\<rparr>))"

definition AddRef :: "nat \<Rightarrow> heap \<Rightarrow> mem_error + heap" where
  "AddRef a h =
     try_bind (lookup_block a h) (\<lambda>b. Inr (h\<lparr>blocks := (blocks h)[a := Some (b\<lparr>refs := refs b + 1\<rparr>)]\<rparr>))"

definition DecRef :: "nat \<Rightarrow> heap \<Rightarrow> mem_error + heap" where
  "DecRef a h =
     try_bind (lookup_block a h) (\<lambda>b.
       let n = refs b
       in if n = 1
          then Inr (h\<lparr>blocks := (blocks h)[a := None],
                      mem_left := mem_left h + (sizeof_SliceRefCount + length (blk_bytes b))\<rparr>)
          else Inr (h\<lparr>blocks := (blocks h)[a := Some (b\<lparr>refs := n - 1\<rparr>)]\<rparr>))"

section \<open>Slices\<close>

text \<open>
  The constructor is the test \<open>refs_ != nullptr\<close> of the source; \<open>Refcounted a n off\<close> is the
  counter at \<open>a\<close> with \<open>data_.refcounted.length = n\<close> and \<open>bytes\<close> pointing \<open>off\<close> behind the
  first byte of the block.
\<close>

datatype Slice = Inlined "byte" "byte list" | Refcounted nat nat nat

definition SLICE_INLINED_SIZE :: nat where
  "SLICE_INLINED_SIZE = 23"

definition Slice_empty_object :: Slice where
  "Slice_empty_object = Inlined 0 (replicate SLICE_INLINED_SIZE 0)"

fun Slice_size :: "Slice \<Rightarrow> nat" where
  "Slice_size (Refcounted a n off) = n"
| "Slice_size (Inlined n bs) = unat n"

definition Slice_empty :: "Slice \<Rightarrow> bool" where
  "Slice_empty s \<longleftrightarrow> Slice_size s = 0"

text \<open>The bytes between \<open>begin()\<close> and \<open>end()\<close>.\<close>

fun Slice_data :: "Slice \<Rightarrow> heap \<Rightarrow> mem_error + byte list" where
  "Slice_data (Refcounted a n off) h =
     try_bind (lookup_block a h) (\<lambda>b.
       if length (blk_bytes b) < off + n then Inl OutOfBounds
       else Inr (take n (drop off (blk_bytes b))))"
| "Slice_data (Inlined n bs) h =
     (if length bs < unat n then Inl OutOfBounds else Inr (take (unat n) bs))"

definition Slice_new :: "byte list option \<Rightarrow> nat \<Rightarrow> heap \<Rightarrow> mem_error + (Slice \<times> heap)" where
  "Slice_new ptr len h =
     (if len = 0 then Inr (Slice_empty_object, h)
      else if (case ptr of None \<Rightarrow> False | Some p \<Rightarrow> length p < len) then Inl OutOfBounds
      else if len \<le> SLICE_INLINED_SIZE then
        (let raw = map (junk h) [0..<SLICE_INLINED_SIZE]
         in Inr (Inlined (of_nat len)
                   (case ptr of None \<Rightarrow> raw | Some p \<Rightarrow> take len p @ drop len raw), h))
      else try_bind (malloc_block len h) (\<lambda>(a, h).
        try_bind (case ptr of None \<Rightarrow> Inr h | Some p \<Rightarrow> memcpy_block a 0 (take len p) h) (\<lambda>h.
          Inr (Refcounted a len 0, h))))"

fun Slice_destroy :: "Slice \<Rightarrow> heap \<Rightarrow> mem_error + heap" where
  "Slice_destroy (Refcounted a n off) h = DecRef a h"
| "Slice_destroy (Inlined n bs) h = Inr h"

fun Slice_copy :: "Slice \<Rightarrow> heap \<Rightarrow> mem_error + (Slice \<times> heap)" where
  "Slice_copy (Refcounted a n off) h = try_bind (AddRef a h) (\<lambda>h. Inr (Refcounted a n off, h))"
| "Slice_copy (Inlined n bs) h = Inr (Inlined n bs, h)"

text \<open>
  Copy assignment between different objects: the counter of the right side goes up before
  the one of the left side goes down. Result: the new left object.
\<close>

definition Slice_assign :: "Slice \<Rightarrow> Slice \<Rightarrow> heap \<Rightarrow> mem_error + (Slice \<times> heap)" where
  "Slice_assign this oth h =
     try_bind (case oth of Refcounted a n off \<Rightarrow> AddRef a h | Inlined n bs \<Rightarrow> Inr h) (\<lambda>h.
       try_bind (case this of Refcounted a n off \<Rightarrow> DecRef a h | Inlined n bs \<Rightarrow> Inr h) (\<lambda>h.
         Inr (oth, h)))"

text \<open>The moved-from object is empty; its remaining bytes are never read.\<close>

definition Slice_move :: "Slice \<Rightarrow> Slice \<times> Slice" where
  "Slice_move oth = (oth, Slice_empty_object)"

definition Slice_move_assign :: "Slice \<Rightarrow> Slice \<Rightarrow> heap \<Rightarrow> mem_error + (Slice \<times> Slice \<times> heap)" where
  "Slice_move_assign this oth h =
     try_bind (case this of Refcounted a n off \<Rightarrow> DecRef a h | Inlined n bs \<Rightarrow> Inr h) (\<lambda>h.
       Inr (oth, Slice_empty_object, h))"

definition Slice_compare :: "Slice \<Rightarrow> byte list \<Rightarrow> heap \<Rightarrow> mem_error + bool" where
  "Slice_compare s ptr h =
     (if length ptr \<noteq> Slice_size s then Inr False
      else if length ptr = 0 then Inr True
      else try_bind (Slice_data s h) (\<lambda>d. Inr (d = ptr)))"

definition RemoveTail :: "nat \<Rightarrow> Slice \<Rightarrow> Slice" where
  "RemoveTail remove_size s =
     (if remove_size = 0 then s
      else let r = (if remove_size > Slice_size s then Slice_size s else remove_size)
           in case s of
                Refcounted a n off \<Rightarrow> Refcounted a (n - r) off
              | Inlined n bs \<Rightarrow> Inlined (n - of_nat r) bs)"

definition RemoveHead :: "nat \<Rightarrow> Slice \<Rightarrow> Slice" where
  "RemoveHead remove_size s =
     (if remove_size = 0 then s
      else let r = (if remove_size > Slice_size s then Slice_size s else remove_size)
           in case s of
                Refcounted a n off \<Rightarrow> Refcounted a (n - r) (off + r)
              | Inlined n bs \<Rightarrow>
                  (let n' = n - of_nat r
                   in Inlined n' (take (unat n') (drop r bs) @ drop (unat n') bs)))"

definition MakeSliceByLength :: "nat \<Rightarrow> heap \<Rightarrow> mem_error + (Slice \<times> heap)" where
  "MakeSliceByLength len h =
     (if len \<le> SLICE_INLINED_SIZE
      then Inr (Inlined (of_nat len) (replicate SLICE_INLINED_SIZE 0), h)
      else try_bind (malloc_block len h) (\<lambda>(a, h). Inr (Refcounted a len 0, h)))"

definition MakeSliceByPage :: "nat \<Rightarrow> heap \<Rightarrow> mem_error + (Slice \<times> heap)" where
  "MakeSliceByPage page h =
     (if page = 0 then MakeSliceByLength 0 h
      else MakeSliceByLength (page * 4096 - sizeof_SliceRefCount) h)"

definition MakeSliceDefault :: "heap \<Rightarrow> mem_error + (Slice \<times> heap)" where
  "MakeSliceDefault h = MakeSliceByPage 1 h"

text \<open>\<open>memcpy\<close> into \<open>buffer() + off\<close> of a slice.\<close>

fun Slice_write :: "Slice \<Rightarrow> nat \<Rightarrow> byte list \<Rightarrow> heap \<Rightarrow> mem_error + (Slice \<times> heap)" where
  "Slice_write (Refcounted a n off) pos src h =
     try_bind (memcpy_block a (off + pos) src h) (\<lambda>h. Inr (Refcounted a n off, h))"
| "Slice_write (Inlined n bs) pos src h =
     (if length bs < pos + length src then Inl OutOfBounds
      else Inr (Inlined n (take pos bs @ src @ drop (pos + length src) bs), h))"

text \<open>
  \<open>operator+\<close>: the parameters are objects of their own and are destroyed on return, except
  the one that is returned, which is moved out.
\<close>

definition Slice_plus :: "Slice \<Rightarrow> Slice \<Rightarrow> heap \<Rightarrow> mem_error + (Slice \<times> heap)" where
  "Slice_plus s1 s2 h =
     (if Slice_empty s1 then try_bind (Slice_destroy s1 h) (\<lambda>h. Inr (s2, h))
      else if Slice_empty s2 then try_bind (Slice_destroy s2 h) (\<lambda>h. Inr (s1, h))
      else try_bind (MakeSliceByLength (Slice_size s1 + Slice_size s2) h) (\<lambda>(s, h).
        try_bind (Slice_data s1 h) (\<lambda>d1. try_bind (Slice_write s 0 d1 h) (\<lambda>(s, h).
        try_bind (Slice_data s2 h) (\<lambda>d2. try_bind (Slice_write s (Slice_size s1) d2 h) (\<lambda>(s, h).
        try_bind (Slice_destroy s2 h) (\<lambda>h. try_bind (Slice_destroy s1 h) (\<lambda>h. Inr (s, h)))))))))"

definition Slice_append :: "Slice \<Rightarrow> Slice \<Rightarrow> heap \<Rightarrow> mem_error + (Slice \<times> heap)" where
  "Slice_append this s h =
     try_bind (Slice_copy this h) (\<lambda>(t1, h). try_bind (Slice_copy s h) (\<lambda>(t2, h).
     try_bind (Slice_plus t1 t2 h) (\<lambda>(t, h). try_bind (Slice_move_assign this t h) (\<lambda>(this', t', h).
     try_bind (Slice_destroy t' h) (\<lambda>h. Inr (this', h))))))"

definition Slice_clear :: "Slice \<Rightarrow> heap \<Rightarrow> mem_error + (Slice \<times> heap)" where
  "Slice_clear this h =
     try_bind (Slice_move_assign this Slice_empty_object h) (\<lambda>(this', t', h).
       try_bind (Slice_destroy t' h) (\<lambda>h. Inr (this', h)))"

section \<open>Programs over slice objects\<close>

text \<open>
  Statements over a store of slice objects; object \<open>i\<close> is \<open>objs ! i\<close>, and \<open>None\<close> once its
  lifetime has ended. Both assignments test \<open>this != &oth\<close>.
\<close>

datatype slice_stmt =
    SNew "byte list"
  | SCopy nat
  | SMove nat
  | SAssign nat nat
  | SMoveAssign nat nat
  | SRemoveHead nat nat
  | SRemoveTail nat nat
  | SAppend nat nat
  | SClear nat
  | SDestroy nat

type_synonym slice_store = "heap \<times> Slice option list"

abbreviation obj :: "Slice option list \<Rightarrow> nat \<Rightarrow> Slice" where
  "obj objs i \<equiv> the (objs ! i)"

fun exec :: "slice_stmt \<Rightarrow> slice_store \<Rightarrow> mem_error + slice_store" where
  "exec (SNew bs) (h, objs) =
     try_bind (Slice_new (Some bs) (length bs) h) (\<lambda>(s, h). Inr (h, objs @ [Some s]))"
| "exec (SCopy i) (h, objs) =
     try_bind (Slice_copy (obj objs i) h) (\<lambda>(s, h). Inr (h, objs @ [Some s]))"
| "exec (SMove i) (h, objs) =
     (case Slice_move (obj objs i) of (s, oth) \<Rightarrow> Inr (h, objs[i := Some oth] @ [Some s]))"
| "exec (SAssign i j) (h, objs) =
     (if i = j then Inr (h, objs)
      else try_bind (Slice_assign (obj objs i) (obj objs j) h) (\<lambda>(s, h). Inr (h, objs[i := Some s])))"
| "exec (SMoveAssign i j) (h, objs) =
     (if i = j then Inr (h, objs)
      else try_bind (Slice_move_assign (obj objs i) (obj objs j) h) (\<lambda>(s, oth, h).
        Inr (h, objs[i := Some s, j := Some oth])))"
| "exec (SRemoveHead i n) (h, objs) = Inr (h, objs[i := Some (RemoveHead n (obj objs i))])"
| "exec (SRemoveTail i n) (h, objs) = Inr (h, objs[i := Some (RemoveTail n (obj objs i))])"
| "exec (SAppend i j) (h, objs) =
     try_bind (Slice_append (obj objs i) (obj objs j) h) (\<lambda>(s, h). Inr (h, objs[i := Some s]))"
| "exec (SClear i) (h, objs) =
     try_bind (Slice_clear (obj objs i) h) (\<lambda>(s, h). Inr (h, objs[i := Some s]))"
| "exec (SDestroy i) (h, objs) =
     try_bind (Slice_destroy (obj objs i) h) (\<lambda>h. Inr (h, objs[i := None]))"

fun exec_all :: "slice_stmt list \<Rightarrow> slice_store \<Rightarrow> mem_error + slice_store" where
  "exec_all [] st = Inr st"
| "exec_all (c # cs) st = try_bind (exec c st) (exec_all cs)"

text \<open>What a statement means when a slice is a byte string, and when its operands exist.\<close>

type_synonym value_store = "byte list option list"

fun spec :: "slice_stmt \<Rightarrow> value_store \<Rightarrow> value_store" where
  "spec (SNew bs) vs = vs @ [Some bs]"
| "spec (SCopy i) vs = vs @ [vs ! i]"
| "spec (SMove i) vs = vs[i := Some []] @ [vs ! i]"
| "spec (SAssign i j) vs = vs[i := vs ! j]"
| "spec (SMoveAssign i j) vs = (if i = j then vs else vs[i := vs ! j, j := Some []])"
| "spec (SRemoveHead i n) vs = vs[i := map_option (drop n) (vs ! i)]"
| "spec (SRemoveTail i n) vs = vs[i := map_option (\<lambda>v. take (length v - n) v) (vs ! i)]"
| "spec (SAppend i j) vs = vs[i := Some (the (vs ! i) @ the (vs ! j))]"
| "spec (SClear i) vs = vs[i := Some []]"
| "spec (SDestroy i) vs = vs[i := None]"

definition live :: "'a option list \<Rightarrow> nat \<Rightarrow> bool" where
  "live xs i \<longleftrightarrow> i < length xs \<and> xs ! i \<noteq> None"

fun operands :: "slice_stmt \<Rightarrow> nat list" where
  "operands (SNew bs) = []"
| "operands (SCopy i) = [i]"
| "operands (SMove i) = [i]"
| "operands (SAssign i j) = [i, j]"
| "operands (SMoveAssign i j) = [i, j]"
| "operands (SRemoveHead i n) = [i]"
| "operands (SRemoveTail i n) = [i]"
| "operands (SAppend i j) = [i, j]"
| "operands (SClear i) = [i]"
| "operands (SDestroy i) = [i]"

fun program_ok :: "slice_stmt list \<Rightarrow> value_store \<Rightarrow> bool" where
  "program_ok [] vs \<longleftrightarrow> True"
| "program_ok (c # cs) vs \<longleftrightarrow> list_all (live vs) (operands c) \<and> program_ok cs (spec c vs)"

fun spec_all :: "slice_stmt list \<Rightarrow> value_store \<Rightarrow> value_store" where
  "spec_all [] vs = vs"
| "spec_all (c # cs) vs = spec_all cs (spec c vs)"

section \<open>Invariant\<close>

fun slice_ref :: "Slice \<Rightarrow> nat option" where
  "slice_ref (Refcounted a n off) = Some a"
| "slice_ref (Inlined n bs) = None"

definition ref_count :: "nat \<Rightarrow> Slice multiset \<Rightarrow> nat" where
  "ref_count a S = size (filter_mset (\<lambda>s. slice_ref s = Some a) S)"

fun slice_ok :: "heap \<Rightarrow> Slice \<Rightarrow> bool" where
  "slice_ok h (Inlined n bs) \<longleftrightarrow> unat n \<le> SLICE_INLINED_SIZE \<and> length bs = SLICE_INLINED_SIZE"
| "slice_ok h (Refcounted a n off) \<longleftrightarrow> a < length (blocks h) \<and>
     (case blocks h ! a of None \<Rightarrow> False | Some b \<Rightarrow> off + n \<le> length (blk_bytes b))"

definition block_ok :: "Slice multiset \<Rightarrow> nat \<Rightarrow> block option \<Rightarrow> bool" where
  "block_ok S a ob \<longleftrightarrow>
     (case ob of None \<Rightarrow> ref_count a S = 0
      | Some b \<Rightarrow> 0 < ref_count a S \<and> refs b = of_nat (ref_count a S))"

text \<open>The slices \<open>S\<close> are all there is of references into the heap.\<close>

definition heap_inv :: "heap \<Rightarrow> Slice multiset \<Rightarrow> bool" where
  "heap_inv h S \<longleftrightarrow> (\<forall>s \<in># S. slice_ok h s) \<and> (\<forall>a < length (blocks h). block_ok S a (blocks h ! a))"

fun slice_val :: "heap \<Rightarrow> Slice \<Rightarrow> byte list" where
  "slice_val h (Inlined n bs) = take (unat n) bs"
| "slice_val h (Refcounted a n off) = take n (drop off (blk_bytes (the (blocks h ! a))))"

definition keeps :: "heap \<Rightarrow> heap \<Rightarrow> Slice multiset \<Rightarrow> bool" where
  "keeps h h' S \<longleftrightarrow> (\<forall>s \<in># S. slice_val h' s = slice_val h s)"

definition live_slices :: "Slice option list \<Rightarrow> Slice multiset" where
  "live_slices objs = mset (List.map_filter id objs)"

section \<open>Reference counts\<close>

lemma ref_count_add [simp]: "ref_count a (add_mset s S) = (if slice_ref s = Some a then 1 else 0) + ref_count a S"
  by (simp add: ref_count_def)

lemma ref_count_empty [simp]: "ref_count a {#} = 0"
  by (simp add: ref_count_def)

lemma ref_count_le: "ref_count a S \<le> size S"
  by (simp add: ref_count_def size_filter_mset_lesseq)

lemma ref_count_zero_iff: "ref_count a S = 0 \<longleftrightarrow> (\<forall>s \<in># S. slice_ref s \<noteq> Some a)"
  by (induction S) auto

lemma keeps_refl [simp]: "keeps h h S"
  by (simp add: keeps_def)

lemma keeps_trans: "keeps h h' S \<Longrightarrow> keeps h' h'' S \<Longrightarrow> keeps h h'' S"
  by (simp add: keeps_def)

lemma keeps_add [simp]: "keeps h h' (add_mset s S) \<longleftrightarrow> slice_val h' s = slice_val h s \<and> keeps h h' S"
  by (auto simp: keeps_def)

lemma heap_inv_ok: "heap_inv h S \<Longrightarrow> s \<in># S \<Longrightarrow> slice_ok h s"
  by (simp add: heap_inv_def)

lemma slice_ok_ref: "slice_ok h (Refcounted a n off) \<Longrightarrow> \<exists>b. a < length (blocks h) \<and> blocks h ! a = Some b \<and>
    off + n \<le> length (blk_bytes b) \<and> lookup_block a h = Inr b"
  by (auto simp: lookup_block_def split: option.splits)

lemma heap_inv_ref:
  assumes "heap_inv h S" "Refcounted a n off \<in># S"
  shows "\<exists>b. a < length (blocks h) \<and> blocks h ! a = Some b \<and> lookup_block a h = Inr b \<and>
    off + n \<le> length (blk_bytes b)"
  using slice_ok_ref [OF heap_inv_ok [OF assms]] by blast

lemma Slice_data_val: "slice_ok h s \<Longrightarrow> Slice_data s h = Inr (slice_val h s)"
  by (cases s) (auto simp: lookup_block_def split: option.splits)

lemma slice_val_length: "slice_ok h s \<Longrightarrow> length (slice_val h s) = Slice_size s"
  by (cases s) (auto split: option.splits)

lemma slice_ok_empty [simp]: "slice_ok h Slice_empty_object" "slice_val h Slice_empty_object = []"
    "slice_ref Slice_empty_object = None" "Slice_destroy Slice_empty_object h = Inr h"
  by (simp_all add: Slice_empty_object_def)

text \<open>Slices without a reference come and go freely.\<close>

lemma heap_inv_add_inline:
  "slice_ref s = None \<Longrightarrow> heap_inv h (add_mset s S) \<longleftrightarrow> slice_ok h s \<and> heap_inv h S"
  by (auto simp: heap_inv_def block_ok_def split: option.splits)

lemma heap_inv_same_ref:
  assumes "heap_inv h (add_mset s S)" "slice_ref s' = slice_ref s" "slice_ok h s'"
  shows "heap_inv h (add_mset s' S)"
  using assms by (auto simp: heap_inv_def block_ok_def split: option.splits)

section \<open>Operations keep the invariant\<close>

lemma block_ok_cong: "ref_count a S' = ref_count a S \<Longrightarrow> block_ok S' a ob = block_ok S a ob"
  by (simp add: block_ok_def split: option.splits)

lemma heap_inv_update_block:
  assumes inv: "heap_inv h S" and a: "a < length (blocks h)" "blocks h ! a = Some b"
    and ok: "block_ok S' a (Some b')" and len: "length (blk_bytes b') = length (blk_bytes b)"
    and others: "\<And>c. c \<noteq> a \<Longrightarrow> ref_count c S' = ref_count c S"
    and mem: "\<And>s. s \<in># S' \<Longrightarrow> slice_ok h s"
  shows "heap_inv (h\<lparr>blocks := (blocks h)[a := Some b']\<rparr>) S'"
proof -
  have "slice_ok (h\<lparr>blocks := (blocks h)[a := Some b']\<rparr>) s" if "s \<in># S'" for s
    using mem [OF that] a len by (cases s) (auto simp: nth_list_update)
  moreover have "block_ok S' c ((blocks h)[a := Some b'] ! c)" if "c < length (blocks h)" for c
    using that inv ok block_ok_cong [OF others [of c]]
    by (cases "c = a") (auto simp: heap_inv_def)
  ultimately show ?thesis by (simp add: heap_inv_def)
qed

lemma heap_inv_block:
  assumes "heap_inv h S" "a < length (blocks h)" "blocks h ! a = Some b"
  shows "0 < ref_count a S \<and> refs b = of_nat (ref_count a S)"
  using assms by (auto simp: heap_inv_def block_ok_def)

lemma keeps_same_bytes:
  assumes "blk_bytes b' = blk_bytes b" "blocks h ! a = Some b"
  shows "keeps h (h\<lparr>blocks := (blocks h)[a := Some b']\<rparr>) S"
proof -
  have "slice_val (h\<lparr>blocks := (blocks h)[a := Some b']\<rparr>) s = slice_val h s" for s
  proof (cases s)
    case (Refcounted c n off)
    then show ?thesis using assms by (cases "c = a"; cases "a < length (blocks h)") (auto simp: list_update_beyond)
  qed simp
  then show ?thesis by (simp add: keeps_def)
qed

lemma Slice_copy_ok:
  assumes inv: "heap_inv h S" and s: "s \<in># S"
  shows "\<exists>h'. Slice_copy s h = Inr (s, h') \<and> heap_inv h' (add_mset s S) \<and> keeps h h' S"
proof (cases s)
  case (Inlined n bs)
  then show ?thesis using inv heap_inv_ok [OF inv s] heap_inv_add_inline by auto
next
  case (Refcounted a n off)
  obtain b where b: "a < length (blocks h)" "blocks h ! a = Some b" "lookup_block a h = Inr b"
    using heap_inv_ref [OF inv, of a n off] s Refcounted by auto
  have "heap_inv (h\<lparr>blocks := (blocks h)[a := Some (b\<lparr>refs := refs b + 1\<rparr>)]\<rparr>) (add_mset s S)"
    by (rule heap_inv_update_block [OF inv b(1,2)])
      (use heap_inv_block [OF inv b(1,2)] heap_inv_ok [OF inv] s Refcounted in \<open>auto simp: block_ok_def\<close>)
  then show ?thesis
    using b(3) Refcounted keeps_same_bytes [OF _ b(2), of "b\<lparr>refs := refs b + 1\<rparr>"]
    by (simp add: AddRef_def)
qed

lemma of_nat_u32_eq_1: "n < 2 ^ 32 \<Longrightarrow> of_nat n = (1 :: u32) \<longleftrightarrow> n = 1"
  by (simp add: word_unat_eq_iff unat_of_nat take_bit_eq_mod)

lemma heap_inv_free_block:
  assumes inv: "heap_inv h (add_mset (Refcounted a n off) S)" and zero: "ref_count a S = 0"
  shows "heap_inv (h\<lparr>blocks := (blocks h)[a := None], mem_left := m\<rparr>) S \<and>
         keeps h (h\<lparr>blocks := (blocks h)[a := None], mem_left := m\<rparr>) S"
proof -
  let ?h = "h\<lparr>blocks := (blocks h)[a := None], mem_left := m\<rparr>"
  have other: "slice_ref s \<noteq> Some a" if "s \<in># S" for s
    using zero that by (simp add: ref_count_zero_iff)
  have "slice_ok ?h s \<and> slice_val ?h s = slice_val h s" if "s \<in># S" for s
    using other [OF that] heap_inv_ok [OF inv, of s] that by (cases s) auto
  moreover have "block_ok S c ((blocks h)[a := None] ! c)" if "c < length (blocks h)" for c
  proof (cases "c = a")
    case True
    then show ?thesis using that zero by (simp add: block_ok_def)
  next
    case False
    then have "ref_count c S = ref_count c (add_mset (Refcounted a n off) S)" by simp
    from block_ok_cong [OF this] show ?thesis using that inv False by (auto simp: heap_inv_def)
  qed
  ultimately show ?thesis by (simp add: heap_inv_def keeps_def)
qed

lemma Slice_destroy_ok:
  assumes inv: "heap_inv h (add_mset s S)" and few: "size S + 1 < 2 ^ 32"
  shows "\<exists>h'. Slice_destroy s h = Inr h' \<and> heap_inv h' S \<and> keeps h h' S"
proof (cases s)
  case (Inlined n bs)
  then show ?thesis using inv heap_inv_add_inline by auto
next
  case (Refcounted a n off)
  obtain b where b: "a < length (blocks h)" "blocks h ! a = Some b" "lookup_block a h = Inr b"
    using heap_inv_ref [OF inv, of a n off] Refcounted by auto
  have cnt: "refs b = of_nat (ref_count a S + 1)"
    using heap_inv_block [OF inv b(1,2)] Refcounted by simp
  show ?thesis
  proof (cases "ref_count a S = 0")
    case True
    then show ?thesis
      using heap_inv_free_block [of h a n off S] inv b(3) cnt Refcounted
      by (auto simp: DecRef_def)
  next
    case False
    have "refs b \<noteq> 1"
      using of_nat_u32_eq_1 [of "ref_count a S + 1"] ref_count_le [of a S] few cnt False by simp
    moreover have "heap_inv (h\<lparr>blocks := (blocks h)[a := Some (b\<lparr>refs := refs b - 1\<rparr>)]\<rparr>) S"
      by (rule heap_inv_update_block [OF inv b(1,2)])
        (use cnt False heap_inv_ok [OF inv] Refcounted in \<open>auto simp: block_ok_def\<close>)
    ultimately show ?thesis
      using b(3) Refcounted keeps_same_bytes [OF _ b(2), of "b\<lparr>refs := refs b - 1\<rparr>"]
      by (simp add: DecRef_def)
  qed
qed

lemma malloc_block_ok:
  assumes inv: "heap_inv h S" and m: "malloc_block len h = Inr (a, h')"
  shows "heap_inv h' (add_mset (Refcounted a len 0) S) \<and> keeps h h' S \<and> ref_count a S = 0"
proof -
  let ?b = "\<lparr>refs = 1, blk_bytes = map (junk h) [0..<len]\<rparr>"
  have a: "a = length (blocks h)" "blocks h' = blocks h @ [Some ?b]"
    using m by (auto simp: malloc_block_def split: if_splits)
  have old: "slice_ok h' s \<and> slice_val h' s = slice_val h s \<and> slice_ref s \<noteq> Some a" if "s \<in># S" for s
    using heap_inv_ok [OF inv that] a by (cases s) (auto simp: nth_append split: option.splits)
  have zero: "ref_count a S = 0" using old by (simp add: ref_count_zero_iff)
  have "block_ok (add_mset (Refcounted a len 0) S) c (blocks h' ! c)" if "c < length (blocks h')" for c
  proof (cases "c = a")
    case True
    then show ?thesis using a zero by (simp add: block_ok_def)
  next
    case False
    then have "c < length (blocks h)" using that a by simp
    then show ?thesis
      using inv False a block_ok_cong [of c "add_mset (Refcounted a len 0) S" S]
      by (simp add: heap_inv_def nth_append)
  qed
  then show ?thesis using old zero a by (auto simp: heap_inv_def keeps_def)
qed

lemma malloc_block_result: "malloc_block len h = Inl OutOfMemory \<or> (\<exists>a h'. malloc_block len h = Inr (a, h'))"
  by (simp add: malloc_block_def)

lemma overlay_take:
  assumes "pos + length src \<le> n" "n \<le> length bs"
  shows "take n (take pos bs @ src @ drop (pos + length src) bs) =
    take pos (take n bs) @ src @ drop (pos + length src) (take n bs)"
  using assms by (cases "n = pos") (auto simp: min_def drop_take)

lemma Slice_write_ok:
  assumes inv: "heap_inv h (add_mset s S)"
    and alone: "\<And>a. slice_ref s = Some a \<Longrightarrow> ref_count a S = 0"
    and room: "pos + length src \<le> Slice_size s"
  shows "\<exists>s' h'. Slice_write s pos src h = Inr (s', h') \<and> heap_inv h' (add_mset s' S) \<and> keeps h h' S \<and>
    slice_ref s' = slice_ref s \<and> Slice_size s' = Slice_size s \<and>
    slice_val h' s' = take pos (slice_val h s) @ src @ drop (pos + length src) (slice_val h s)"
proof (cases s)
  case (Inlined n bs)
  then show ?thesis
    using inv room heap_inv_add_inline [of s] heap_inv_add_inline [of "Inlined n (take pos bs @ src @ drop (pos + length src) bs)"]
    by (auto simp: overlay_take drop_take)
next
  case (Refcounted a n off)
  obtain b where b: "a < length (blocks h)" "blocks h ! a = Some b" "lookup_block a h = Inr b"
      "off + n \<le> length (blk_bytes b)"
    using heap_inv_ref [OF inv, of a n off] Refcounted by auto
  let ?bs = "take (off + pos) (blk_bytes b) @ src @ drop (off + pos + length src) (blk_bytes b)"
  let ?h = "h\<lparr>blocks := (blocks h)[a := Some (b\<lparr>blk_bytes := ?bs\<rparr>)]\<rparr>"
  have "heap_inv ?h (add_mset s S)"
    by (rule heap_inv_update_block [OF inv b(1,2)])
      (use heap_inv_block [OF inv b(1,2)] heap_inv_ok [OF inv] b room Refcounted in \<open>auto simp: block_ok_def\<close>)
  moreover have "slice_val ?h x = slice_val h x" if "x \<in># S" for x
    using alone [of a] that Refcounted by (cases x) (auto simp: ref_count_zero_iff)
  moreover have "take n (drop off ?bs) = take pos (take n (drop off (blk_bytes b))) @ src @
      drop (pos + length src) (take n (drop off (blk_bytes b)))"
    using room b(4) Refcounted overlay_take [of pos src n "drop off (blk_bytes b)"]
    by (simp add: drop_take add.commute add.left_commute)
  ultimately show ?thesis
    using b room Refcounted by (simp add: memcpy_block_def keeps_def)
qed

lemma of_nat_byte [simp]: "n \<le> SLICE_INLINED_SIZE \<Longrightarrow> unat (of_nat n :: byte) = n"
  by (simp add: unat_of_nat take_bit_eq_mod SLICE_INLINED_SIZE_def)

lemma MakeSliceByLength_ok:
  assumes inv: "heap_inv h S"
  shows "MakeSliceByLength len h = Inl OutOfMemory \<or>
    (\<exists>s h'. MakeSliceByLength len h = Inr (s, h') \<and> heap_inv h' (add_mset s S) \<and> keeps h h' S \<and>
       Slice_size s = len \<and> (\<forall>a. slice_ref s = Some a \<longrightarrow> ref_count a S = 0))"
proof (cases "len \<le> SLICE_INLINED_SIZE")
  case True
  then show ?thesis using inv heap_inv_add_inline by (auto simp: MakeSliceByLength_def)
next
  case False
  show ?thesis
    using malloc_block_result [of len h] malloc_block_ok [OF inv, of len] False
    by (auto simp: MakeSliceByLength_def)
qed

lemma Slice_new_ok:
  assumes inv: "heap_inv h S"
  shows "Slice_new (Some bs) (length bs) h = Inl OutOfMemory \<or>
    (\<exists>s h'. Slice_new (Some bs) (length bs) h = Inr (s, h') \<and> heap_inv h' (add_mset s S) \<and> keeps h h' S \<and>
       slice_val h' s = bs)"
proof (cases "length bs \<le> SLICE_INLINED_SIZE")
  case True
  then show ?thesis using inv heap_inv_add_inline by (auto simp: Slice_new_def Let_def)
next
  case False
  then have nz: "length bs \<noteq> 0" "bs \<noteq> []" by auto
  show ?thesis
  proof (cases "malloc_block (length bs) h")
    case (Inl e)
    then show ?thesis using malloc_block_result [of "length bs" h] False nz by (auto simp: Slice_new_def)
  next
    case (Inr r)
    obtain a h1 where r: "malloc_block (length bs) h = Inr (a, h1)" using Inr by (cases r) auto
    let ?s = "Refcounted a (length bs) 0"
    note m = malloc_block_ok [OF inv r]
    have len: "length (slice_val h1 ?s) = length bs"
      using slice_val_length [OF heap_inv_ok [OF m [THEN conjunct1]], of ?s] by simp
    have "\<exists>s' h'. Slice_write ?s 0 bs h1 = Inr (s', h') \<and> heap_inv h' (add_mset s' S) \<and> keeps h1 h' S \<and>
        slice_ref s' = slice_ref ?s \<and> Slice_size s' = Slice_size ?s \<and>
        slice_val h' s' = take 0 (slice_val h1 ?s) @ bs @ drop (0 + length bs) (slice_val h1 ?s)"
      by (rule Slice_write_ok) (use m in \<open>auto\<close>)
    then obtain s h2 where w: "Slice_write ?s 0 bs h1 = Inr (s, h2)"
        "heap_inv h2 (add_mset s S)" "keeps h1 h2 S" "slice_val h2 s = bs"
      using len by (auto simp del: slice_val.simps Slice_write.simps)
    have "memcpy_block a 0 bs h1 = Inr h2" "s = ?s"
      using w(1) by (cases "memcpy_block a 0 bs h1"; simp)+
    then show ?thesis
      using w m r False nz keeps_trans [of h h1 S h2] by (simp add: Slice_new_def)
  qed
qed

lemma try_bind_assoc: "try_bind (try_bind m f) g = try_bind m (\<lambda>x. try_bind (f x) g)"
  by (cases m) auto

lemma Slice_assign_alt:
  "Slice_assign this oth h = try_bind (Slice_copy oth h) (\<lambda>(s, h). try_bind (Slice_destroy this h) (\<lambda>h. Inr (s, h)))"
  by (cases oth; cases this) (simp_all add: Slice_assign_def try_bind_assoc)

lemma Slice_move_assign_alt:
  "Slice_move_assign this oth h = try_bind (Slice_destroy this h) (\<lambda>h. Inr (oth, Slice_empty_object, h))"
  by (cases this) (simp_all add: Slice_move_assign_def)

lemma RemoveTail_ok:
  assumes "slice_ok h s"
  shows "slice_ok h (RemoveTail n s) \<and> slice_ref (RemoveTail n s) = slice_ref s \<and>
    slice_val h (RemoveTail n s) = take (length (slice_val h s) - n) (slice_val h s)"
proof (cases s)
  case (Inlined l bs)
  let ?r = "if n > unat l then unat l else n"
  have "unat (l - of_nat ?r) = unat l - ?r" by (rule unat_minus_of_nat) simp
  then show ?thesis
    using assms Inlined by (auto simp: RemoveTail_def Let_def min_def split: if_splits)
next
  case (Refcounted a l off)
  have "length (slice_val h s) = l" using slice_val_length [OF assms] Refcounted by simp
  then show ?thesis
    using assms Refcounted by (auto simp: RemoveTail_def Let_def simp del: length_take length_drop split: option.splits)
qed

lemma RemoveHead_ok:
  assumes "slice_ok h s"
  shows "slice_ok h (RemoveHead n s) \<and> slice_ref (RemoveHead n s) = slice_ref s \<and>
    slice_val h (RemoveHead n s) = drop n (slice_val h s)"
proof (cases s)
  case (Inlined l bs)
  let ?r = "if n > unat l then unat l else n"
  have "unat (l - of_nat ?r) = unat l - ?r" by (rule unat_minus_of_nat) simp
  then show ?thesis
    using assms Inlined by (auto simp: RemoveHead_def Let_def drop_take split: if_splits)
next
  case (Refcounted a l off)
  then show ?thesis
    using assms by (auto simp: RemoveHead_def Let_def drop_take add.commute split: option.splits)
qed

lemma Slice_plus_ok:
  assumes inv: "heap_inv h (add_mset s1 (add_mset s2 S))" and few: "size S + 4 < 2 ^ 32"
  shows "Slice_plus s1 s2 h = Inl OutOfMemory \<or>
    (\<exists>s h'. Slice_plus s1 s2 h = Inr (s, h') \<and> heap_inv h' (add_mset s S) \<and> keeps h h' S \<and>
       slice_val h' s = slice_val h s1 @ slice_val h s2)"
proof -
  note ok1 = heap_inv_ok [OF inv, of s1, simplified] and ok2 = heap_inv_ok [OF inv, of s2, simplified]
  consider "Slice_empty s1" | "\<not> Slice_empty s1" "Slice_empty s2" | "\<not> Slice_empty s1" "\<not> Slice_empty s2" by blast
  then show ?thesis
  proof cases
    case 1
    obtain h' where "Slice_destroy s1 h = Inr h'" "heap_inv h' (add_mset s2 S)" "keeps h h' (add_mset s2 S)"
      using Slice_destroy_ok [OF inv] few by auto
    then show ?thesis
      using 1 slice_val_length [OF ok1] by (simp add: Slice_plus_def Slice_empty_def)
  next
    case 2
    have "heap_inv h (add_mset s2 (add_mset s1 S))" using inv by (simp add: add_mset_commute)
    then obtain h' where "Slice_destroy s2 h = Inr h'" "heap_inv h' (add_mset s1 S)" "keeps h h' (add_mset s1 S)"
      using Slice_destroy_ok [of h s2 "add_mset s1 S"] few by auto
    then show ?thesis
      using 2 slice_val_length [OF ok2] by (simp add: Slice_plus_def Slice_empty_def)
  next
    case 3
    let ?S = "add_mset s1 (add_mset s2 S)"
    let ?n1 = "Slice_size s1" and ?n2 = "Slice_size s2"
    let ?v1 = "slice_val h s1" and ?v2 = "slice_val h s2"
    show ?thesis
    proof (cases "MakeSliceByLength (?n1 + ?n2) h")
      case (Inl e)
      then show ?thesis using 3 MakeSliceByLength_ok [OF inv, of "?n1 + ?n2"] by (simp add: Slice_plus_def)
    next
      case (Inr r)
      then obtain s h1 where m: "MakeSliceByLength (?n1 + ?n2) h = Inr (s, h1)" "heap_inv h1 (add_mset s ?S)"
          "keeps h h1 ?S" "Slice_size s = ?n1 + ?n2" "\<forall>a. slice_ref s = Some a \<longrightarrow> ref_count a ?S = 0"
        using MakeSliceByLength_ok [OF inv, of "?n1 + ?n2"] by auto
      have d1: "Slice_data s1 h1 = Inr ?v1"
        using Slice_data_val [OF heap_inv_ok [OF m(2)], of s1] m(3) by simp
      note l1 = slice_val_length [OF ok1] and l2 = slice_val_length [OF ok2]
      obtain t h2 where w: "Slice_write s 0 ?v1 h1 = Inr (t, h2)" "heap_inv h2 (add_mset t ?S)" "keeps h1 h2 ?S"
          "slice_ref t = slice_ref s" "Slice_size t = Slice_size s"
          "slice_val h2 t = ?v1 @ drop ?n1 (slice_val h1 s)"
        using Slice_write_ok [OF m(2), of 0 ?v1] m(4,5) l1 by auto
      have d2: "Slice_data s2 h2 = Inr ?v2"
        using Slice_data_val [OF heap_inv_ok [OF w(2)], of s2] w(3) m(3) by simp
      obtain u h3 where x: "Slice_write t ?n1 ?v2 h2 = Inr (u, h3)" "heap_inv h3 (add_mset u ?S)" "keeps h2 h3 ?S"
          "slice_val h3 u = take ?n1 (slice_val h2 t) @ ?v2 @ drop (?n1 + ?n2) (slice_val h2 t)"
        using Slice_write_ok [OF w(2), of ?n1 ?v2] m(4,5) w(4,5) l2 by auto
      have lt: "length (slice_val h2 t) = ?n1 + ?n2"
        using slice_val_length [OF heap_inv_ok [OF w(2)], of t] w(5) m(4) by simp
      have u: "slice_val h3 u = ?v1 @ ?v2" using x(4) w(6) lt l1 by simp
      have i3: "heap_inv h3 (add_mset s2 (add_mset s1 (add_mset u S)))"
        using x(2) by (simp add: add_mset_commute)
      obtain h4 where y: "Slice_destroy s2 h3 = Inr h4" "heap_inv h4 (add_mset s1 (add_mset u S))"
          "keeps h3 h4 (add_mset s1 (add_mset u S))"
        using Slice_destroy_ok [OF i3] few by auto
      obtain h5 where z: "Slice_destroy s1 h4 = Inr h5" "heap_inv h5 (add_mset u S)" "keeps h4 h5 (add_mset u S)"
        using Slice_destroy_ok [OF y(2)] few by auto
      have "keeps h h5 S"
        using m(3) w(3) x(3) y(3) z(3) by (simp add: keeps_def)
      then show ?thesis
        using 3 m(1) d1 w(1) d2 x(1) y(1) z u y(3) by (simp add: Slice_plus_def)
    qed
  qed
qed

lemma Slice_append_ok:
  assumes inv: "heap_inv h (add_mset this S)" and s: "s \<in># add_mset this S" and few: "size S + 5 < 2 ^ 32"
  shows "Slice_append this s h = Inl OutOfMemory \<or>
    (\<exists>t h'. Slice_append this s h = Inr (t, h') \<and> heap_inv h' (add_mset t S) \<and> keeps h h' S \<and>
       slice_val h' t = slice_val h this @ slice_val h s)"
proof -
  obtain h1 where c1: "Slice_copy this h = Inr (this, h1)" "heap_inv h1 (add_mset this (add_mset this S))"
      "keeps h h1 (add_mset this S)"
    using Slice_copy_ok [OF inv, of this] by auto
  obtain h2 where c2: "Slice_copy s h1 = Inr (s, h2)" "heap_inv h2 (add_mset s (add_mset this (add_mset this S)))"
      "keeps h1 h2 (add_mset this (add_mset this S))"
    using Slice_copy_ok [OF c1(2), of s] s by auto
  have same: "slice_val h2 this = slice_val h this" "slice_val h2 s = slice_val h s"
    using c1(3) c2(3) s by (auto simp: keeps_def)
  have i2: "heap_inv h2 (add_mset this (add_mset s (add_mset this S)))"
    using c2(2) by (simp add: add_mset_commute)
  show ?thesis
  proof (cases "Slice_plus this s h2")
    case (Inl e)
    then show ?thesis
      using Slice_plus_ok [OF i2] few c1(1) c2(1) by (simp add: Slice_append_def)
  next
    case (Inr r)
    then obtain t h3 where p: "Slice_plus this s h2 = Inr (t, h3)" "heap_inv h3 (add_mset t (add_mset this S))"
        "keeps h2 h3 (add_mset this S)" "slice_val h3 t = slice_val h this @ slice_val h s"
      using Slice_plus_ok [OF i2] few same by auto
    have "heap_inv h3 (add_mset this (add_mset t S))" using p(2) by (simp add: add_mset_commute)
    then obtain h4 where d: "Slice_destroy this h3 = Inr h4" "heap_inv h4 (add_mset t S)" "keeps h3 h4 (add_mset t S)"
      using Slice_destroy_ok [of h3 this "add_mset t S"] few by auto
    have "keeps h h4 S" using c1(3) c2(3) p(3) d(3) by (simp add: keeps_def)
    then show ?thesis
      using c1(1) c2(1) p(1,4) d by (simp add: Slice_append_def Slice_move_assign_alt)
  qed
qed

section \<open>Simulation\<close>

lemma live_slices_update:
  "i < length objs \<Longrightarrow> live_slices (objs[i := Some s]) = add_mset s (live_slices (objs[i := None]))"
  unfolding live_slices_def
  by (induction objs arbitrary: i) (auto simp: map_filter_simps split: nat.splits option.splits)

lemma live_slices_split:
  "live objs i \<Longrightarrow> live_slices objs = add_mset (obj objs i) (live_slices (objs[i := None]))"
  using live_slices_update [of i objs "obj objs i"] by (auto simp: live_def)

lemma live_slices_append [simp]: "live_slices (objs @ [Some s]) = add_mset s (live_slices objs)"
  by (induction objs) (auto simp: live_slices_def map_filter_simps split: option.splits)

lemma in_live_slices: "s \<in># live_slices objs \<longleftrightarrow> Some s \<in> set objs"
  by (induction objs) (auto simp: live_slices_def map_filter_simps split: option.splits)

lemma size_live_slices: "size (live_slices objs) \<le> length objs"
  by (induction objs) (auto simp: live_slices_def map_filter_simps split: option.splits)

definition store_vals :: "heap \<Rightarrow> Slice option list \<Rightarrow> value_store" where
  "store_vals h objs = map (map_option (slice_val h)) objs"

lemma store_vals_keeps: "keeps h h' (live_slices objs) \<Longrightarrow> store_vals h' objs = store_vals h objs"
  by (auto simp: store_vals_def keeps_def in_live_slices intro!: option.map_cong)

lemma store_vals_update:
  assumes "keeps h h' (live_slices (objs[i := None]))"
  shows "store_vals h' (objs[i := x]) = (store_vals h objs)[i := map_option (slice_val h') x]"
proof -
  have "store_vals h' (objs[i := None]) = store_vals h (objs[i := None])"
    using store_vals_keeps [OF assms] .
  then have "(store_vals h' (objs[i := None]))[i := y] = (store_vals h (objs[i := None]))[i := y]" for y by simp
  then show ?thesis by (simp add: store_vals_def map_update)
qed

lemma store_vals_nth: "live objs i \<Longrightarrow> store_vals h objs ! i = Some (slice_val h (obj objs i))"
  by (auto simp: store_vals_def live_def)

lemma live_store_vals [simp]: "live (store_vals h objs) i = live objs i"
  by (auto simp: store_vals_def live_def)

fun store_rel :: "slice_store \<Rightarrow> value_store \<Rightarrow> bool" where
  "store_rel (h, objs) vs \<longleftrightarrow> heap_inv h (live_slices objs) \<and> vs = store_vals h objs"

definition exec_sim :: "mem_error + slice_store \<Rightarrow> value_store \<Rightarrow> bool" where
  "exec_sim r vs \<longleftrightarrow> r = Inl OutOfMemory \<or> (\<exists>st. r = Inr st \<and> store_rel st vs)"

lemma exec_sim_oom [simp]: "exec_sim (Inl OutOfMemory) vs"
  by (simp add: exec_sim_def)

lemma exec_sim_ok [simp]: "exec_sim (Inr st) vs \<longleftrightarrow> store_rel st vs"
  by (simp add: exec_sim_def)

lemma store_rel_update:
  assumes "i < length objs" "heap_inv h' (add_mset s (live_slices (objs[i := None])))"
    "keeps h h' (live_slices (objs[i := None]))"
  shows "store_rel (h', objs[i := Some s]) ((store_vals h objs)[i := Some (slice_val h' s)])"
  using assms store_vals_update [OF assms(3), of "Some s"] by (simp add: live_slices_update)

lemma live_index: "live objs i \<Longrightarrow> i < length objs"
  by (simp add: live_def)

lemma few_live: "length objs + 5 < 2 ^ 32 \<Longrightarrow> size (live_slices (objs[i := x])) + 5 < 2 ^ 32"
  using size_live_slices [of "objs[i := x]"] by simp

lemma store_vals_append:
  "keeps h h' (live_slices objs) \<Longrightarrow>
    store_vals h' (objs @ [Some s]) = store_vals h objs @ [Some (slice_val h' s)]"
  using store_vals_keeps [of h h' objs] by (simp add: store_vals_def)

lemma obj_in_live_slices: "live objs i \<Longrightarrow> obj objs i \<in># live_slices objs"
  by (simp add: live_slices_split)

lemma destroy_object:
  assumes "heap_inv h (live_slices objs)" "live objs i" "length objs + 5 < 2 ^ 32"
  shows "\<exists>h'. Slice_destroy (obj objs i) h = Inr h' \<and> heap_inv h' (live_slices (objs[i := None])) \<and>
    keeps h h' (live_slices (objs[i := None]))"
  using Slice_destroy_ok [of h "obj objs i"] few_live [OF assms(3), of i None] assms(1) live_slices_split [OF assms(2)]
  by fastforce

text \<open>Each statement over slices does what it does over byte strings.\<close>

lemma exec_SNew:
  assumes inv: "heap_inv h (live_slices objs)"
  shows "exec_sim (exec (SNew bs) (h, objs)) (spec (SNew bs) (store_vals h objs))"
  using Slice_new_ok [OF inv, of bs] by (auto simp: store_vals_append)

lemma exec_SCopy:
  assumes inv: "heap_inv h (live_slices objs)" and i: "live objs i"
  shows "exec_sim (exec (SCopy i) (h, objs)) (spec (SCopy i) (store_vals h objs))"
proof -
  obtain h' where "Slice_copy (obj objs i) h = Inr (obj objs i, h')"
      "heap_inv h' (add_mset (obj objs i) (live_slices objs))" "keeps h h' (live_slices objs)"
    using Slice_copy_ok [OF inv, of "obj objs i"] live_slices_split [OF i] by auto
  moreover from this have "slice_val h' (obj objs i) = slice_val h (obj objs i)"
    using live_slices_split [OF i] by (simp add: keeps_def)
  ultimately show ?thesis using store_vals_nth [OF i] by (simp add: store_vals_append)
qed

lemma exec_SMove:
  assumes inv: "heap_inv h (live_slices objs)" and i: "live objs i"
  shows "exec_sim (exec (SMove i) (h, objs)) (spec (SMove i) (store_vals h objs))"
proof -
  have "heap_inv h (add_mset (obj objs i) (live_slices (objs[i := Some Slice_empty_object])))"
    using inv live_slices_split [OF i] heap_inv_add_inline [of Slice_empty_object h]
    by (simp add: live_slices_update [OF live_index [OF i]] add_mset_commute)
  moreover have "store_vals h (objs[i := Some Slice_empty_object]) = (store_vals h objs)[i := Some []]"
    using store_vals_update [of h h objs i "Some Slice_empty_object"] by simp
  ultimately show ?thesis
    using store_vals_nth [OF i] by (simp add: Slice_move_def) (simp add: store_vals_def)
qed

lemma exec_SAssign:
  assumes inv: "heap_inv h (live_slices objs)" and i: "live objs i" and j: "live objs j" and few: "length objs + 5 < 2 ^ 32"
  shows "exec_sim (exec (SAssign i j) (h, objs)) (spec (SAssign i j) (store_vals h objs))"
proof -
  show ?thesis
  proof (cases "i = j")
    case True
    then show ?thesis using inv by simp
  next
    case False
    let ?S = "live_slices (objs[i := None])"
    obtain h1 where c1: "Slice_copy (obj objs j) h = Inr (obj objs j, h1)"
        "heap_inv h1 (add_mset (obj objs j) (add_mset (obj objs i) ?S))"
        "keeps h h1 (add_mset (obj objs j) (add_mset (obj objs i) ?S))"
      using Slice_copy_ok [OF inv obj_in_live_slices [OF j]] obj_in_live_slices [OF j]
      by (auto simp: live_slices_split [OF i] keeps_def)
    have "heap_inv h1 (add_mset (obj objs i) (add_mset (obj objs j) ?S))"
      using c1(2) by (simp add: add_mset_commute)
    then obtain h2 where d: "Slice_destroy (obj objs i) h1 = Inr h2"
        "heap_inv h2 (add_mset (obj objs j) ?S)" "keeps h1 h2 (add_mset (obj objs j) ?S)"
      using Slice_destroy_ok [of h1 "obj objs i"] few_live [OF few, of i None] by fastforce
    have k: "keeps h h2 ?S" "slice_val h2 (obj objs j) = slice_val h (obj objs j)"
      using c1(3) d(3) by (auto simp: keeps_def)
    show ?thesis
      using store_rel_update [OF live_index [OF i] d(2) k(1)] False c1(1) d(1) k(2) store_vals_nth [OF j]
      by (simp add: Slice_assign_alt del: store_rel.simps)
  qed
qed

lemma exec_SMoveAssign:
  assumes inv: "heap_inv h (live_slices objs)" and i: "live objs i" and j: "live objs j" and few: "length objs + 5 < 2 ^ 32"
  shows "exec_sim (exec (SMoveAssign i j) (h, objs)) (spec (SMoveAssign i j) (store_vals h objs))"
proof -
  show ?thesis
  proof (cases "i = j")
    case True
    then show ?thesis using inv by simp
  next
    case False
    let ?S = "live_slices (objs[i := None])"
    obtain h1 where d: "Slice_destroy (obj objs i) h = Inr h1" "heap_inv h1 ?S" "keeps h h1 ?S"
      using destroy_object [OF inv i few] by blast
    have j': "live (objs[i := None]) j" "obj (objs[i := None]) j = obj objs j" using j False by (auto simp: live_def)
    let ?T = "live_slices (objs[i := None, j := None])"
    have S: "?S = add_mset (obj objs j) ?T" using live_slices_split [OF j'(1)] j'(2) by simp
    have "heap_inv h1 (add_mset Slice_empty_object (add_mset (obj objs j) ?T))"
      using d(2) S heap_inv_add_inline [of Slice_empty_object h1] by simp
    moreover have "live_slices (objs[i := Some (obj objs j), j := Some Slice_empty_object]) =
        add_mset Slice_empty_object (add_mset (obj objs j) ?T)"
      using live_index [OF i] live_index [OF j] False live_slices_update [of j "objs[i := Some (obj objs j)]"]
        live_slices_update [of i "objs[j := None]"] by (simp add: list_update_swap)
    moreover have "store_vals h1 (objs[i := Some (obj objs j), j := Some Slice_empty_object]) =
        (store_vals h objs)[i := Some (slice_val h (obj objs j)), j := Some []]"
      using store_vals_update [OF d(3), of "Some (obj objs j)"] d(3) S
      by (simp add: store_vals_def map_update)
    ultimately show ?thesis
      using False d(1) store_vals_nth [OF j] by (simp add: Slice_move_assign_alt)
  qed
qed

lemma exec_SRemoveHead:
  assumes inv: "heap_inv h (live_slices objs)" and i: "live objs i"
  shows "exec_sim (exec (SRemoveHead i n) (h, objs)) (spec (SRemoveHead i n) (store_vals h objs))"
proof -
  note ok = heap_inv_ok [OF inv, of "obj objs i"]
  have r: "slice_ok h (RemoveHead n (obj objs i))" "slice_ref (RemoveHead n (obj objs i)) = slice_ref (obj objs i)"
      "slice_val h (RemoveHead n (obj objs i)) = drop n (slice_val h (obj objs i))"
    using RemoveHead_ok [OF ok, of n] live_slices_split [OF i] by auto
  have "heap_inv h (add_mset (RemoveHead n (obj objs i)) (live_slices (objs[i := None])))"
    using heap_inv_same_ref [OF _ r(2,1)] inv live_slices_split [OF i] by simp
  from store_rel_update [OF live_index [OF i] this keeps_refl] show ?thesis
    using r(3) store_vals_nth [OF i] by (simp del: store_rel.simps)
qed

lemma exec_SRemoveTail:
  assumes inv: "heap_inv h (live_slices objs)" and i: "live objs i"
  shows "exec_sim (exec (SRemoveTail i n) (h, objs)) (spec (SRemoveTail i n) (store_vals h objs))"
proof -
  note ok = heap_inv_ok [OF inv, of "obj objs i"]
  have r: "slice_ok h (RemoveTail n (obj objs i))" "slice_ref (RemoveTail n (obj objs i)) = slice_ref (obj objs i)"
      "slice_val h (RemoveTail n (obj objs i)) =
       take (length (slice_val h (obj objs i)) - n) (slice_val h (obj objs i))"
    using RemoveTail_ok [OF ok, of n] live_slices_split [OF i] by auto
  have "heap_inv h (add_mset (RemoveTail n (obj objs i)) (live_slices (objs[i := None])))"
    using heap_inv_same_ref [OF _ r(2,1)] inv live_slices_split [OF i] by simp
  from store_rel_update [OF live_index [OF i] this keeps_refl] show ?thesis
    using r(3) store_vals_nth [OF i] by (simp del: store_rel.simps)
qed

lemma exec_SAppend:
  assumes inv: "heap_inv h (live_slices objs)" and i: "live objs i" and j: "live objs j" and few: "length objs + 5 < 2 ^ 32"
  shows "exec_sim (exec (SAppend i j) (h, objs)) (spec (SAppend i j) (store_vals h objs))"
proof -
  let ?S = "live_slices (objs[i := None])"
  have "Slice_append (obj objs i) (obj objs j) h = Inl OutOfMemory \<or>
    (\<exists>t h'. Slice_append (obj objs i) (obj objs j) h = Inr (t, h') \<and> heap_inv h' (add_mset t ?S) \<and> keeps h h' ?S \<and>
      slice_val h' t = slice_val h (obj objs i) @ slice_val h (obj objs j))"
    by (rule Slice_append_ok) (use inv obj_in_live_slices [OF j] few_live [OF few, of i None] in \<open>auto simp: live_slices_split [OF i]\<close>)
  then show ?thesis
    using store_vals_nth [OF i] store_vals_nth [OF j] store_rel_update [OF live_index [OF i]]
    by (auto simp del: store_rel.simps) metis
qed

lemma exec_SClear:
  assumes inv: "heap_inv h (live_slices objs)" and i: "live objs i" and few: "length objs + 5 < 2 ^ 32"
  shows "exec_sim (exec (SClear i) (h, objs)) (spec (SClear i) (store_vals h objs))"
proof -
  let ?S = "live_slices (objs[i := None])"
  obtain h1 where d: "Slice_destroy (obj objs i) h = Inr h1" "heap_inv h1 ?S" "keeps h h1 ?S"
    using destroy_object [OF inv i few] by blast
  have "heap_inv h1 (add_mset Slice_empty_object ?S)" using d(2) heap_inv_add_inline by simp
  from store_rel_update [OF live_index [OF i] this d(3)] show ?thesis
    using d(1) by (simp add: Slice_clear_def Slice_move_assign_alt del: store_rel.simps)
qed

lemma exec_SDestroy:
  assumes inv: "heap_inv h (live_slices objs)" and i: "live objs i" and few: "length objs + 5 < 2 ^ 32"
  shows "exec_sim (exec (SDestroy i) (h, objs)) (spec (SDestroy i) (store_vals h objs))"
proof -
  let ?S = "live_slices (objs[i := None])"
  obtain h1 where d: "Slice_destroy (obj objs i) h = Inr h1" "heap_inv h1 ?S" "keeps h h1 ?S"
    using destroy_object [OF inv i few] by blast
  then show ?thesis using store_vals_update [OF d(3), of None] by simp
qed

lemma exec_simulates:
  assumes "heap_inv h (live_slices objs)" "list_all (live objs) (operands c)" "length objs + 5 < 2 ^ 32"
  shows "exec_sim (exec c (h, objs)) (spec c (store_vals h objs))"
  using assms
  by (cases c)
    (simp_all only: operands.simps list_all_iff list.set ball_simps insert_iff simp_thms exec_SNew exec_SCopy exec_SMove exec_SAssign exec_SMoveAssign
      exec_SRemoveHead exec_SRemoveTail exec_SAppend exec_SClear exec_SDestroy)

section \<open>Memory demand\<close>

text \<open>An upper bound of the memory a statement asks for.\<close>

fun demand :: "slice_stmt \<Rightarrow> value_store \<Rightarrow> nat" where
  "demand (SNew bs) vs = sizeof_SliceRefCount + length bs"
| "demand (SAppend i j) vs = sizeof_SliceRefCount + length (the (vs ! i)) + length (the (vs ! j))"
| "demand c vs = 0"

fun demand_all :: "slice_stmt list \<Rightarrow> value_store \<Rightarrow> nat" where
  "demand_all [] vs = 0"
| "demand_all (c # cs) vs = demand c vs + demand_all cs (spec c vs)"

lemma try_bind_Inl [simp]: "try_bind m f = Inl e \<longleftrightarrow> m = Inl e \<or> (\<exists>x. m = Inr x \<and> f x = Inl e)"
  by (cases m) auto

lemma try_bind_Inr [simp]: "try_bind m f = Inr y \<longleftrightarrow> (\<exists>x. m = Inr x \<and> f x = Inr y)"
  by (cases m) auto

lemma lookup_block_no_oom [simp]: "lookup_block a h \<noteq> Inl OutOfMemory"
  by (auto simp: lookup_block_def split: option.splits)

lemma mem_left_refs:
  "AddRef a h = Inr h' \<Longrightarrow> mem_left h' = mem_left h"
  "DecRef a h = Inr h' \<Longrightarrow> mem_left h \<le> mem_left h'"
  "memcpy_block a off src h = Inr h' \<Longrightarrow> mem_left h' = mem_left h"
  by (auto simp: AddRef_def DecRef_def memcpy_block_def Let_def split: if_splits)

lemma no_oom_refs [simp]:
  "AddRef a h \<noteq> Inl OutOfMemory" "DecRef a h \<noteq> Inl OutOfMemory" "memcpy_block a off src h \<noteq> Inl OutOfMemory"
  by (auto simp: AddRef_def DecRef_def memcpy_block_def Let_def split: if_splits)

lemma mem_left_slices:
  "Slice_copy s h = Inr (t, h') \<Longrightarrow> t = s \<and> mem_left h' = mem_left h"
  "Slice_destroy s h = Inr h' \<Longrightarrow> mem_left h \<le> mem_left h'"
  "Slice_write s pos src h = Inr (t, h') \<Longrightarrow> mem_left h' = mem_left h"
  by (cases s; auto dest: mem_left_refs split: if_splits)+

lemma no_oom_slices [simp]:
  "Slice_copy s h \<noteq> Inl OutOfMemory" "Slice_destroy s h \<noteq> Inl OutOfMemory"
  "Slice_write s pos src h \<noteq> Inl OutOfMemory" "Slice_data s h \<noteq> Inl OutOfMemory"
  by (cases s; auto)+

lemma mem_left_Make:
  "MakeSliceByLength n h = Inr (s, h') \<Longrightarrow> mem_left h \<le> mem_left h' + sizeof_SliceRefCount + n"
  "MakeSliceByLength n h = Inl OutOfMemory \<Longrightarrow> mem_left h < sizeof_SliceRefCount + n"
  by (auto simp: MakeSliceByLength_def malloc_block_def split: if_splits)

lemma mem_left_new:
  "Slice_new p n h = Inr (s, h') \<Longrightarrow> mem_left h \<le> mem_left h' + sizeof_SliceRefCount + n"
  "Slice_new p n h = Inl OutOfMemory \<Longrightarrow> mem_left h < sizeof_SliceRefCount + n"
  by (auto simp: Slice_new_def malloc_block_def Let_def dest!: mem_left_refs split: if_splits option.splits)

lemma mem_left_plus:
  "Slice_plus s1 s2 h = Inr (s, h') \<Longrightarrow>
    mem_left h \<le> mem_left h' + sizeof_SliceRefCount + Slice_size s1 + Slice_size s2"
  "Slice_plus s1 s2 h = Inl OutOfMemory \<Longrightarrow> mem_left h < sizeof_SliceRefCount + Slice_size s1 + Slice_size s2"
  by (auto simp: Slice_plus_def dest!: mem_left_slices mem_left_Make split: if_splits)

lemma mem_left_append:
  "Slice_append s1 s2 h = Inr (s, h') \<Longrightarrow>
    mem_left h \<le> mem_left h' + sizeof_SliceRefCount + Slice_size s1 + Slice_size s2"
  "Slice_append s1 s2 h = Inl OutOfMemory \<Longrightarrow> mem_left h < sizeof_SliceRefCount + Slice_size s1 + Slice_size s2"
  by (auto simp: Slice_append_def Slice_move_assign_alt dest!: mem_left_slices mem_left_plus)

lemma exec_demand:
  assumes inv: "heap_inv h (live_slices objs)" and ops: "list_all (live objs) (operands c)"
  shows "(exec c (h, objs) = Inr (h', objs') \<longrightarrow> mem_left h \<le> mem_left h' + demand c (store_vals h objs)) \<and>
    (exec c (h, objs) = Inl OutOfMemory \<longrightarrow> mem_left h < demand c (store_vals h objs))"
proof (cases c)
  case (SNew bs)
  then show ?thesis by (auto dest!: mem_left_new)
next
  case (SAppend i j)
  have sz: "length (the (store_vals h objs ! k)) = Slice_size (obj objs k)" if "live objs k" for k
    using store_vals_nth [OF that] slice_val_length [OF heap_inv_ok [OF inv obj_in_live_slices [OF that]]] by simp
  show ?thesis using SAppend ops sz [of i] sz [of j] by (auto dest!: mem_left_append)
next
  case (SAssign i j)
  then show ?thesis by (auto simp: Slice_assign_alt dest!: mem_left_slices)
qed (auto simp: Slice_clear_def Slice_move_def Slice_move_assign_alt dest!: mem_left_slices)

lemma exec_length: "exec c (h, objs) = Inr (h', objs') \<Longrightarrow> length objs' \<le> length objs + 1"
  by (cases c) (auto simp: Slice_move_def split: if_splits)

lemma exec_all_simulates:
  assumes "store_rel (h, objs) vs" "program_ok cs vs" "length objs + length cs + 5 < 2 ^ 32"
    "demand_all cs vs \<le> mem_left h"
  shows "\<exists>st. exec_all cs (h, objs) = Inr st \<and> store_rel st (spec_all cs vs)"
  using assms
proof (induction cs arbitrary: h objs vs)
  case Nil
  then show ?case by simp
next
  case (Cons c cs)
  have inv: "heap_inv h (live_slices objs)" and vs: "vs = store_vals h objs" using Cons.prems(1) by auto
  have ops: "list_all (live objs) (operands c)"
    using Cons.prems(2) by (simp add: vs list_all_iff)
  have sim: "exec_sim (exec c (h, objs)) (spec c vs)"
    unfolding vs by (rule exec_simulates [OF inv ops]) (use Cons.prems(3) in simp)
  moreover have "exec c (h, objs) \<noteq> Inl OutOfMemory"
    using exec_demand [OF inv ops] Cons.prems(4) vs by (simp add: not_less)
  ultimately obtain h' objs' where e: "exec c (h, objs) = Inr (h', objs')" "store_rel (h', objs') (spec c vs)"
    by (auto simp: exec_sim_def simp del: store_rel.simps)
  have "demand_all cs (spec c vs) \<le> mem_left h'"
    using exec_demand [OF inv ops, of h' objs'] Cons.prems(4) e(1) vs by simp
  then show ?case
    using Cons.IH [OF e(2)] Cons.prems(2,3) exec_length [OF e(1)] e(1) by (simp del: store_rel.simps)
qed

definition heap_new :: "nat \<Rightarrow> (nat \<Rightarrow> byte) \<Rightarrow> heap" where
  "heap_new mem j = \<lparr>blocks = [], mem_left = mem, junk = j\<rparr>"

section \<open>Properties\<close>

text \<open>
  C11: Slices have value semantics and are memory safe: a program of constructions, copies,
  moves, assignments (self-assignment and shared blocks included), \<open>RemoveHead\<close>,
  \<open>RemoveTail\<close>, \<open>+=\<close>, \<open>clear\<close> and destructions that has enough memory runs without an access
  to freed or foreign memory, every live object then reads as the byte string that the same
  program computes over plain byte strings, and no block is left once no object is alive.
\<close>

theorem slices_are_values:
  assumes "program_ok cs []" "length cs + 5 < 2 ^ 32" "demand_all cs [] \<le> mem"
  shows "\<exists>h objs. exec_all cs (heap_new mem j, []) = Inr (h, objs) \<and>
    map (map_option (\<lambda>s. Slice_data s h)) objs = map (map_option Inr) (spec_all cs []) \<and>
    ((\<forall>i. \<not> live (spec_all cs []) i) \<longrightarrow> (\<forall>b \<in> set (blocks h). b = None))"
proof -
  have "store_rel (heap_new mem j, []) []"
    by (simp add: heap_inv_def heap_new_def store_vals_def live_slices_def map_filter_simps)
  from exec_all_simulates [OF this assms(1)] assms(2,3)
  obtain h objs where e: "exec_all cs (heap_new mem j, []) = Inr (h, objs)" "heap_inv h (live_slices objs)"
      "spec_all cs [] = store_vals h objs"
    by (auto simp: heap_new_def)
  have "Slice_data s h = Inr (slice_val h s)" if "Some s \<in> set objs" for s
    using Slice_data_val [OF heap_inv_ok [OF e(2)]] that by (simp add: in_live_slices)
  then have "map (map_option (\<lambda>s. Slice_data s h)) objs = map (map_option Inr) (spec_all cs [])"
    by (auto simp: e(3) store_vals_def option.map_comp intro!: option.map_cong)
  moreover have "\<forall>b \<in> set (blocks h). b = None" if "\<forall>i. \<not> live (spec_all cs []) i"
  proof
    fix b assume "b \<in> set (blocks h)"
    then obtain a where a: "a < length (blocks h)" "blocks h ! a = b" by (auto simp: in_set_conv_nth)
    have "x = None" if "x \<in> set objs" for x
      using that \<open>\<forall>i. \<not> live (spec_all cs []) i\<close> by (auto simp: e(3) store_vals_def live_def in_set_conv_nth)
    then have "s \<notin># live_slices objs" for s
      unfolding in_live_slices by (metis option.distinct(1))
    then show "b = None"
      using e(2) a ref_count_zero_iff by (fastforce simp: heap_inv_def block_ok_def split: option.splits)
  qed
  ultimately show ?thesis using e(1) by blast
qed

text \<open>Thirty bytes shared by two objects, one of them shortened, appended to itself and destroyed.\<close>

theorem slices_are_values_witness:
  "\<exists>h objs. exec_all [SNew (replicate 30 7), SCopy 0, SRemoveHead 1 28, SAppend 1 1, SDestroy 0, SDestroy 1]
       (heap_new 1000 (\<lambda>_. 0), []) = Inr (h, objs) \<and> (\<forall>b \<in> set (blocks h). b = None)"
proof -
  let ?cs = "[SNew (replicate 30 7), SCopy 0, SRemoveHead 1 28, SAppend 1 1, SDestroy 0, SDestroy 1]"
  have dead: "spec_all ?cs [] = [None, None]" by simp
  have "\<not> live (spec_all ?cs []) i" for i unfolding dead by (auto simp: live_def nth_Cons split: nat.splits)
  moreover have "program_ok ?cs []" "demand_all ?cs [] \<le> 1000"
    by (simp_all add: live_def sizeof_SliceRefCount_def)
  ultimately show ?thesis using slices_are_values [of ?cs 1000 "\<lambda>_. 0"] by auto
qed

end
