(* ===== verification/Slice_Buffers.thy ===== *)
theory Slice_Buffers
  imports Slices
begin

text \<open>
  The slice buffer (src/utils/slice_buffer.h, src/utils/slice_buffer.cc): a double-ended
  queue of slices with the cached total \<open>length_\<close>. Slices are byte lists here, which theory
  \<open>Slices\<close> justifies: programs over slices compute what they compute over byte strings.
  A failed assertion and an access to a missing element are \<open>None\<close>. A slice that has just
  been allocated holds the unspecified bytes \<open>j 0\<close>, \<open>j 1\<close>, \<dots>, and what is read from a
  merged slice does not depend on them.
\<close>

section \<open>Contract\<close>

text \<open>What the connection relies on of its receive and send buffers.\<close>

locale byte_queue =
  fixes content :: "'b \<Rightarrow> byte list"
    and inv :: "'b \<Rightarrow> bool"
    and new :: 'b
    and add :: "byte list \<Rightarrow> 'b \<Rightarrow> 'b"
    and len :: "'b \<Rightarrow> nat"
    and is_empty :: "'b \<Rightarrow> bool"
    and front :: "'b \<Rightarrow> byte list"
    and merge :: "'b \<Rightarrow> byte list option"
    and move :: "nat \<Rightarrow> 'b \<Rightarrow> (bool \<times> 'b) option"
  assumes inv_new: "inv new"
    and content_new: "content new = []"
    and inv_add: "inv b \<Longrightarrow> inv (add s b)"
    and content_add: "inv b \<Longrightarrow> content (add s b) = content b @ s"
    and len_content: "inv b \<Longrightarrow> len b = length (content b)"
    and is_empty_content: "inv b \<Longrightarrow> is_empty b \<longleftrightarrow> content b = []"
    and front_content: "inv b \<Longrightarrow> content b \<noteq> [] \<Longrightarrow> front b \<noteq> [] \<and> (\<exists>rest. content b = front b @ rest)"
    and merge_content: "inv b \<Longrightarrow> merge b = Some (content b)"
    and move_content: "inv b \<Longrightarrow> n \<le> length (content b) \<Longrightarrow>
          \<exists>b'. move n b = Some (True, b') \<and> inv b' \<and> content b' = drop n (content b)"
    and move_short: "inv b \<Longrightarrow> length (content b) < n \<Longrightarrow> move n b = Some (False, b)"
begin

lemma adds_content: "inv b \<Longrightarrow> inv (fold add ss b) \<and> content (fold add ss b) = content b @ concat ss"
  by (induction ss arbitrary: b) (auto simp: inv_add content_add)

text \<open>Any interleaving of appends and removals at the front is a queue of bytes.\<close>

lemma move_result:
  assumes "inv b" "move n b = Some (ok, b')"
  shows "inv b' \<and> content b' = (if ok then drop n (content b) else content b) \<and>
    (ok \<longleftrightarrow> n \<le> length (content b))"
proof (cases "n \<le> length (content b)")
  case True
  then show ?thesis using move_content [OF assms(1) True] assms by auto
next
  case False
  then show ?thesis using move_short [of b n] assms by auto
qed

lemma front_removal:
  assumes "inv b" "content b \<noteq> []" "n \<le> length (front b)"
  shows "\<exists>b'. move n b = Some (True, b') \<and> inv b' \<and> content b = take n (front b) @ content b'"
proof -
  obtain rest where r: "content b = front b @ rest" using front_content [OF assms(1,2)] by blast
  then have "n \<le> length (content b)" using assms(3) by simp
  then show ?thesis using move_content [OF assms(1)] r assms(3) by fastforce
qed

end

section \<open>Model\<close>

record SliceBuffer =
  buf_length :: nat
  ds :: "byte list list"

definition SliceBuffer_new :: SliceBuffer where
  "SliceBuffer_new = \<lparr>buf_length = 0, ds = []\<rparr>"

definition SliceCount :: "SliceBuffer \<Rightarrow> nat" where
  "SliceCount b = length (ds b)"

definition GetBufferLength :: "SliceBuffer \<Rightarrow> nat" where
  "GetBufferLength b = buf_length b"

definition ClearBuffer :: "SliceBuffer \<Rightarrow> SliceBuffer" where
  "ClearBuffer b = b\<lparr>ds := [], buf_length := 0\<rparr>"

definition SliceBuffer_Empty :: "SliceBuffer \<Rightarrow> bool" where
  "SliceBuffer_Empty b \<longleftrightarrow> ds b = []"

text \<open>\<open>memcpy\<close> to position \<open>pos\<close> of a buffer; \<open>None\<close> when it would write behind its end.\<close>

definition write_at :: "nat \<Rightarrow> byte list \<Rightarrow> byte list \<Rightarrow> byte list option" where
  "write_at pos src buf =
     (if length buf < pos + length src then None
      else Some (take pos buf @ src @ drop (pos + length src) buf))"

definition fresh_slice :: "(nat \<Rightarrow> byte) \<Rightarrow> nat \<Rightarrow> byte list" where
  "fresh_slice j len = map j [0..<len]"

text \<open>The copy loop of \<open>Merge\<close> and \<open>MergeFront\<close>.\<close>

fun copy_slices :: "byte list list \<Rightarrow> nat \<Rightarrow> byte list \<Rightarrow> byte list option" where
  "copy_slices [] pos buf = Some buf"
| "copy_slices (s # ss) pos buf =
     (case write_at pos s buf of
        None \<Rightarrow> None
      | Some buf' \<Rightarrow> copy_slices ss (pos + length s) buf')"

definition Merge :: "(nat \<Rightarrow> byte) \<Rightarrow> SliceBuffer \<Rightarrow> byte list option" where
  "Merge j b =
     (if SliceCount b = 0 then Some []
      else if SliceCount b = 1 then Some (ds b ! 0)
      else copy_slices (ds b) 0 (fresh_slice j (GetBufferLength b)))"

definition MergeFront :: "(nat \<Rightarrow> byte) \<Rightarrow> nat \<Rightarrow> SliceBuffer \<Rightarrow> byte list option" where
  "MergeFront j cnt b =
     (if cnt = 0 \<or> ds b = [] then Some []
      else if cnt = 1 then Some (ds b ! 0)
      else let n = (if cnt < length (ds b) then cnt else length (ds b));
               total = sum_list (map length (take n (ds b)))
           in copy_slices (take n (ds b)) 0 (fresh_slice j total))"

definition AddSlice :: "byte list \<Rightarrow> SliceBuffer \<Rightarrow> SliceBuffer" where
  "AddSlice s b = (if s = [] then b else b\<lparr>ds := ds b @ [s], buf_length := buf_length b + length s\<rparr>)"

text \<open>The loop of \<open>CopyToBuffer\<close> over the slices, with \<open>left\<close> bytes to copy to position \<open>pos\<close>.\<close>

fun copy_loop :: "byte list list \<Rightarrow> nat \<Rightarrow> nat \<Rightarrow> byte list \<Rightarrow> (nat \<times> byte list) option" where
  "copy_loop [] left pos buf = Some (pos, buf)"
| "copy_loop (s # ss) left pos buf =
     (if left = 0 then Some (pos, buf)
      else let len = (if left < length s then left else length s)
           in case write_at pos (take len s) buf of
                None \<Rightarrow> None
              | Some buf' \<Rightarrow> copy_loop ss (left - len) (pos + len) buf')"

definition CopyToBuffer :: "byte list \<Rightarrow> nat \<Rightarrow> SliceBuffer \<Rightarrow> (nat \<times> byte list) option" where
  "CopyToBuffer buf len b =
     (if \<not> len \<le> GetBufferLength b then None else copy_loop (ds b) len 0 buf)"

definition GetHeader :: "(nat \<Rightarrow> byte) \<Rightarrow> nat \<Rightarrow> SliceBuffer \<Rightarrow> byte list option" where
  "GetHeader j len b =
     (if len = 0 \<or> GetBufferLength b < len then Some []
      else map_option snd (CopyToBuffer (fresh_slice j len) len b))"

function MoveHeader :: "nat \<Rightarrow> SliceBuffer \<Rightarrow> (bool \<times> SliceBuffer) option" where
  "MoveHeader len b =
     (if GetBufferLength b < len then Some (False, b)
      else if len = 0 then Some (True, b)
      else case ds b of
        [] \<Rightarrow> None
      | s # ss \<Rightarrow>
          (let left = length s
           in if left > len then Some (True, b\<lparr>ds := drop len s # ss, buf_length := buf_length b - len\<rparr>)
              else if left = len then Some (True, b\<lparr>ds := ss, buf_length := buf_length b - len\<rparr>)
              else MoveHeader (len - left) (b\<lparr>ds := ss, buf_length := buf_length b - left\<rparr>)))"
  by pat_completeness auto
termination
  by (relation "measure (\<lambda>(len, b). length (ds b))") auto

declare MoveHeader.simps [simp del]

definition Front :: "SliceBuffer \<Rightarrow> byte list option" where
  "Front b = (case ds b of [] \<Rightarrow> None | s # ss \<Rightarrow> Some s)"

definition Back :: "SliceBuffer \<Rightarrow> byte list option" where
  "Back b = (if ds b = [] then None else Some (last (ds b)))"

definition PopFront :: "SliceBuffer \<Rightarrow> SliceBuffer option" where
  "PopFront b = (if ds b = [] then None
     else Some (b\<lparr>buf_length := buf_length b - length (hd (ds b)), ds := tl (ds b)\<rparr>))"

definition PopBack :: "SliceBuffer \<Rightarrow> SliceBuffer option" where
  "PopBack b = (if ds b = [] then None
     else Some (b\<lparr>buf_length := buf_length b - length (last (ds b)), ds := butlast (ds b)\<rparr>))"

text \<open>\<open>std::deque::at\<close> throws when the index is out of range.\<close>

definition At :: "nat \<Rightarrow> SliceBuffer \<Rightarrow> byte list option" where
  "At n b = (if n < length (ds b) then Some (ds b ! n) else None)"

lemmas slice_buffer_defs [buffer_defs] =
  SliceCount_def GetBufferLength_def ClearBuffer_def SliceBuffer_Empty_def AddSlice_def

section \<open>Invariant\<close>

definition buffer_bytes :: "SliceBuffer \<Rightarrow> byte list" where
  "buffer_bytes b = concat (ds b)"

definition buffer_inv :: "SliceBuffer \<Rightarrow> bool" where
  "buffer_inv b \<longleftrightarrow> buf_length b = length (concat (ds b)) \<and> [] \<notin> set (ds b)"

lemma copy_slices_fills:
  assumes "pos + length (concat ss) = length buf"
  shows "copy_slices ss pos buf = Some (take pos buf @ concat ss)"
  using assms
proof (induction ss arbitrary: pos buf)
  case (Cons s ss)
  let ?buf = "take pos buf @ s @ drop (pos + length s) buf"
  have "write_at pos s buf = Some ?buf" using Cons.prems by (simp add: write_at_def)
  moreover have "take (pos + length s) ?buf = take pos buf @ s" using Cons.prems by (simp add: min_absorb2)
  ultimately show ?case using Cons.IH [of "pos + length s" ?buf] Cons.prems by simp
qed simp

lemma Merge_bytes: "buffer_inv b \<Longrightarrow> Merge j b = Some (buffer_bytes b)"
  by (cases "ds b"; cases "tl (ds b)")
    (auto simp: Merge_def buffer_defs buffer_inv_def buffer_bytes_def fresh_slice_def copy_slices_fills
      simp del: copy_slices.simps)

lemma copy_loop_fills:
  assumes "left \<le> length (concat ss)" "pos + left \<le> length buf"
  shows "copy_loop ss left pos buf = Some (pos + left, take pos buf @ take left (concat ss) @ drop (pos + left) buf)"
  using assms
proof (induction ss arbitrary: left pos buf)
  case (Cons s ss)
  let ?n = "min left (length s)"
  let ?buf = "take pos buf @ take ?n s @ drop (pos + ?n) buf"
  show ?case
  proof (cases "left = 0")
    case False
    have "write_at pos (take ?n s) buf = Some ?buf"
      using Cons.prems by (simp add: write_at_def)
    moreover have "copy_loop ss (left - ?n) (pos + ?n) ?buf =
        Some (pos + left, take (pos + ?n) ?buf @ take (left - ?n) (concat ss) @ drop (pos + left) ?buf)"
      using Cons.IH [of "left - ?n" "pos + ?n" ?buf] Cons.prems by simp
    moreover have "take (pos + ?n) ?buf = take pos buf @ take ?n s" using Cons.prems by simp
    moreover have "drop (pos + left) ?buf = drop (pos + left) buf" using Cons.prems by (auto simp: min_def add.commute)
    moreover have "take left (concat (s # ss)) = take ?n s @ take (left - ?n) (concat ss)"
      by (simp add: min_def)
    moreover have "(if left < length s then left else length s) = ?n" by simp
    ultimately show ?thesis using False by (simp only: copy_loop.simps Let_def if_False option.case append_assoc)
  qed simp
qed simp

lemma MoveHeader_bytes:
  assumes "buffer_inv b" "len \<le> length (buffer_bytes b)"
  shows "\<exists>b'. MoveHeader len b = Some (True, b') \<and> buffer_inv b' \<and> buffer_bytes b' = drop len (buffer_bytes b)"
  using assms
proof (induction len b rule: MoveHeader.induct)
  case (1 len b)
  note eq = MoveHeader.simps [of len b]
  have inv: "buf_length b = length (concat (ds b))" "[] \<notin> set (ds b)" "len \<le> length (concat (ds b))"
    using "1.prems" by (auto simp: buffer_inv_def buffer_bytes_def)
  show ?case
  proof (cases "len = 0")
    case True
    then show ?thesis using eq "1.prems" by (simp add: GetBufferLength_def)
  next
    case False
    then obtain s ss where d: "ds b = s # ss" using inv(3) by (cases "ds b") auto
    consider "length s > len" | "length s = len" | "length s < len" by linarith
    then show ?thesis
    proof cases
      case 3
      let ?b = "b\<lparr>ds := ss, buf_length := buf_length b - length s\<rparr>"
      have "buffer_inv ?b" "len - length s \<le> length (buffer_bytes ?b)"
        using inv d by (auto simp: buffer_inv_def buffer_bytes_def)
      moreover have "MoveHeader len b = MoveHeader (len - length s) ?b"
        using eq False d inv 3 by (simp add: GetBufferLength_def Let_def)
      ultimately show ?thesis
        using "1.IH" [of s ss "length s"] False d inv 3 by (auto simp: GetBufferLength_def buffer_bytes_def)
    qed (use eq False d inv in \<open>auto simp: GetBufferLength_def Let_def buffer_inv_def buffer_bytes_def\<close>)
  qed
qed

lemma MoveHeader_short: "buf_length b < len \<Longrightarrow> MoveHeader len b = Some (False, b)"
  by (simp add: MoveHeader.simps GetBufferLength_def)

interpretation buf: byte_queue buffer_bytes buffer_inv SliceBuffer_new AddSlice GetBufferLength SliceBuffer_Empty
    "\<lambda>b. the (Front b)" "Merge j" MoveHeader for j
proof
  fix b :: SliceBuffer and s :: "byte list" and n :: nat
  show "buffer_inv SliceBuffer_new" "buffer_bytes SliceBuffer_new = []"
    by (simp_all add: buffer_inv_def buffer_bytes_def SliceBuffer_new_def)
  assume b: "buffer_inv b"
  then show "buffer_inv (AddSlice s b)" "buffer_bytes (AddSlice s b) = buffer_bytes b @ s"
      "GetBufferLength b = length (buffer_bytes b)"
    by (auto simp: buffer_inv_def buffer_bytes_def buffer_defs)
  show "SliceBuffer_Empty b \<longleftrightarrow> buffer_bytes b = []"
    using b by (cases "ds b") (auto simp: buffer_inv_def buffer_bytes_def buffer_defs)
  show "Merge j b = Some (buffer_bytes b)" by (rule Merge_bytes [OF b])
  show "buffer_bytes b \<noteq> [] \<Longrightarrow> the (Front b) \<noteq> [] \<and> (\<exists>rest. buffer_bytes b = the (Front b) @ rest)"
    using b by (cases "ds b") (auto simp: buffer_inv_def buffer_bytes_def Front_def)
  show "n \<le> length (buffer_bytes b) \<Longrightarrow>
      \<exists>b'. MoveHeader n b = Some (True, b') \<and> buffer_inv b' \<and> buffer_bytes b' = drop n (buffer_bytes b)"
    by (rule MoveHeader_bytes [OF b])
  show "length (buffer_bytes b) < n \<Longrightarrow> MoveHeader n b = Some (False, b)"
    using b by (simp add: MoveHeader_short buffer_inv_def buffer_bytes_def)
qed

section \<open>Sequences of operations\<close>

datatype buffer_op = BAdd "byte list" | BMove nat | BPopFront | BPopBack | BClear

fun buffer_step :: "buffer_op \<Rightarrow> SliceBuffer \<Rightarrow> SliceBuffer option" where
  "buffer_step (BAdd s) b = Some (AddSlice s b)"
| "buffer_step (BMove n) b = map_option snd (MoveHeader n b)"
| "buffer_step BPopFront b = PopFront b"
| "buffer_step BPopBack b = PopBack b"
| "buffer_step BClear b = Some (ClearBuffer b)"

fun run_buffer :: "buffer_op list \<Rightarrow> SliceBuffer \<Rightarrow> SliceBuffer option" where
  "run_buffer [] b = Some b"
| "run_buffer (c # cs) b = (case buffer_step c b of None \<Rightarrow> None | Some b' \<Rightarrow> run_buffer cs b')"

lemma buffer_inv_ClearBuffer [simp]: "buffer_inv (ClearBuffer b)" "buffer_bytes (ClearBuffer b) = []"
  by (simp_all add: ClearBuffer_def buffer_inv_def buffer_bytes_def)

lemma PopFront_inv: "buffer_inv b \<Longrightarrow> PopFront b = Some b' \<Longrightarrow> buffer_inv b' \<and> buffer_bytes b = hd (ds b) @ buffer_bytes b'"
  by (cases "ds b") (auto simp: PopFront_def buffer_inv_def buffer_bytes_def)

lemma PopBack_inv: "buffer_inv b \<Longrightarrow> PopBack b = Some b' \<Longrightarrow> buffer_inv b' \<and> buffer_bytes b = buffer_bytes b' @ last (ds b)"
  by (cases "ds b" rule: rev_cases) (auto simp: PopBack_def buffer_inv_def buffer_bytes_def)

lemma buffer_step_inv: "buffer_inv b \<Longrightarrow> buffer_step c b = Some b' \<Longrightarrow> buffer_inv b'"
  by (cases c) (auto simp: buf.inv_add dest: PopFront_inv PopBack_inv buf.move_result [THEN conjunct1])

lemma run_buffer_inv: "buffer_inv b \<Longrightarrow> run_buffer cs b = Some b' \<Longrightarrow> buffer_inv b'"
  by (induction cs arbitrary: b) (auto split: option.splits dest: buffer_step_inv)

lemma GetHeader_bytes:
  "buffer_inv b \<Longrightarrow> GetHeader j n b = Some (if n \<le> length (buffer_bytes b) then take n (buffer_bytes b) else [])"
  by (auto simp: GetHeader_def CopyToBuffer_def buffer_inv_def buffer_bytes_def GetBufferLength_def
      fresh_slice_def copy_loop_fills simp del: copy_loop.simps)

lemma MergeFront_bytes: "MergeFront j n b = Some (concat (take n (ds b)))"
proof -
  consider "n = 0 \<or> ds b = []" | "n = 1" "ds b \<noteq> []" | "n > 1" "ds b \<noteq> []" by linarith
  then show ?thesis
  proof cases
    case 2
    then show ?thesis by (cases "ds b") (auto simp: MergeFront_def)
  next
    case 3
    have "take (if n < length (ds b) then n else length (ds b)) (ds b) = take n (ds b)" by simp
    then show ?thesis
      using 3 by (simp add: MergeFront_def Let_def fresh_slice_def copy_slices_fills length_concat_sum
          del: copy_slices.simps)
  qed (auto simp: MergeFront_def)
qed

section \<open>Properties\<close>

text \<open>
  C13: After any sequence of operations that no assertion stops, the cached length is the
  number of buffered bytes, and every way of reading (\<open>Merge\<close>, \<open>MergeFront\<close>, \<open>GetHeader\<close>,
  \<open>CopyToBuffer\<close>) returns exactly buffered bytes, whatever fresh memory contained;
  \<open>MoveHeader\<close> succeeds exactly when that many bytes are buffered and removes them.
\<close>

theorem slice_buffer_reads:
  assumes "run_buffer cs SliceBuffer_new = Some b"
  shows "GetBufferLength b = length (buffer_bytes b) \<and> (SliceBuffer_Empty b \<longleftrightarrow> buffer_bytes b = []) \<and>
    Merge j b = Some (buffer_bytes b) \<and> MergeFront j n b = Some (concat (take n (ds b))) \<and>
    GetHeader j n b = Some (if n \<le> length (buffer_bytes b) then take n (buffer_bytes b) else []) \<and>
    (n \<le> length (buffer_bytes b) \<and> n \<le> length dst \<longrightarrow>
       CopyToBuffer dst n b = Some (n, take n (buffer_bytes b) @ drop n dst)) \<and>
    (\<exists>b'. MoveHeader n b = Some (n \<le> length (buffer_bytes b), b') \<and>
       buffer_bytes b' = (if n \<le> length (buffer_bytes b) then drop n (buffer_bytes b) else buffer_bytes b))"
proof -
  have inv: "buffer_inv b" using run_buffer_inv [OF buf.inv_new assms] .
  have "CopyToBuffer dst n b = Some (n, take n (buffer_bytes b) @ drop n dst)"
    if "n \<le> length (buffer_bytes b)" "n \<le> length dst"
    using that inv copy_loop_fills [of n "ds b" 0 dst]
    by (simp add: CopyToBuffer_def buffer_inv_def buffer_bytes_def GetBufferLength_def)
  moreover have "\<exists>b'. MoveHeader n b = Some (n \<le> length (buffer_bytes b), b') \<and>
       buffer_bytes b' = (if n \<le> length (buffer_bytes b) then drop n (buffer_bytes b) else buffer_bytes b)"
    using buf.move_content [OF inv, of n] buf.move_short [OF inv, of n] by (cases "n \<le> length (buffer_bytes b)") auto
  ultimately show ?thesis
    by (simp add: buf.len_content [OF inv] buf.is_empty_content [OF inv] Merge_bytes [OF inv]
        MergeFront_bytes GetHeader_bytes [OF inv])
qed

theorem slice_buffer_reads_witness:
  "\<exists>b. run_buffer [BAdd [1, 2, 3], BAdd [], BAdd [4, 5], BMove 1] SliceBuffer_new = Some b \<and>
     GetBufferLength b = length (buffer_bytes b) \<and> Merge (\<lambda>_. 0) b = Some (buffer_bytes b) \<and>
     buffer_bytes b = [2, 3, 4, 5]"
proof -
  let ?b = "\<lparr>buf_length = 4, ds = [[2, 3], [4, 5]]\<rparr>"
  have run: "run_buffer [BAdd [1, 2, 3], BAdd [], BAdd [4, 5], BMove 1] SliceBuffer_new = Some ?b"
    by (simp add: SliceBuffer_new_def AddSlice_def MoveHeader.simps GetBufferLength_def)
  have "buffer_bytes ?b = [2, 3, 4, 5]" by (simp add: buffer_bytes_def)
  then show ?thesis using slice_buffer_reads [OF run] run by blast
qed

end
