(* ===== verification/Client_Connection.thy ===== *)
theory Client_Connection
  imports Codecs Timer_Queues Slice_Buffers
begin

text \<open>
  One client connection (src/net/client_connection.h, src/net/client_connection.cc and its
  POSIX part src/net/client_connection_posix.cc): the data, the close path, the task queue
  and the calls of the public interface.

  All work on a connection is done by tasks. A task runs on one worker at a time, so that
  the functions below, which model the member functions, pass the state of the connection
  along explicitly. A call from another thread takes effect between two tasks. What the
  operating system answers is a script in the state: every system call takes the next
  entry of its script; an exhausted script means that \<open>recv\<close> and \<open>send\<close> would block and
  that the other calls succeed. \<open>EINTR\<close> can thus occur any finite number of times.

  The handler of the application is a function from the callbacks seen so far to the calls
  that the application makes from inside the last one. Log output is not modelled.

  Fields whose names start with \<open>g_\<close> are ghost fields: \<open>g_trace\<close> is the sequence of callbacks,
  \<open>g_rx\<close> and \<open>g_tx\<close> the bytes taken from and given to the socket since the connection was
  established, \<open>g_accepted\<close> the messages put into the send buffer since then, \<open>g_close\<close> the
  reason of the last close since then, \<open>g_fault\<close> is set where the source would access memory it
  may not access, and \<open>g_race\<close> once \<open>Connect\<close> has been accepted while an earlier \<open>Disconnect\<close>
  was still queued. No ghost field influences another field.
\<close>

section \<open>Constants and data\<close>

definition kDrainTaskBudget :: nat where
  "kDrainTaskBudget = 64"

definition kParseMessageBudget :: nat where
  "kParseMessageBudget = 64"

definition kMaxReadBytesPerEvent :: nat where
  "kMaxReadBytesPerEvent = 1024 * 1024"

definition kMaxWriteBytesPerEvent :: nat where
  "kMaxWriteBytesPerEvent = 1024 * 1024"

definition kRecvCacheSize :: nat where
  "kRecvCacheSize = 65536"

datatype State = kIdle | kConnecting | kConnected | kClosing

datatype CloseReason = kUser | kConnectFailed | kConnectTimeout | kRemoteClosed | kError | kRelease

datatype ParseStatus = kDone | kYielded | kClosed

definition kPollReadable :: u32 where
  "kPollReadable = 1"

definition kPollWritable :: u32 where
  "kPollWritable = 2"

definition kPollEventReadable :: u32 where
  "kPollEventReadable = 1"

definition kPollEventWritable :: u32 where
  "kPollEventWritable = 2"

definition kPollEventError :: u32 where
  "kPollEventError = 4"

datatype PollOperation = kPollOpReady | kPollOpConnect | kPollOpRecv | kPollOpSend

record PollEvent =
  ev_id :: ConnectionId
  events :: u32
  error_code :: int
  operation :: PollOperation

text \<open>Error numbers of the operating system that the source distinguishes.\<close>

definition EINTR :: int where
  "EINTR = 4"

definition EAGAIN :: int where
  "EAGAIN = 11"

definition EWOULDBLOCK :: int where
  "EWOULDBLOCK = 11"

definition EINPROGRESS :: int where
  "EINPROGRESS = 115"

definition InvalidSocketHandle :: int where
  "InvalidSocketHandle = - 1"

definition IsValidSocketHandle :: "int \<Rightarrow> bool" where
  "IsValidSocketHandle fd \<longleftrightarrow> 0 \<le> fd"

record TcpOptions =
  tcp_nodelay :: int
  tcp_quickack :: int
  send_buffer_size :: int
  recv_buffer_size :: int
  linger_sec :: int
  connect_timeout_ms :: int

record ClientOptions =
  codec :: "Codec option"
  tcp :: TcpOptions
  local_address :: "string option"

text \<open>Addresses are opaque to the connection.\<close>

type_synonym raw_addr = "byte list"

datatype callback = OnConnected | OnConnectFailed string | OnClosed | OnMessage "byte list"

text \<open>
  A call of the application. A call of \<open>Connect\<close> carries the answer of the resolver to it: an
  error text, and the list of addresses.
\<close>

datatype app_call =
    AppConnect "string option" "string option \<times> raw_addr list option"
  | AppDisconnect
  | AppSend "byte list"
  | AppRelease

datatype task =
    TaskConnectFailed string
  | TaskConnectResolved raw_addr
  | TaskDisconnect
  | TaskSend "byte list"
  | TaskPollEvent PollEvent
  | TaskTimerEvent TimerEvent
  | TaskParse

text \<open>The parts of the runtime and of the operating system that the connection calls.\<close>

record net =
  connections :: "nat ConnectionTable"
  timers :: TimerQueue
  poll_regs :: "int \<Rightarrow> (ConnectionId \<times> u32) option"
  wakes :: nat
  now_ms :: int
  open_fds :: "int list"
  os_socket :: "(int + int) list"
  os_option :: "int option list"
  os_connect :: "int option list"
  os_soerror :: "(int + int) list"
  os_poller :: "int option list"
  os_recv :: "(int + byte list) list"
  os_send :: "(int + nat) list"

record ClientConnection =
  self :: nat
  has_handler :: bool
  opts :: ClientOptions
  state :: State
  conn_id :: ConnectionId
  fd :: int
  poll_interest :: u32
  connect_deadline_ms :: int
  connected :: bool
  bytes_sent :: u64
  bytes_received :: u64
  pending_bytes :: u64
  task_queue :: "task list"
  accepting_tasks :: bool
  queued_tasks :: nat
  owner_closing :: bool
  draining :: bool
  drain_jobs :: nat
  drain_yield_requested :: bool
  parse_continuation_pending :: bool
  deferred_close_pending :: bool
  deferred_close_reason :: CloseReason
  deferred_close_desc :: string
  recv_buffer :: SliceBuffer
  send_buffer :: SliceBuffer
  rt :: net
  g_trace :: "callback list"
  g_rx :: "byte list"
  g_tx :: "byte list"
  g_accepted :: "byte list"
  g_close :: "CloseReason option"
  g_fault :: bool
  g_race :: bool

text \<open>What the program relies on outside the connection; all of it is arbitrary.\<close>

record env =
  app :: "callback list \<Rightarrow> app_call list"
  FormatErrorMessage :: "int \<Rightarrow> string"
  string_to_sockaddr :: "string \<Rightarrow> raw_addr option"
  size_max :: nat
  fresh_byte :: "nat \<Rightarrow> byte"

definition ClientConnection_new :: "nat \<Rightarrow> bool \<Rightarrow> ClientOptions \<Rightarrow> net \<Rightarrow> ClientConnection" where
  "ClientConnection_new me handler copts n =
     \<lparr>self = me, has_handler = handler, opts = copts, state = kIdle, conn_id = ConnectionId_none,
      fd = InvalidSocketHandle, poll_interest = 0, connect_deadline_ms = 0, connected = False,
      bytes_sent = 0, bytes_received = 0, pending_bytes = 0, task_queue = [],
      accepting_tasks = True, queued_tasks = 0, owner_closing = False, draining = False,
      drain_jobs = 0, drain_yield_requested = False, parse_continuation_pending = False,
      deferred_close_pending = False, deferred_close_reason = kRemoteClosed,
      deferred_close_desc = [], recv_buffer = SliceBuffer_new, send_buffer = SliceBuffer_new,
      rt = n, g_trace = [], g_rx = [], g_tx = [], g_accepted = [],
      g_close = None, g_fault = False, g_race = False\<rparr>"

section \<open>System calls\<close>

fun next_answer :: "'a \<Rightarrow> 'a list \<Rightarrow> 'a \<times> 'a list" where
  "next_answer d [] = (d, [])"
| "next_answer d (x # xs) = (x, xs)"

text \<open>One call of \<open>fcntl\<close>, \<open>setsockopt\<close> or \<open>bind\<close>: the error number, if it fails.\<close>

definition sys_option :: "net \<Rightarrow> int option \<times> net" where
  "sys_option n = (case next_answer None (os_option n) of (r, rest) \<Rightarrow> (r, n\<lparr>os_option := rest\<rparr>))"

definition close_fd :: "int \<Rightarrow> net \<Rightarrow> net" where
  "close_fd f n = n\<lparr>open_fds := removeAll f (open_fds n)\<rparr>"

definition Poller_Add :: "int \<Rightarrow> ConnectionId \<Rightarrow> u32 \<Rightarrow> net \<Rightarrow> int option \<times> net" where
  "Poller_Add f cid interest n =
     (case next_answer None (os_poller n) of (r, rest) \<Rightarrow>
        (r, n\<lparr>os_poller := rest, poll_regs := (case r of
               None \<Rightarrow> (poll_regs n)(f \<mapsto> (cid, interest)) | Some err \<Rightarrow> poll_regs n)\<rparr>))"

definition Poller_Modify :: "int \<Rightarrow> ConnectionId \<Rightarrow> u32 \<Rightarrow> net \<Rightarrow> int option \<times> net" where
  "Poller_Modify f cid interest n = Poller_Add f cid interest n"

definition Poller_Remove :: "int \<Rightarrow> net \<Rightarrow> net" where
  "Poller_Remove f n = n\<lparr>poll_regs := (poll_regs n)(f := None)\<rparr>"

definition Poller_Wake :: "net \<Rightarrow> net" where
  "Poller_Wake n = n\<lparr>wakes := wakes n + 1\<rparr>"

definition CloseSocket :: "int \<Rightarrow> net \<Rightarrow> int \<times> net" where
  "CloseSocket f n =
     (if IsValidSocketHandle f then (InvalidSocketHandle, close_fd f n) else (f, n))"

definition SetNonBlocking :: "net \<Rightarrow> int option \<times> net" where
  "SetNonBlocking n =
     (case sys_option n of (Some err, n) \<Rightarrow> (Some err, n) | (None, n) \<Rightarrow> sys_option n)"

definition SetCloseOnExec :: "net \<Rightarrow> int option \<times> net" where
  "SetCloseOnExec n =
     (case sys_option n of (Some err, n) \<Rightarrow> (Some err, n) | (None, n) \<Rightarrow> sys_option n)"

text \<open>Options whose failure is ignored.\<close>

definition try_option :: "bool \<Rightarrow> net \<Rightarrow> net" where
  "try_option wanted n = (if wanted then snd (sys_option n) else n)"

definition ApplyTcpOptions :: "env \<Rightarrow> TcpOptions \<Rightarrow> net \<Rightarrow> string option \<times> net" where
  "ApplyTcpOptions e t n =
     (case SetNonBlocking n of
        (Some err, n) \<Rightarrow> (Some (FormatErrorMessage e err), n)
      | (None, n) \<Rightarrow>
     (case SetCloseOnExec n of
        (Some err, n) \<Rightarrow> (Some (FormatErrorMessage e err), n)
      | (None, n) \<Rightarrow>
     (case (if tcp_nodelay t \<noteq> 0 then sys_option n else (None, n)) of
        (Some err, n) \<Rightarrow> (Some (FormatErrorMessage e err), n)
      | (None, n) \<Rightarrow>
          (None, try_option (0 \<le> linger_sec t) (try_option (0 < recv_buffer_size t)
                   (try_option (0 < send_buffer_size t) (try_option (tcp_quickack t \<noteq> 0) n)))))))"

section \<open>Task queue\<close>

text \<open>
  The drain job that \<open>ScheduleDrain\<close> and \<open>RescheduleDrain\<close> post to the worker pool is
  counted. Where the pool refuses it the source runs it at once; both calls are the last
  action of their callers, so that this is the case of a job that runs next.
\<close>

definition ScheduleDrain :: "ClientConnection \<Rightarrow> ClientConnection" where
  "ScheduleDrain c = c\<lparr>drain_jobs := drain_jobs c + 1\<rparr>"

definition Post :: "task \<Rightarrow> ClientConnection \<Rightarrow> ClientConnection" where
  "Post t c =
     (if \<not> accepting_tasks c then c
      else let c = c\<lparr>queued_tasks := queued_tasks c + 1, task_queue := task_queue c @ [t]\<rparr>
           in if \<not> draining c then ScheduleDrain (c\<lparr>draining := True\<rparr>) else c)"

definition PopAvailableTaskNode :: "ClientConnection \<Rightarrow> task option \<times> ClientConnection" where
  "PopAvailableTaskNode c =
     (case task_queue c of
        [] \<Rightarrow> (None, c)
      | t # ts \<Rightarrow> (Some t, c\<lparr>task_queue := ts\<rparr>))"

function DrainTaskQueue :: "ClientConnection \<Rightarrow> ClientConnection" where
  "DrainTaskQueue c =
     (case PopAvailableTaskNode c of
        (Some t, c') \<Rightarrow> DrainTaskQueue (c'\<lparr>queued_tasks := queued_tasks c' - 1\<rparr>)
      | (None, c') \<Rightarrow> c')"
  by pat_completeness auto
termination
  by (relation "measure (\<lambda>c. length (task_queue c))")
    (auto simp: PopAvailableTaskNode_def split: list.splits)

declare DrainTaskQueue.simps [simp del]

section \<open>Closing\<close>

definition IsConnected :: "ClientConnection \<Rightarrow> bool" where
  "IsConnected c \<longleftrightarrow> connected c"

definition IsConnecting :: "ClientConnection \<Rightarrow> bool" where
  "IsConnecting c \<longleftrightarrow> state c = kConnecting"

definition CloseFd :: "ClientConnection \<Rightarrow> ClientConnection" where
  "CloseFd c = (case CloseSocket (fd c) (rt c) of (f, n) \<Rightarrow> c\<lparr>fd := f, rt := n\<rparr>)"

definition ResetAfterClose :: "ClientConnection \<Rightarrow> ClientConnection" where
  "ResetAfterClose c =
     c\<lparr>poll_interest := 0, recv_buffer := ClearBuffer (recv_buffer c),
       send_buffer := ClearBuffer (send_buffer c), pending_bytes := 0,
       drain_yield_requested := False, parse_continuation_pending := False,
       deferred_close_pending := False, deferred_close_desc := []\<rparr>"

definition drop_registration :: "ClientConnection \<Rightarrow> ClientConnection" where
  "drop_registration c =
     (if valid (conn_id c)
      then let n = Poller_Remove (fd c) (rt c);
               n = n\<lparr>connections := Unregister (conn_id c) (connections n)\<rparr>
           in c\<lparr>rt := n, conn_id := ConnectionId_none\<rparr>
      else c)"

text \<open>\<open>FinishClose\<close> up to the notification of the handler.\<close>

definition FinishClose_silent :: "ClientConnection \<Rightarrow> ClientConnection" where
  "FinishClose_silent c = (ResetAfterClose (CloseFd (drop_registration c)))\<lparr>state := kIdle\<rparr>"

text \<open>The critical section of \<open>StartClose\<close>; \<open>None\<close> when there is nothing to close.\<close>

definition begin_close :: "CloseReason \<Rightarrow> ClientConnection \<Rightarrow> ClientConnection option" where
  "begin_close reason c =
     (if state c = kIdle \<or> state c = kClosing then None
      else Some (c\<lparr>state := kClosing, connected := False, connect_deadline_ms := 0,
                     g_close := Some reason\<rparr>))"

definition close_notifies :: "CloseReason \<Rightarrow> bool" where
  "close_notifies reason \<longleftrightarrow> reason \<noteq> kUser \<and> reason \<noteq> kRelease"

text \<open>\<open>StartClose(kRelease)\<close>, which does not notify the handler.\<close>

definition StartClose_silent :: "ClientConnection \<Rightarrow> ClientConnection" where
  "StartClose_silent c =
     (case begin_close kRelease c of None \<Rightarrow> c | Some c' \<Rightarrow> FinishClose_silent c')"

section \<open>Calls of the application\<close>

definition Connect :: "string option \<Rightarrow> string option \<times> raw_addr list option \<Rightarrow>
    ClientConnection \<Rightarrow> bool \<times> ClientConnection" where
  "Connect hosts answer c =
     (if hosts = None then (False, c)
      else if state c \<noteq> kIdle then (False, c)
      else let c = c\<lparr>state := kConnecting, connected := False,
                       g_race := g_race c \<or> TaskDisconnect \<in> set (task_queue c)\<rparr>
           in case answer of
                (None, Some (addr # addrs)) \<Rightarrow> (True, Post (TaskConnectResolved addr) c)
              | (err, addrs) \<Rightarrow>
                  (False, Post (TaskConnectFailed
                     (case err of Some desc \<Rightarrow> desc | None \<Rightarrow> ''resolve failed'')) c))"

definition Disconnect :: "ClientConnection \<Rightarrow> ClientConnection" where
  "Disconnect c = Post TaskDisconnect c"

definition ClientConnection_SendBuffer :: "byte list option \<Rightarrow> ClientConnection \<Rightarrow> bool \<times> ClientConnection" where
  "ClientConnection_SendBuffer data c =
     (case data of
        None \<Rightarrow> (False, c)
      | Some bs \<Rightarrow>
          if bs = [] then (False, c)
          else if \<not> IsConnected c then (False, c)
          else (True, Post (TaskSend bs) c))"

text \<open>
  \<open>CloseFromOwner\<close> called from inside a callback of this connection, and its part before the
  wait when it is called on another thread.
\<close>

definition begin_release :: "ClientConnection \<Rightarrow> ClientConnection" where
  "begin_release c = c\<lparr>owner_closing := True, accepting_tasks := False\<rparr>"

definition CloseFromOwner_draining :: "ClientConnection \<Rightarrow> ClientConnection" where
  "CloseFromOwner_draining c = StartClose_silent (DrainTaskQueue (begin_release c))"

definition CloseFromOwner_other :: "ClientConnection \<Rightarrow> ClientConnection" where
  "CloseFromOwner_other c =
     (let c = begin_release c
      in if \<not> draining c then ScheduleDrain (c\<lparr>draining := True\<rparr>) else c)"

fun app_call_in_callback :: "app_call \<Rightarrow> ClientConnection \<Rightarrow> ClientConnection" where
  "app_call_in_callback (AppConnect hosts answer) c = snd (Connect hosts answer c)"
| "app_call_in_callback AppDisconnect c = Disconnect c"
| "app_call_in_callback (AppSend bs) c = snd (ClientConnection_SendBuffer (Some bs) c)"
| "app_call_in_callback AppRelease c = CloseFromOwner_draining c"

text \<open>After a release the application has no client to call any more.\<close>

fun app_calls_in_callback :: "app_call list \<Rightarrow> ClientConnection \<Rightarrow> ClientConnection" where
  "app_calls_in_callback [] c = c"
| "app_calls_in_callback (a # as) c =
     (if owner_closing c then c else app_calls_in_callback as (app_call_in_callback a c))"

definition invoke :: "env \<Rightarrow> callback \<Rightarrow> ClientConnection \<Rightarrow> ClientConnection" where
  "invoke e cb c =
     (let c = c\<lparr>g_trace := g_trace c @ [cb]\<rparr> in app_calls_in_callback (app e (g_trace c)) c)"

definition FinishClose :: "env \<Rightarrow> bool \<Rightarrow> CloseReason \<Rightarrow> string \<Rightarrow> ClientConnection \<Rightarrow> ClientConnection" where
  "FinishClose e notify reason desc c =
     (let c = FinishClose_silent c
      in if \<not> notify \<or> \<not> has_handler c then c
         else if reason = kConnectFailed \<or> reason = kConnectTimeout
              then invoke e (OnConnectFailed desc) c
         else invoke e OnClosed c)"

definition StartClose :: "env \<Rightarrow> CloseReason \<Rightarrow> string \<Rightarrow> ClientConnection \<Rightarrow> ClientConnection" where
  "StartClose e reason desc c =
     (case begin_close reason c of
        None \<Rightarrow> c
      | Some c' \<Rightarrow> FinishClose e (close_notifies reason) reason desc c')"

definition DeferCloseUntilInputDrained :: "CloseReason \<Rightarrow> string \<Rightarrow> ClientConnection \<Rightarrow> ClientConnection" where
  "DeferCloseUntilInputDrained reason desc c =
     c\<lparr>deferred_close_pending := True, deferred_close_reason := reason, deferred_close_desc := desc\<rparr>"

definition FinishDeferredClose :: "env \<Rightarrow> ClientConnection \<Rightarrow> ClientConnection" where
  "FinishDeferredClose e c =
     (if \<not> deferred_close_pending c then c
      else let reason = deferred_close_reason c; desc = deferred_close_desc c
           in StartClose e reason desc (c\<lparr>deferred_close_pending := False, deferred_close_desc := []\<rparr>))"

end
