(* ===== verification/Connection_Io.thy ===== *)
theory Connection_Io
  imports Client_Connection
begin

text \<open>
  The tasks of a connection (src/net/client_connection.cc) over the POSIX part
  (src/net/client_connection_posix.cc): establishing the connection, reading and parsing
  input, writing, timers, and the loop that runs the tasks.
\<close>

section \<open>Writing\<close>

definition PlatformStartSend :: "env \<Rightarrow> ClientConnection \<Rightarrow> string option \<times> ClientConnection" where
  "PlatformStartSend e c =
     (let interest = (if SliceBuffer_Empty (send_buffer c) then kPollReadable
                      else kPollReadable OR kPollWritable)
      in if interest = poll_interest c then (None, c)
         else case Poller_Modify (fd c) (conn_id c) interest (rt c) of
                (Some err, n) \<Rightarrow> (Some (FormatErrorMessage e err), c\<lparr>rt := n\<rparr>)
              | (None, n) \<Rightarrow> (None, c\<lparr>rt := n, poll_interest := interest\<rparr>))"

definition UpdateWriteInterest :: "env \<Rightarrow> ClientConnection \<Rightarrow> ClientConnection" where
  "UpdateWriteInterest e c =
     (if \<not> valid (conn_id c) \<or> \<not> IsValidSocketHandle (fd c) then c
      else case PlatformStartSend e c of
             (Some error, c) \<Rightarrow> StartClose e kError error c
           | (None, c) \<Rightarrow> c)"

definition move_header :: "nat \<Rightarrow> SliceBuffer \<Rightarrow> bool \<times> bool \<times> SliceBuffer" where
  "move_header n b = (case MoveHeader n b of Some (ok, b') \<Rightarrow> (False, ok, b') | None \<Rightarrow> (True, False, b))"

text \<open>\<open>send\<close> accepts at most as many bytes as it is given.\<close>

definition sent_bytes :: "byte list \<Rightarrow> nat \<Rightarrow> byte list" where
  "sent_bytes front n = take n front"

definition account_sent :: "byte list \<Rightarrow> ClientConnection \<Rightarrow> ClientConnection" where
  "account_sent data c =
     (case move_header (length data) (send_buffer c) of (bad, ok, b) \<Rightarrow>
        c\<lparr>bytes_sent := bytes_sent c + of_nat (length data),
          pending_bytes := pending_bytes c - of_nat (length data),
          send_buffer := b, g_tx := g_tx c @ data, g_fault := g_fault c \<or> bad\<rparr>)"

text \<open>The loop of \<open>PlatformHandleWritable\<close> over the answers of \<open>send\<close>.\<close>

fun write_loop :: "env \<Rightarrow> (int + nat) list \<Rightarrow> nat \<Rightarrow> ClientConnection \<Rightarrow> ClientConnection" where
  "write_loop e [] bytes_this_event c =
     UpdateWriteInterest e (c\<lparr>rt := (rt c)\<lparr>os_send := []\<rparr>\<rparr>)"
| "write_loop e (a # as) bytes_this_event c =
     (if \<not> bytes_this_event < kMaxWriteBytesPerEvent \<or> SliceBuffer_Empty (send_buffer c)
      then UpdateWriteInterest e (c\<lparr>rt := (rt c)\<lparr>os_send := a # as\<rparr>\<rparr>)
      else let front = (case Front (send_buffer c) of Some s \<Rightarrow> s | None \<Rightarrow> [])
           in case a of
                Inl errno \<Rightarrow>
                  if errno = EINTR then write_loop e as bytes_this_event c
                  else if errno = EAGAIN \<or> errno = EWOULDBLOCK
                       then UpdateWriteInterest e (c\<lparr>rt := (rt c)\<lparr>os_send := as\<rparr>\<rparr>)
                  else StartClose e kError (FormatErrorMessage e errno) (c\<lparr>rt := (rt c)\<lparr>os_send := as\<rparr>\<rparr>)
              | Inr n \<Rightarrow>
                  let data = sent_bytes front n
                  in if data = [] then UpdateWriteInterest e (c\<lparr>rt := (rt c)\<lparr>os_send := as\<rparr>\<rparr>)
                     else write_loop e as (bytes_this_event + length data) (account_sent data c))"

definition PlatformHandleWritable :: "env \<Rightarrow> ClientConnection \<Rightarrow> ClientConnection" where
  "PlatformHandleWritable e c = write_loop e (os_send (rt c)) 0 c"

definition HandleWritable :: "env \<Rightarrow> ClientConnection \<Rightarrow> ClientConnection" where
  "HandleWritable e c = PlatformHandleWritable e c"

text \<open>The task that \<open>SendBuffer\<close> posts.\<close>

definition send_task :: "env \<Rightarrow> byte list \<Rightarrow> ClientConnection \<Rightarrow> ClientConnection" where
  "send_task e msg c =
     (if \<not> IsConnected c then c
      else UpdateWriteInterest e
             (c\<lparr>pending_bytes := pending_bytes c + of_nat (length msg),
                send_buffer := AddSlice msg (send_buffer c),
                g_accepted := g_accepted c @ msg\<rparr>))"

section \<open>Parsing\<close>

datatype parse_end = ParseStop | ParseError | ParseGone | ParseFault

text \<open>
  The loop of \<open>ParseInput\<close> over the merged input from \<open>offset\<close> on, \<open>left\<close> messages from the
  budget: why it ended, the final offset and the number of messages handed out.
\<close>

fun parse_loop :: "env \<Rightarrow> Codec \<Rightarrow> byte list \<Rightarrow> nat \<Rightarrow> nat \<Rightarrow> nat \<Rightarrow> ClientConnection \<Rightarrow>
    parse_end \<times> nat \<times> nat \<times> ClientConnection" where
  "parse_loop e cod merged offset messages 0 c = (ParseStop, offset, messages, c)"
| "parse_loop e cod merged offset messages (Suc left) c =
     (if \<not> offset < length merged then (ParseStop, offset, messages, c)
      else case Codec_Decode (size_max e) cod (drop offset merged) of
        None \<Rightarrow> (ParseFault, offset, messages, c)
      | Some (result, consumed) \<Rightarrow>
          if result = kNeedMoreData then (ParseStop, offset, messages, c)
          else if result = kDecodeError \<or> consumed = 0 \<or> consumed > length merged - offset
               then (ParseError, offset, messages, c)
          else let c = invoke e (OnMessage (take consumed (drop offset merged))) c
               in if \<not> IsConnected c then (ParseGone, offset, messages, c)
                  else parse_loop e cod merged (offset + consumed) (Suc messages) left c)"

definition ScheduleParseContinuation :: "ClientConnection \<Rightarrow> ClientConnection" where
  "ScheduleParseContinuation c =
     (if parse_continuation_pending c then c
      else Post TaskParse (c\<lparr>parse_continuation_pending := True\<rparr>))"

definition parse_status :: "ClientConnection \<Rightarrow> ParseStatus" where
  "parse_status c = (if IsConnected c then kDone else kClosed)"

text \<open>\<open>ParseInput\<close> after the loop has ended without closing the connection.\<close>

definition finish_parse :: "env \<Rightarrow> nat \<Rightarrow> nat \<Rightarrow> ClientConnection \<Rightarrow> ParseStatus \<times> ClientConnection" where
  "finish_parse e offset messages c =
     (case (if offset > 0 then move_header offset (recv_buffer c) else (False, True, recv_buffer c)) of
        (bad, ok, b) \<Rightarrow>
        let c = c\<lparr>recv_buffer := b, g_fault := g_fault c \<or> bad\<rparr>
        in if \<not> ok then (kClosed, StartClose e kError ''protocol buffer state error'' c)
           else if messages \<ge> kParseMessageBudget \<and> GetBufferLength (recv_buffer c) > 0 \<and> IsConnected c
                then (kYielded, (ScheduleParseContinuation c)\<lparr>drain_yield_requested := True\<rparr>)
           else let c = FinishDeferredClose e c in (parse_status c, c))"

definition ParseInput :: "env \<Rightarrow> ClientConnection \<Rightarrow> ParseStatus \<times> ClientConnection" where
  "ParseInput e c =
     (let c = c\<lparr>parse_continuation_pending := False\<rparr>
      in case codec (opts c) of
           None \<Rightarrow> (let c = FinishDeferredClose e c in (parse_status c, c))
         | Some cod \<Rightarrow>
             if \<not> has_handler c \<or> GetBufferLength (recv_buffer c) = 0
             then (let c = FinishDeferredClose e c in (parse_status c, c))
             else case Merge (fresh_byte e) (recv_buffer c) of
                    None \<Rightarrow> (kClosed, c\<lparr>g_fault := True\<rparr>)
                  | Some merged \<Rightarrow>
                      (case parse_loop e cod merged 0 0 kParseMessageBudget c of
                         (ParseFault, offset, messages, c) \<Rightarrow> (kClosed, c\<lparr>g_fault := True\<rparr>)
                       | (ParseError, offset, messages, c) \<Rightarrow>
                           (kClosed, StartClose e kError ''protocol decode error'' c)
                       | (ParseGone, offset, messages, c) \<Rightarrow> (kClosed, c)
                       | (ParseStop, offset, messages, c) \<Rightarrow> finish_parse e offset messages c))"

text \<open>The task that \<open>ScheduleParseContinuation\<close> posts.\<close>

definition parse_task :: "env \<Rightarrow> ClientConnection \<Rightarrow> ClientConnection" where
  "parse_task e c = (if IsConnected c then snd (ParseInput e c) else c)"

section \<open>Reading\<close>

definition account_received :: "byte list \<Rightarrow> ClientConnection \<Rightarrow> ClientConnection" where
  "account_received data c =
     c\<lparr>bytes_received := bytes_received c + of_nat (length data),
       recv_buffer := AddSlice data (recv_buffer c), g_rx := g_rx c @ data\<rparr>"

text \<open>
  The loop of \<open>PlatformHandleReadable\<close> over the answers of \<open>recv\<close>, each of at most
  \<open>kRecvCacheSize\<close> bytes; no bytes mean that the peer has closed. The result tells
  whether and why to close.
\<close>

fun read_loop :: "env \<Rightarrow> (int + byte list) list \<Rightarrow> nat \<Rightarrow> ClientConnection \<Rightarrow>
    (CloseReason \<times> string) option \<times> ClientConnection" where
  "read_loop e [] bytes_this_event c = (None, c\<lparr>rt := (rt c)\<lparr>os_recv := []\<rparr>\<rparr>)"
| "read_loop e (a # as) bytes_this_event c =
     (if \<not> bytes_this_event < kMaxReadBytesPerEvent then (None, c\<lparr>rt := (rt c)\<lparr>os_recv := a # as\<rparr>\<rparr>)
      else case a of
             Inl errno \<Rightarrow>
               if errno = EINTR then read_loop e as bytes_this_event c
               else if errno = EAGAIN \<or> errno = EWOULDBLOCK then (None, c\<lparr>rt := (rt c)\<lparr>os_recv := as\<rparr>\<rparr>)
               else (Some (kError, FormatErrorMessage e errno), c\<lparr>rt := (rt c)\<lparr>os_recv := as\<rparr>\<rparr>)
           | Inr bs \<Rightarrow>
               let data = take kRecvCacheSize bs
               in if data = [] then (Some (kRemoteClosed, []), c\<lparr>rt := (rt c)\<lparr>os_recv := as\<rparr>\<rparr>)
                  else read_loop e as (bytes_this_event + length data) (account_received data c))"

definition PlatformHandleReadable :: "env \<Rightarrow> ClientConnection \<Rightarrow> ClientConnection" where
  "PlatformHandleReadable e c =
     (case read_loop e (os_recv (rt c)) 0 c of (should_close, c) \<Rightarrow>
        let close = (\<lambda>c. case should_close of None \<Rightarrow> c | Some (reason, desc) \<Rightarrow> StartClose e reason desc c)
        in if GetBufferLength (recv_buffer c) > 0
           then (case ParseInput e c of
                   (kClosed, c) \<Rightarrow> c
                 | (kYielded, c) \<Rightarrow>
                     (case should_close of
                        None \<Rightarrow> c
                      | Some (reason, desc) \<Rightarrow> DeferCloseUntilInputDrained reason desc c)
                 | (kDone, c) \<Rightarrow> close c)
           else close c)"

definition HandleReadable :: "env \<Rightarrow> ClientConnection \<Rightarrow> ClientConnection" where
  "HandleReadable e c = PlatformHandleReadable e c"

section \<open>Establishing the connection\<close>

definition PlatformOpenSocket :: "env \<Rightarrow> ClientOptions \<Rightarrow> net \<Rightarrow> (string + int) \<times> net" where
  "PlatformOpenSocket e o' n =
     (case next_answer (Inr 0) (os_socket n) of (answer, rest) \<Rightarrow>
      let n = n\<lparr>os_socket := rest\<rparr>
      in case answer of
           Inl errno \<Rightarrow> (Inl (FormatErrorMessage e errno), n)
         | Inr f \<Rightarrow>
             if \<not> IsValidSocketHandle f then (Inl (FormatErrorMessage e 0), n)
             else case ApplyTcpOptions e (tcp o') (n\<lparr>open_fds := f # open_fds n\<rparr>) of
               (Some error, n) \<Rightarrow> (Inl error, snd (CloseSocket f n))
             | (None, n) \<Rightarrow>
                 (case local_address o' of
                    None \<Rightarrow> (Inr f, n)
                  | Some addr \<Rightarrow>
                      (case string_to_sockaddr e addr of
                         None \<Rightarrow> (Inl ''invalid local address'', snd (CloseSocket f n))
                       | Some sa \<Rightarrow>
                           (case sys_option n of
                              (Some errno, n) \<Rightarrow> (Inl (FormatErrorMessage e errno), snd (CloseSocket f n))
                            | (None, n) \<Rightarrow> (Inr f, n)))))"

text \<open>The retry loop around \<open>connect\<close>: the error number it ends with.\<close>

fun connect_loop :: "int option list \<Rightarrow> int option \<times> int option list" where
  "connect_loop [] = (None, [])"
| "connect_loop (a # as) = (if a = Some EINTR then connect_loop as else (a, as))"

datatype connect_result = ConnectFailed string | ConnectDone | ConnectPending

definition PlatformConnect :: "env \<Rightarrow> ClientConnection \<Rightarrow> connect_result \<times> ClientConnection" where
  "PlatformConnect e c =
     (case connect_loop (os_connect (rt c)) of (answer, rest) \<Rightarrow>
      let c = c\<lparr>rt := (rt c)\<lparr>os_connect := rest\<rparr>\<rparr>
      in case answer of
           None \<Rightarrow>
             (let c = c\<lparr>poll_interest := kPollReadable\<rparr>
              in case Poller_Add (fd c) (conn_id c) (poll_interest c) (rt c) of
                   (Some errno, n) \<Rightarrow> (ConnectFailed (FormatErrorMessage e errno), c\<lparr>rt := n\<rparr>)
                 | (None, n) \<Rightarrow> (ConnectDone, c\<lparr>rt := n\<rparr>))
         | Some errno \<Rightarrow>
             if errno \<noteq> EINPROGRESS \<and> errno \<noteq> EWOULDBLOCK
             then (ConnectFailed (FormatErrorMessage e errno), c)
             else (let c = c\<lparr>poll_interest := kPollReadable OR kPollWritable\<rparr>
                   in case Poller_Add (fd c) (conn_id c) (poll_interest c) (rt c) of
                        (Some errno, n) \<Rightarrow> (ConnectFailed (FormatErrorMessage e errno), c\<lparr>rt := n\<rparr>)
                      | (None, n) \<Rightarrow> (ConnectPending, c\<lparr>rt := n\<rparr>)))"

definition PlatformFinishConnect :: "env \<Rightarrow> ClientConnection \<Rightarrow> string option \<times> ClientConnection" where
  "PlatformFinishConnect e c =
     (case next_answer (Inr 0) (os_soerror (rt c)) of (answer, rest) \<Rightarrow>
      let c = c\<lparr>rt := (rt c)\<lparr>os_soerror := rest\<rparr>\<rparr>
      in case answer of
           Inl errno \<Rightarrow> (Some (FormatErrorMessage e errno), c)
         | Inr code \<Rightarrow> if code \<noteq> 0 then (Some (FormatErrorMessage e code), c) else (None, c))"

definition PlatformAfterConnected :: "env \<Rightarrow> ClientConnection \<Rightarrow> string option \<times> ClientConnection" where
  "PlatformAfterConnected e c =
     (let c = c\<lparr>poll_interest := kPollReadable\<rparr>
      in case Poller_Modify (fd c) (conn_id c) (poll_interest c) (rt c) of
           (Some errno, n) \<Rightarrow> (Some (FormatErrorMessage e errno), c\<lparr>rt := n\<rparr>)
         | (None, n) \<Rightarrow> (None, c\<lparr>rt := n\<rparr>))"

definition HandleConnected :: "env \<Rightarrow> ClientConnection \<Rightarrow> ClientConnection" where
  "HandleConnected e c =
     (if state c \<noteq> kConnecting then c
      else case PlatformAfterConnected e (c\<lparr>connect_deadline_ms := 0\<rparr>) of
             (Some error, c) \<Rightarrow> StartClose e kConnectFailed error c
           | (None, c) \<Rightarrow>
               if state c \<noteq> kConnecting then c
               else let c = c\<lparr>state := kConnected, connected := True,
                              g_rx := [], g_tx := [], g_accepted := [],
                              g_close := None\<rparr>
                    in if has_handler c then invoke e OnConnected c else c)"

text \<open>\<open>ConnectResolved\<close> between the opening of the socket and \<open>PlatformConnect\<close>.\<close>

definition register_socket :: "int \<Rightarrow> ClientConnection \<Rightarrow> ClientConnection" where
  "register_socket f c =
     (case Register (self c) (connections (rt c)) of (cid, tab) \<Rightarrow>
        let n = (rt c)\<lparr>connections := tab\<rparr>;
            c = c\<lparr>fd := f, conn_id := cid, rt := n\<rparr>;
            timeout = connect_timeout_ms (tcp (opts c))
        in if 0 < timeout
           then let deadline = now_ms n + timeout
                in c\<lparr>connect_deadline_ms := deadline,
                     rt := Poller_Wake (n\<lparr>timers := TimerQueue_Add deadline cid TimerKind_kConnectTimeout (timers n)\<rparr>)\<rparr>
           else c)"

definition ConnectResolved :: "env \<Rightarrow> raw_addr \<Rightarrow> ClientConnection \<Rightarrow> ClientConnection" where
  "ConnectResolved e addr c =
     (case PlatformOpenSocket e (opts c) (rt c) of
        (Inl error, n) \<Rightarrow> StartClose e kConnectFailed error (c\<lparr>rt := n\<rparr>)
      | (Inr new_fd, n) \<Rightarrow>
          (case PlatformConnect e (register_socket new_fd (c\<lparr>rt := n\<rparr>)) of
             (ConnectFailed error, c) \<Rightarrow> StartClose e kConnectFailed error c
           | (ConnectDone, c) \<Rightarrow> HandleConnected e c
           | (ConnectPending, c) \<Rightarrow> c))"

section \<open>Events\<close>

text \<open>The completion handlers are empty on POSIX systems.\<close>

definition HandleCompletion :: "PollEvent \<Rightarrow> ClientConnection \<Rightarrow> ClientConnection" where
  "HandleCompletion ev c = c"

definition handle_error_event :: "env \<Rightarrow> PollEvent \<Rightarrow> ClientConnection \<Rightarrow> ClientConnection" where
  "handle_error_event e ev c =
     (case (if IsConnecting c then PlatformFinishConnect e c else (None, c)) of
        (Some error, c) \<Rightarrow>
          StartClose e kConnectFailed
            (if error = [] then FormatErrorMessage e (error_code ev) else error) c
      | (None, c) \<Rightarrow>
          StartClose e (if IsConnected c then kError else kConnectFailed)
            (FormatErrorMessage e (error_code ev)) c)"

definition handle_io_event :: "env \<Rightarrow> PollEvent \<Rightarrow> ClientConnection \<Rightarrow> ClientConnection" where
  "handle_io_event e ev c =
     (let c = (if events ev AND kPollEventReadable \<noteq> 0 then HandleReadable e c else c)
      in if events ev AND kPollEventReadable \<noteq> 0 \<and> \<not> IsConnected c then c
         else if events ev AND kPollEventWritable \<noteq> 0 then HandleWritable e c else c)"

definition HandlePollEvent :: "env \<Rightarrow> PollEvent \<Rightarrow> ClientConnection \<Rightarrow> ClientConnection" where
  "HandlePollEvent e ev c =
     (if ev_id ev \<noteq> conn_id c then c
      else if operation ev \<noteq> kPollOpReady then HandleCompletion ev c
      else if state c = kIdle \<or> state c = kClosing then c
      else if events ev AND kPollEventError \<noteq> 0 then handle_error_event e ev c
      else if IsConnecting c \<and> events ev AND (kPollEventReadable OR kPollEventWritable) \<noteq> 0
      then (case PlatformFinishConnect e c of
              (Some error, c) \<Rightarrow> StartClose e kConnectFailed error c
            | (None, c) \<Rightarrow>
                let c = HandleConnected e c
                in if \<not> IsConnected c then c else handle_io_event e ev c)
      else handle_io_event e ev c)"

definition HandleTimerEvent :: "env \<Rightarrow> TimerEvent \<Rightarrow> ClientConnection \<Rightarrow> ClientConnection" where
  "HandleTimerEvent e ev c =
     (if timer_id ev \<noteq> conn_id c \<or> kind ev \<noteq> TimerKind_kConnectTimeout then c
      else if state c = kConnecting \<and> connect_deadline_ms c = deadline_ms ev
           then StartClose e kConnectTimeout ''connect timeout'' c
      else c)"

section \<open>Running tasks\<close>

fun run_task :: "env \<Rightarrow> task \<Rightarrow> ClientConnection \<Rightarrow> ClientConnection" where
  "run_task e (TaskConnectFailed desc) c = StartClose e kConnectFailed desc c"
| "run_task e (TaskConnectResolved addr) c = ConnectResolved e addr c"
| "run_task e TaskDisconnect c = StartClose e kUser [] c"
| "run_task e (TaskSend msg) c = send_task e msg c"
| "run_task e (TaskPollEvent ev) c = HandlePollEvent e ev c"
| "run_task e (TaskTimerEvent ev) c = HandleTimerEvent e ev c"
| "run_task e TaskParse c = parse_task e c"

text \<open>The loop of \<open>Drain\<close> after \<open>n\<close> tasks of this run.\<close>

function drain_loop :: "env \<Rightarrow> nat \<Rightarrow> ClientConnection \<Rightarrow> ClientConnection" where
  "drain_loop e n c =
     (if owner_closing c
      then (StartClose e kRelease [] (DrainTaskQueue c))\<lparr>draining := False\<rparr>
      else case PopAvailableTaskNode c of
        (None, c') \<Rightarrow> c'\<lparr>draining := False\<rparr>
      | (Some t, c') \<Rightarrow>
          (let c2 = run_task e t (c'\<lparr>queued_tasks := queued_tasks c' - 1\<rparr>)
           in if drain_yield_requested c2 \<or> n + 1 \<ge> kDrainTaskBudget
              then if owner_closing c2
                   then drain_loop e (n + 1) (c2\<lparr>drain_yield_requested := False\<rparr>)
                   else ScheduleDrain (c2\<lparr>drain_yield_requested := False\<rparr>)
              else drain_loop e (n + 1) c2))"
  by pat_completeness auto
termination
  by (relation "measure (\<lambda>(e, n, c). if owner_closing c then 0 else 1 + (kDrainTaskBudget - n))")
    (auto simp: Let_def)

declare drain_loop.simps [simp del]

definition Drain :: "env \<Rightarrow> ClientConnection \<Rightarrow> ClientConnection" where
  "Drain e c = drain_loop e 0 (c\<lparr>drain_yield_requested := False\<rparr>)"

section \<open>Runs\<close>

text \<open>
  What can happen to a connection: a call of the application outside a callback, an event
  from the poll thread, which only delivers events with valid ids, a drain job of a worker,
  and any change of the world outside (clock, answers of the operating system, other
  connections) that leaves this connection's registration alone.
\<close>

datatype input =
    InCall app_call
  | InPoll PollEvent
  | InTimer TimerEvent
  | InDrain
  | InWorld net

definition PostPollEvent :: "PollEvent \<Rightarrow> ClientConnection \<Rightarrow> ClientConnection" where
  "PostPollEvent ev c = Post (TaskPollEvent ev) c"

definition PostTimerEvent :: "TimerEvent \<Rightarrow> ClientConnection \<Rightarrow> ClientConnection" where
  "PostTimerEvent ev c = Post (TaskTimerEvent ev) c"

fun app_call_outside :: "app_call \<Rightarrow> ClientConnection \<Rightarrow> ClientConnection" where
  "app_call_outside (AppConnect hosts answer) c = snd (Connect hosts answer c)"
| "app_call_outside AppDisconnect c = Disconnect c"
| "app_call_outside (AppSend bs) c = snd (ClientConnection_SendBuffer (Some bs) c)"
| "app_call_outside AppRelease c = CloseFromOwner_other c"

fun step :: "env \<Rightarrow> input \<Rightarrow> ClientConnection \<Rightarrow> ClientConnection" where
  "step e (InCall a) c = (if owner_closing c then c else app_call_outside a c)"
| "step e (InPoll ev) c = PostPollEvent ev c"
| "step e (InTimer ev) c = PostTimerEvent ev c"
| "step e InDrain c = (if drain_jobs c = 0 then c else Drain e (c\<lparr>drain_jobs := drain_jobs c - 1\<rparr>))"
| "step e (InWorld n) c = c\<lparr>rt := n\<rparr>"

definition input_ok :: "input \<Rightarrow> ClientConnection \<Rightarrow> bool" where
  "input_ok i c \<longleftrightarrow>
     (case i of
        InPoll ev \<Rightarrow> valid (ev_id ev)
      | InTimer ev \<Rightarrow> valid (timer_id ev)
      | InWorld n \<Rightarrow> poll_regs n (fd c) = poll_regs (rt c) (fd c)
      | _ \<Rightarrow> True)"

fun run :: "env \<Rightarrow> input list \<Rightarrow> ClientConnection \<Rightarrow> ClientConnection" where
  "run e [] c = c"
| "run e (i # is) c = run e is (step e i c)"

fun inputs_ok :: "env \<Rightarrow> input list \<Rightarrow> ClientConnection \<Rightarrow> bool" where
  "inputs_ok e [] c \<longleftrightarrow> True"
| "inputs_ok e (i # is) c \<longleftrightarrow> input_ok i c \<and> inputs_ok e is (step e i c)"

end
