(* ===== verification/Connection_Invariants.thy ===== *)
theory Connection_Invariants
  imports Connection_Io
begin

text \<open>
  What every operation of a connection preserves. \<open>conn_core\<close> relates the fields of the
  connection object, its registration with the poller and the ghost fields; \<open>queue_shape\<close>
  describes the queued tasks. Both can only be broken by a \<open>Connect\<close> that is accepted while
  an earlier \<open>Disconnect\<close> is still queued, which the flag \<open>g_race\<close> records.
\<close>

section \<open>Frame\<close>

text \<open>
  Fields that never change, and those that only grow; and what code that runs inside a drain
  job leaves alone: the job stays marked as draining, no second job is posted, and the task
  counter keeps counting the queue.
\<close>

definition history :: "ClientConnection \<Rightarrow> ClientConnection \<Rightarrow> bool" where
  "history c c' \<longleftrightarrow> opts c' = opts c \<and> has_handler c' = has_handler c \<and> self c' = self c \<and>
     (g_race c \<longrightarrow> g_race c') \<and> (owner_closing c \<longrightarrow> owner_closing c') \<and>
     (\<not> accepting_tasks c \<longrightarrow> \<not> accepting_tasks c') \<and> (g_fault c \<longrightarrow> g_fault c') \<and>
     (\<exists>cbs. g_trace c' = g_trace c @ cbs)"

definition frame :: "ClientConnection \<Rightarrow> ClientConnection \<Rightarrow> bool" where
  "frame c c' \<longleftrightarrow> opts c' = opts c \<and> has_handler c' = has_handler c \<and> self c' = self c \<and>
     (g_race c \<longrightarrow> g_race c') \<and> (owner_closing c \<longrightarrow> owner_closing c') \<and>
     (\<not> accepting_tasks c \<longrightarrow> \<not> accepting_tasks c') \<and> (g_fault c \<longrightarrow> g_fault c') \<and>
     (\<exists>cbs. g_trace c' = g_trace c @ cbs) \<and>
     (draining c \<longrightarrow> draining c' \<and> drain_jobs c' = drain_jobs c) \<and>
     (queued_tasks c = length (task_queue c) \<longrightarrow> queued_tasks c' = length (task_queue c'))"

lemma frame_history: "frame c c' \<Longrightarrow> history c c'"
  by (simp add: frame_def history_def)

lemma history_trans: "history a b \<Longrightarrow> history b c \<Longrightarrow> history a c"
  unfolding history_def by auto

lemma frame_refl [simp, intro]: "frame c c"
  by (simp add: frame_def)

lemma frame_trans:
  assumes "frame a b" "frame b c"
  shows "frame a c"
proof -
  have "\<exists>cbs. g_trace c = g_trace a @ cbs" using assms unfolding frame_def by (metis append.assoc)
  then show ?thesis using assms unfolding frame_def by simp
qed

lemma frame_Post [simp]: "frame c (Post t c)"
  by (simp add: frame_def Post_def ScheduleDrain_def Let_def)

lemma DrainTaskQueue_eq: "DrainTaskQueue c =
    c\<lparr>task_queue := [], queued_tasks := queued_tasks c - length (task_queue c)\<rparr>"
proof (induction "task_queue c" arbitrary: c)
  case Nil
  then show ?case by (simp add: DrainTaskQueue.simps [of c] PopAvailableTaskNode_def)
next
  case (Cons t ts)
  have "DrainTaskQueue c = DrainTaskQueue (c\<lparr>task_queue := ts, queued_tasks := queued_tasks c - 1\<rparr>)"
    using Cons.hyps(2) [symmetric] by (simp add: DrainTaskQueue.simps [of c] PopAvailableTaskNode_def)
  then show ?case
    using Cons.hyps(1) [of "c\<lparr>task_queue := ts, queued_tasks := queued_tasks c - 1\<rparr>"] Cons.hyps(2)
    by (cases "task_queue c") auto
qed

lemmas close_defs = FinishClose_silent_def ResetAfterClose_def CloseFd_def CloseSocket_def
  drop_registration_def close_fd_def Poller_Remove_def Let_def

lemma frame_FinishClose_silent [simp]: "frame c (FinishClose_silent c)"
  by (simp add: frame_def close_defs)

lemma frame_begin_close: "begin_close r c = Some c' \<Longrightarrow> frame c c'"
  by (auto simp: begin_close_def frame_def split: if_splits)

lemma frame_StartClose_silent [simp]: "frame c (StartClose_silent c)"
  by (auto simp: StartClose_silent_def split: option.splits
      intro: frame_trans [OF frame_begin_close frame_FinishClose_silent])

lemma frame_Connect [simp]: "frame c (snd (Connect h a c))"
proof -
  let ?c = "c\<lparr>state := kConnecting, connected := False,
    g_race := g_race c \<or> TaskDisconnect \<in> set (task_queue c)\<rparr>"
  have "frame c ?c" by (simp add: frame_def)
  then have "frame c (Post t ?c)" for t by (rule frame_trans) simp
  then show ?thesis
    by (auto simp: Connect_def Let_def split: prod.splits option.splits list.splits)
qed

lemma frame_app_call [simp]: "frame c (app_call_in_callback a c)"
proof (cases a)
  case AppRelease
  have "frame c (DrainTaskQueue (begin_release c))"
    by (simp add: DrainTaskQueue_eq begin_release_def frame_def)
  then show ?thesis
    using AppRelease by (auto simp: CloseFromOwner_draining_def intro: frame_trans)
qed (auto simp: Disconnect_def ClientConnection_SendBuffer_def)

lemma frame_app_calls [simp]: "frame c (app_calls_in_callback as c)"
  by (induction as arbitrary: c) (auto intro: frame_trans [OF frame_app_call])

lemma frame_invoke [simp]: "frame c (invoke e cb c)"
proof -
  have "frame c (c\<lparr>g_trace := g_trace c @ [cb]\<rparr>)" by (simp add: frame_def)
  then show ?thesis by (auto simp: invoke_def Let_def intro: frame_trans)
qed

lemma frame_StartClose [simp]: "frame c (StartClose e r d c)"
  by (auto simp: StartClose_def FinishClose_def Let_def split: option.splits
      intro: frame_trans [OF frame_begin_close] frame_trans [OF frame_FinishClose_silent frame_invoke])

section \<open>Invariant\<close>

definition wanted_interest :: "SliceBuffer \<Rightarrow> u32" where
  "wanted_interest b = (if buffer_bytes b = [] then kPollReadable else kPollReadable OR kPollWritable)"

fun task_ok :: "task \<Rightarrow> bool" where
  "task_ok (TaskPollEvent ev) \<longleftrightarrow> valid (ev_id ev)"
| "task_ok (TaskTimerEvent ev) \<longleftrightarrow> valid (timer_id ev)"
| "task_ok t \<longleftrightarrow> True"

text \<open>An established connection: registered, and every accepted byte is sent or still buffered.\<close>

definition session_ok :: "ClientConnection \<Rightarrow> bool" where
  "session_ok c \<longleftrightarrow> valid (conn_id c) \<and> poll_regs (rt c) (fd c) = Some (conn_id c, poll_interest c) \<and>
     g_accepted c = g_tx c @ buffer_bytes (send_buffer c)"

definition conn_core :: "ClientConnection \<Rightarrow> bool" where
  "conn_core c \<longleftrightarrow>
     buffer_inv (recv_buffer c) \<and> buffer_inv (send_buffer c) \<and>
     (connected c \<longleftrightarrow> state c = kConnected) \<and> state c \<noteq> kClosing \<and>
     (accepting_tasks c \<longleftrightarrow> \<not> owner_closing c) \<and>
     (state c \<noteq> kConnected \<longrightarrow> buffer_bytes (recv_buffer c) = [] \<and> buffer_bytes (send_buffer c) = []) \<and>
     pending_bytes c = of_nat (length (buffer_bytes (send_buffer c))) \<and>
     (valid (conn_id c) \<longleftrightarrow> IsValidSocketHandle (fd c)) \<and>
     (state c = kIdle \<longrightarrow> \<not> valid (conn_id c)) \<and>
     (state c = kConnected \<longrightarrow> session_ok c) \<and>
     list_all task_ok (task_queue c)"

definition interest_ok :: "ClientConnection \<Rightarrow> bool" where
  "interest_ok c \<longleftrightarrow> (state c = kConnected \<longrightarrow> poll_interest c = wanted_interest (send_buffer c))"

fun is_connect :: "task \<Rightarrow> bool" where
  "is_connect (TaskConnectFailed d) \<longleftrightarrow> True"
| "is_connect (TaskConnectResolved a) \<longleftrightarrow> True"
| "is_connect t \<longleftrightarrow> False"

definition no_connect :: "task list \<Rightarrow> bool" where
  "no_connect q \<longleftrightarrow> list_all (\<lambda>t. \<not> is_connect t) q"

text \<open>One connect task is queued, and no \<open>Disconnect\<close> before it.\<close>

fun one_connect :: "task list \<Rightarrow> bool" where
  "one_connect [] \<longleftrightarrow> False"
| "one_connect (t # q) \<longleftrightarrow> (if is_connect t then no_connect q else t \<noteq> TaskDisconnect \<and> one_connect q)"

definition queue_shape :: "State \<Rightarrow> bool \<Rightarrow> task list \<Rightarrow> bool" where
  "queue_shape st registered q \<longleftrightarrow>
     (if no_connect q then st = kConnecting \<longrightarrow> registered
      else st = kConnecting \<and> \<not> registered \<and> one_connect q)"

abbreviation queue_ok :: "ClientConnection \<Rightarrow> bool" where
  "queue_ok c \<equiv> queue_shape (state c) (valid (conn_id c)) (task_queue c)"

definition good :: "ClientConnection \<Rightarrow> bool" where
  "good c \<longleftrightarrow> g_race c \<or> conn_core c \<and> interest_ok c \<and> queue_ok c"

lemma good_new: "good (ClientConnection_new me h o' n)"
  by (simp add: good_def conn_core_def interest_ok_def queue_shape_def no_connect_def ClientConnection_new_def
      buf.inv_new buf.content_new ConnectionId_none_def valid_def InvalidSocketHandle_def IsValidSocketHandle_def)

lemma no_connect_append [simp]: "no_connect (q @ r) \<longleftrightarrow> no_connect q \<and> no_connect r"
  by (simp add: no_connect_def)

lemma no_connect_Cons [simp]: "no_connect (t # q) \<longleftrightarrow> \<not> is_connect t \<and> no_connect q"
  by (simp add: no_connect_def)

lemma no_connect_Nil [simp]: "no_connect []"
  by (simp add: no_connect_def)

lemma one_connect_append: "one_connect q \<Longrightarrow> no_connect r \<Longrightarrow> one_connect (q @ r)"
  by (induction q) (auto split: if_splits)

lemma one_connect_snoc: "no_connect q \<Longrightarrow> TaskDisconnect \<notin> set q \<Longrightarrow> is_connect t \<Longrightarrow> one_connect (q @ [t])"
  by (induction q) auto

lemma one_connect_not_none: "one_connect q \<Longrightarrow> \<not> no_connect q"
  by (induction q) (auto split: if_splits)

lemma queue_shape_post: "queue_shape st r q \<Longrightarrow> \<not> is_connect t \<Longrightarrow> queue_shape st r (q @ [t])"
  by (auto simp: queue_shape_def one_connect_append split: if_splits)

subsection \<open>Posting and calls of the application\<close>

lemma Post_fields [simp]:
  "state (Post t c) = state c" "connected (Post t c) = connected c" "conn_id (Post t c) = conn_id c"
  "fd (Post t c) = fd c" "poll_interest (Post t c) = poll_interest c" "pending_bytes (Post t c) = pending_bytes c"
  "recv_buffer (Post t c) = recv_buffer c" "send_buffer (Post t c) = send_buffer c" "rt (Post t c) = rt c"
  "g_trace (Post t c) = g_trace c" "g_rx (Post t c) = g_rx c" "g_tx (Post t c) = g_tx c"
  "g_accepted (Post t c) = g_accepted c" "g_race (Post t c) = g_race c" "g_fault (Post t c) = g_fault c"
  "opts (Post t c) = opts c" "has_handler (Post t c) = has_handler c" "g_close (Post t c) = g_close c"
  "owner_closing (Post t c) = owner_closing c" "accepting_tasks (Post t c) = accepting_tasks c"
  "deferred_close_pending (Post t c) = deferred_close_pending c"
  "deferred_close_reason (Post t c) = deferred_close_reason c"
  "parse_continuation_pending (Post t c) = parse_continuation_pending c"
  "drain_yield_requested (Post t c) = drain_yield_requested c"
  "connect_deadline_ms (Post t c) = connect_deadline_ms c"
  by (simp_all add: Post_def ScheduleDrain_def Let_def)

lemma Post_queue: "task_queue (Post t c) = (if accepting_tasks c then task_queue c @ [t] else task_queue c)"
  by (simp add: Post_def ScheduleDrain_def Let_def)

lemma good_Post: "good c \<Longrightarrow> task_ok t \<Longrightarrow> \<not> is_connect t \<Longrightarrow> good (Post t c)"
  by (auto simp: good_def conn_core_def session_ok_def interest_ok_def Post_queue queue_shape_post)

text \<open>Closing needs little of the invariant and restores all of it.\<close>

definition closable :: "ClientConnection \<Rightarrow> bool" where
  "closable c \<longleftrightarrow> (valid (conn_id c) \<longleftrightarrow> IsValidSocketHandle (fd c)) \<and> list_all task_ok (task_queue c) \<and>
     no_connect (task_queue c) \<and> (accepting_tasks c \<longleftrightarrow> \<not> owner_closing c)"

lemma FinishClose_silent_fields [simp]:
  "state (FinishClose_silent c) = kIdle" "task_queue (FinishClose_silent c) = task_queue c"
  "connected (FinishClose_silent c) = connected c" "g_race (FinishClose_silent c) = g_race c"
  "buffer_bytes (recv_buffer (FinishClose_silent c)) = []" "buffer_bytes (send_buffer (FinishClose_silent c)) = []"
  "buffer_inv (recv_buffer (FinishClose_silent c))" "buffer_inv (send_buffer (FinishClose_silent c))"
  "g_trace (FinishClose_silent c) = g_trace c" "g_rx (FinishClose_silent c) = g_rx c" "g_tx (FinishClose_silent c) = g_tx c"
  "opts (FinishClose_silent c) = opts c" "has_handler (FinishClose_silent c) = has_handler c"
  "owner_closing (FinishClose_silent c) = owner_closing c" "accepting_tasks (FinishClose_silent c) = accepting_tasks c"
  "g_close (FinishClose_silent c) = g_close c" "g_fault (FinishClose_silent c) = g_fault c"
  "deferred_close_pending (FinishClose_silent c) = False" "pending_bytes (FinishClose_silent c) = 0"
  "draining (FinishClose_silent c) = draining c" "drain_jobs (FinishClose_silent c) = drain_jobs c"
  "queued_tasks (FinishClose_silent c) = queued_tasks c"
  by (simp_all add: close_defs)

lemma FinishClose_silent_unregistered:
  "closable c \<Longrightarrow> \<not> valid (conn_id (FinishClose_silent c)) \<and> \<not> IsValidSocketHandle (fd (FinishClose_silent c))"
  by (auto simp: closable_def close_defs ConnectionId_none_def valid_def InvalidSocketHandle_def IsValidSocketHandle_def)

lemma good_FinishClose_silent:
  assumes "closable c" "\<not> connected c"
  shows "good (FinishClose_silent c)"
  using assms FinishClose_silent_unregistered [OF assms(1)]
  by (auto simp: good_def conn_core_def interest_ok_def queue_shape_def closable_def)

lemma goodI_race: "g_race c \<Longrightarrow> frame c c' \<Longrightarrow> good c'"
  by (simp add: good_def frame_def)

lemma good_closable: "conn_core c \<Longrightarrow> queue_ok c \<Longrightarrow> valid (conn_id c) \<Longrightarrow> closable c"
  by (auto simp: conn_core_def closable_def queue_shape_def split: if_splits)

lemma good_Connect:
  assumes g: "good c" and open_: "\<not> owner_closing c"
  shows "good (snd (Connect h ans c))"
proof (cases "g_race c")
  case True
  then show ?thesis by (rule goodI_race) simp
next
  case False
  let ?c = "c\<lparr>state := kConnecting, connected := False,
    g_race := g_race c \<or> TaskDisconnect \<in> set (task_queue c)\<rparr>"
  have "good (Post t ?c)" if idle: "state c = kIdle" and t: "is_connect t" for t
  proof -
    have "task_ok t" using t by (cases t) auto
    moreover have "no_connect (task_queue c)"
      using g False idle by (auto simp: good_def queue_shape_def split: if_splits)
    ultimately show ?thesis
      using g False idle t open_
      by (auto simp: good_def conn_core_def interest_ok_def Post_queue queue_shape_def one_connect_snoc)
  qed
  then show ?thesis
    using g by (auto simp: Connect_def Let_def split: prod.splits option.splits list.splits)
qed

lemma good_release:
  assumes g: "good c" and quiet: "state c = kConnected \<or> state c = kIdle \<or> state c = kConnecting"
  shows "good (CloseFromOwner_draining c)"
proof (cases "g_race c")
  case True
  have "frame c (app_call_in_callback AppRelease c)" by (rule frame_app_call)
  then show ?thesis using goodI_race [OF True] by simp
next
  case False
  let ?c = "DrainTaskQueue (begin_release c)"
  have ok: "conn_core c" using g False by (simp add: good_def)
  show ?thesis
  proof (cases "state c = kIdle")
    case True
    then have "StartClose_silent ?c = ?c"
      by (simp add: StartClose_silent_def begin_close_def DrainTaskQueue_eq begin_release_def)
    then show ?thesis
      using ok True by (auto simp: CloseFromOwner_draining_def good_def conn_core_def interest_ok_def
          queue_shape_def DrainTaskQueue_eq begin_release_def)
  next
    case False
    let ?d = "?c\<lparr>state := kClosing, connected := False, connect_deadline_ms := 0, g_close := Some kRelease\<rparr>"
    have "CloseFromOwner_draining c = FinishClose_silent ?d"
      using quiet False
      by (auto simp: CloseFromOwner_draining_def StartClose_silent_def begin_close_def DrainTaskQueue_eq begin_release_def)
    moreover have "closable ?d"
      using ok by (simp add: closable_def conn_core_def DrainTaskQueue_eq begin_release_def)
    ultimately show ?thesis by (simp add: good_FinishClose_silent)
  qed
qed

lemma good_app_call:
  assumes g: "good c" and open_: "\<not> owner_closing c"
  shows "good (app_call_in_callback a c)"
proof (cases a)
  case AppRelease
  show ?thesis
  proof (cases "g_race c")
    case True
    then show ?thesis by (rule goodI_race) simp
  next
    case False
    then have "state c \<noteq> kClosing" using g by (simp add: good_def conn_core_def)
    then show ?thesis using good_release [OF g] AppRelease by (cases "state c") auto
  qed
qed (auto simp: good_Connect [OF g open_] good_Post g Disconnect_def ClientConnection_SendBuffer_def)

lemma good_app_calls: "good c \<Longrightarrow> good (app_calls_in_callback as c)"
  by (induction as arbitrary: c) (auto simp: good_app_call)

lemma good_invoke: "good c \<Longrightarrow> good (invoke e cb c)"
  unfolding invoke_def Let_def
  by (rule good_app_calls) (simp add: good_def conn_core_def interest_ok_def session_ok_def)

lemma good_FinishClose:
  assumes "closable c" "\<not> connected c"
  shows "good (FinishClose e notify r d c)"
  using good_FinishClose_silent [OF assms] by (simp add: FinishClose_def Let_def good_invoke)

text \<open>A close request finds nothing to close, or it leaves a connection that satisfies the invariant.\<close>

lemma StartClose_idle: "state c = kIdle \<Longrightarrow> StartClose e r d c = c"
  by (simp add: StartClose_def begin_close_def)

lemma good_StartClose:
  assumes "g_race c \<or> closable c" "state c = kConnecting \<or> state c = kConnected"
  shows "good (StartClose e r d c)"
proof (cases "g_race c")
  case True
  then show ?thesis by (rule goodI_race) simp
next
  case False
  let ?c = "c\<lparr>state := kClosing, connected := False, connect_deadline_ms := 0, g_close := Some r\<rparr>"
  have "closable ?c" using assms False by (simp add: closable_def)
  then show ?thesis
    using assms(2) by (auto simp: StartClose_def begin_close_def good_FinishClose)
qed

lemma StartClose_release: "StartClose e kRelease [] c = StartClose_silent c"
  by (simp add: StartClose_def StartClose_silent_def FinishClose_def close_notifies_def split: option.splits)

subsection \<open>Writing\<close>

text \<open>The invariant without the write interest, which is adjusted last.\<close>

definition almost :: "ClientConnection \<Rightarrow> bool" where
  "almost c \<longleftrightarrow> g_race c \<or> conn_core c \<and> queue_ok c \<and> state c = kConnected"

lemma good_almost: "good c \<Longrightarrow> g_race c \<or> state c = kConnected \<Longrightarrow> almost c"
  by (auto simp: good_def almost_def)

lemma almost_closable: "almost c \<Longrightarrow> g_race c \<or> closable c"
  using good_closable by (auto simp: almost_def conn_core_def session_ok_def)

lemma good_StartClose_almost: "almost c \<Longrightarrow> good (StartClose e r d c)"
proof -
  assume a: "almost c"
  show ?thesis
  proof (cases "g_race c")
    case True
    then show ?thesis by (rule goodI_race) simp
  next
    case False
    then show ?thesis using a almost_closable [OF a] by (auto simp: almost_def intro: good_StartClose)
  qed
qed

lemma frame_rt [simp]: "frame c (c\<lparr>rt := n\<rparr>)"
  by (simp add: frame_def)

lemma frame_UpdateWriteInterest [simp]: "frame c (UpdateWriteInterest e c)"
proof -
  have "frame c (snd (PlatformStartSend e c))"
    by (auto simp: PlatformStartSend_def Let_def frame_def split: prod.splits option.splits)
  then show ?thesis
    by (auto simp: UpdateWriteInterest_def split: prod.splits option.splits intro: frame_trans)
qed

lemma frame_rt_left [simp]: "frame (c\<lparr>rt := n\<rparr>) d \<longleftrightarrow> frame c d"
  by (simp add: frame_def)

lemma frame_rt_then [simp]:
  "frame c (UpdateWriteInterest e (c\<lparr>rt := n\<rparr>))" "frame c (StartClose e r d (c\<lparr>rt := n\<rparr>))"
  using frame_UpdateWriteInterest [of "c\<lparr>rt := n\<rparr>" e] frame_StartClose [of "c\<lparr>rt := n\<rparr>" e r d]
  by (simp_all only: frame_rt_left)

lemma almost_rt: "almost c \<Longrightarrow> poll_regs n = poll_regs (rt c) \<Longrightarrow> almost (c\<lparr>rt := n\<rparr>)"
  by (auto simp: almost_def conn_core_def session_ok_def)

lemma good_UpdateWriteInterest:
  assumes a: "almost c"
  shows "good (UpdateWriteInterest e c)"
proof (cases "g_race c")
  case True
  then show ?thesis by (rule goodI_race) simp
next
  case False
  let ?want = "wanted_interest (send_buffer c)"
  have ok: "conn_core c" "queue_ok c" "state c = kConnected" using a False by (auto simp: almost_def)
  then have reg: "valid (conn_id c)" "IsValidSocketHandle (fd c)" by (auto simp: conn_core_def session_ok_def)
  have want: "(if SliceBuffer_Empty (send_buffer c) then kPollReadable else kPollReadable OR kPollWritable) = ?want"
    using ok(1) by (auto simp: conn_core_def wanted_interest_def buf.is_empty_content)
  show ?thesis
  proof (cases "?want = poll_interest c")
    case True
    then show ?thesis
      using ok reg want by (auto simp: UpdateWriteInterest_def PlatformStartSend_def Let_def good_def interest_ok_def)
  next
    case False
    obtain r n where m: "Poller_Modify (fd c) (conn_id c) ?want (rt c) = (r, n)" by fastforce
    show ?thesis
    proof (cases r)
      case None
      then have "poll_regs n (fd c) = Some (conn_id c, ?want)"
        using m by (auto simp: Poller_Modify_def Poller_Add_def split: prod.splits)
      then show ?thesis
        using ok reg want False m None
        by (auto simp: UpdateWriteInterest_def PlatformStartSend_def Let_def good_def interest_ok_def
            conn_core_def session_ok_def)
    next
      case (Some err)
      then have "poll_regs n = poll_regs (rt c)"
        using m by (auto simp: Poller_Modify_def Poller_Add_def split: prod.splits)
      then show ?thesis
        using good_StartClose_almost [OF almost_rt [OF a]] reg want False m Some
        by (simp add: UpdateWriteInterest_def PlatformStartSend_def Let_def)
    qed
  qed
qed

lemma good_send_task:
  assumes g: "good c"
  shows "good (send_task e msg c)"
proof (cases "connected c \<and> \<not> g_race c")
  case False
  have "frame c (c\<lparr>pending_bytes := p, send_buffer := b, g_accepted := a\<rparr>)" for p b a by (simp add: frame_def)
  then have "frame c (send_task e msg c)"
    by (auto simp: send_task_def intro: frame_trans [OF _ frame_UpdateWriteInterest])
  then show ?thesis using False g goodI_race by (auto simp: send_task_def IsConnected_def)
next
  case True
  let ?c = "c\<lparr>pending_bytes := pending_bytes c + of_nat (length msg),
    send_buffer := AddSlice msg (send_buffer c), g_accepted := g_accepted c @ msg\<rparr>"
  have "conn_core c" "queue_ok c" "state c = kConnected"
    using g True by (auto simp: good_def conn_core_def)
  then have "almost ?c"
    by (auto simp: almost_def conn_core_def session_ok_def buf.inv_add buf.content_add)
  then show ?thesis using True by (simp add: send_task_def IsConnected_def good_UpdateWriteInterest)
qed

lemma move_header_ok:
  assumes "buffer_inv b" "n \<le> length (buffer_bytes b)"
  shows "\<exists>b'. move_header n b = (False, True, b') \<and> buffer_inv b' \<and> buffer_bytes b' = drop n (buffer_bytes b)"
  using buf.move_content [OF assms] by (auto simp: move_header_def)

lemma frame_account_sent [simp]: "frame c (account_sent d c)"
  by (auto simp: account_sent_def frame_def split: prod.splits)

lemma almost_account_sent:
  assumes a: "almost c" and d: "buffer_bytes (send_buffer c) = d @ rest"
  shows "almost (account_sent d c)"
proof (cases "g_race c")
  case True
  then show ?thesis using frame_account_sent [of c d] by (simp add: almost_def frame_def)
next
  case False
  then have ok: "conn_core c" "queue_ok c" "state c = kConnected" using a by (auto simp: almost_def)
  obtain b where "move_header (length d) (send_buffer c) = (False, True, b)" "buffer_inv b" "buffer_bytes b = rest"
    using move_header_ok [of "send_buffer c" "length d"] ok(1) d by (auto simp: conn_core_def)
  then show ?thesis
    using ok d by (auto simp: almost_def account_sent_def conn_core_def session_ok_def)
qed

lemma front_prefix:
  assumes "buffer_inv b" "\<not> SliceBuffer_Empty b"
  shows "\<exists>rest. buffer_bytes b = sent_bytes (case Front b of Some s \<Rightarrow> s | None \<Rightarrow> []) n @ rest"
proof -
  obtain s ss where "ds b = s # ss" using assms(2) by (cases "ds b") (auto simp: SliceBuffer_Empty_def)
  then show ?thesis
    by (auto simp: Front_def sent_bytes_def buffer_bytes_def intro: exI [of _ "drop n s @ concat ss"])
qed

lemma frame_write_loop [simp]: "frame c (write_loop e as n c)"
proof (induction e as n c rule: write_loop.induct)
  case (2 e a as n c)
  show ?case
  proof (cases a)
    case (Inr k)
    then show ?thesis
      using "2.IH"(2) [OF _ refl Inr refl] by (auto simp: Let_def intro: frame_trans [OF frame_account_sent])
  qed (use "2.IH"(1) in \<open>auto simp: Let_def\<close>)
qed simp

lemma good_write_loop: "almost c \<Longrightarrow> good (write_loop e as n c)"
proof (induction e as n c rule: write_loop.induct)
  case (1 e n c)
  then show ?case by (simp add: good_UpdateWriteInterest almost_rt)
next
  case (2 e a as n c)
  have upd: "good (UpdateWriteInterest e (c\<lparr>rt := (rt c)\<lparr>os_send := s\<rparr>\<rparr>))" for s
    using "2.prems" by (simp add: good_UpdateWriteInterest almost_rt)
  show ?case
  proof (cases "\<not> n < kMaxWriteBytesPerEvent \<or> SliceBuffer_Empty (send_buffer c)")
    case True
    then show ?thesis using upd by auto
  next
    case False
    let ?front = "case Front (send_buffer c) of Some s \<Rightarrow> s | None \<Rightarrow> []"
    show ?thesis
    proof (cases a)
      case (Inl errno)
      then show ?thesis
        using False "2.prems" "2.IH"(1) [OF False refl Inl]
        by (auto simp: upd good_StartClose_almost almost_rt)
    next
      case (Inr k)
      let ?d = "sent_bytes ?front k"
      have "almost (account_sent ?d c)"
      proof (cases "g_race c")
        case True
        then show ?thesis using frame_account_sent [of c ?d] by (simp add: almost_def frame_def)
      next
        case nr: False
        then have "buffer_inv (send_buffer c)" using "2.prems" by (simp add: almost_def conn_core_def)
        then show ?thesis using front_prefix [of "send_buffer c" k] False almost_account_sent [OF "2.prems"] by auto
      qed
      then show ?thesis
        using False "2.IH"(2) [OF False refl Inr refl] Inr by (auto simp: upd Let_def)
    qed
  qed
qed

subsection \<open>Callbacks\<close>

text \<open>
  A callback after which the connection is still established has not touched its input and
  output, whatever the application did in it.
\<close>

definition same_io :: "ClientConnection \<Rightarrow> ClientConnection \<Rightarrow> bool" where
  "same_io c c' \<longleftrightarrow> state c' = state c \<and> connected c' = connected c \<and> conn_id c' = conn_id c \<and> fd c' = fd c \<and>
     recv_buffer c' = recv_buffer c \<and> send_buffer c' = send_buffer c \<and> rt c' = rt c \<and>
     g_rx c' = g_rx c \<and> g_tx c' = g_tx c \<and> g_accepted c' = g_accepted c \<and> g_close c' = g_close c \<and>
     g_fault c' = g_fault c \<and> deferred_close_pending c' = deferred_close_pending c \<and>
     deferred_close_reason c' = deferred_close_reason c \<and>
     parse_continuation_pending c' = parse_continuation_pending c"

lemma same_io_refl [simp]: "same_io c c"
  by (simp add: same_io_def)

lemma same_io_trans: "same_io a b \<Longrightarrow> same_io b c \<Longrightarrow> same_io a c"
  by (simp add: same_io_def)

lemma same_io_Post [simp]: "same_io c (Post t c)"
  by (simp add: same_io_def)

lemma same_io_release: "connected (CloseFromOwner_draining c) \<Longrightarrow> same_io c (CloseFromOwner_draining c)"
  by (auto simp: CloseFromOwner_draining_def StartClose_silent_def begin_close_def DrainTaskQueue_eq
      begin_release_def same_io_def split: if_splits)

lemma same_io_app_call: "connected (app_call_in_callback a c) \<Longrightarrow> same_io c (app_call_in_callback a c)"
proof (cases a)
  case (AppConnect h ans)
  then show "connected (app_call_in_callback a c) \<Longrightarrow> ?thesis"
    by (auto simp: Connect_def Let_def split: if_splits prod.splits option.splits list.splits)
qed (auto simp: Disconnect_def ClientConnection_SendBuffer_def same_io_release split: if_splits)

lemma connected_app_calls: "connected (app_calls_in_callback as c) \<Longrightarrow> connected c"
proof (induction as arbitrary: c)
  case (Cons a as)
  then show ?case using same_io_app_call [of a c] by (auto simp: same_io_def split: if_splits)
qed simp

lemma same_io_app_calls: "connected (app_calls_in_callback as c) \<Longrightarrow> same_io c (app_calls_in_callback as c)"
proof (induction as arbitrary: c)
  case (Cons a as)
  show ?case
  proof (cases "owner_closing c")
    case False
    then have "connected (app_calls_in_callback as (app_call_in_callback a c))" using Cons.prems by simp
    then show ?thesis
      using same_io_trans [OF same_io_app_call [OF connected_app_calls] Cons.IH] False by simp
  qed simp
qed simp

lemma same_io_invoke: "connected (invoke e cb c) \<Longrightarrow> same_io c (invoke e cb c)"
  using same_io_app_calls [of "app e (g_trace c @ [cb])" "c\<lparr>g_trace := g_trace c @ [cb]\<rparr>"]
  by (auto simp: invoke_def Let_def same_io_def)

lemma trace_app_call [simp]: "g_trace (app_call_in_callback a c) = g_trace c"
  by (cases a) (auto simp: Connect_def Disconnect_def ClientConnection_SendBuffer_def Let_def CloseFromOwner_draining_def
      StartClose_silent_def begin_close_def DrainTaskQueue_eq begin_release_def
      split: prod.splits option.splits list.splits)

lemma trace_app_calls [simp]: "g_trace (app_calls_in_callback as c) = g_trace c"
  by (induction as arbitrary: c) auto

lemma trace_invoke [simp]: "g_trace (invoke e cb c) = g_trace c @ [cb]"
  by (simp add: invoke_def Let_def)

subsection \<open>Parsing\<close>

lemma parse_loop_step:
  obtains (stop) "parse_loop e cod merged off ms (Suc left) c = (ParseStop, off, ms, c)"
      "off < length merged \<Longrightarrow> \<exists>n. Codec_Decode (size_max e) cod (drop off merged) = Some (kNeedMoreData, n)"
    | (fault) "parse_loop e cod merged off ms (Suc left) c = (ParseFault, off, ms, c)" "off < length merged"
      "Codec_Decode (size_max e) cod (drop off merged) = None"
    | (error) r n where "parse_loop e cod merged off ms (Suc left) c = (ParseError, off, ms, c)" "off < length merged"
      "Codec_Decode (size_max e) cod (drop off merged) = Some (r, n)" "r \<noteq> kNeedMoreData"
      "r = kDecodeError \<or> n = 0 \<or> n > length merged - off"
    | (frame) n where "off < length merged" "Codec_Decode (size_max e) cod (drop off merged) = Some (kSuccess, n)"
      "0 < n" "off + n \<le> length merged"
      "parse_loop e cod merged off ms (Suc left) c =
        (let c' = invoke e (OnMessage (take n (drop off merged))) c
         in if connected c' then parse_loop e cod merged (off + n) (Suc ms) left c' else (ParseGone, off, ms, c'))"
proof (cases "off < length merged")
  case False
  then show ?thesis by (intro stop) auto
next
  case True
  show ?thesis
  proof (cases "Codec_Decode (size_max e) cod (drop off merged)")
    case None
    then show ?thesis using True by (intro fault) auto
  next
    case (Some rc)
    obtain r n where rc: "rc = (r, n)" by (cases rc)
    consider "r = kNeedMoreData" | "r \<noteq> kNeedMoreData" "r = kDecodeError \<or> n = 0 \<or> n > length merged - off"
      | "r = kSuccess" "0 < n" "n \<le> length merged - off" by (cases r) force+
    then show ?thesis
    proof cases
      case 1
      then show ?thesis using True Some rc by (intro stop) auto
    next
      case 2
      then show ?thesis using True Some rc by (intro error [of r n]) auto
    next
      case 3
      then show ?thesis using True Some rc by (intro frame [of n]) (auto simp: Let_def IsConnected_def)
    qed
  qed
qed

lemma frame_parse_loop:
  "parse_loop e cod merged off ms left c = (r, off', ms', c') \<Longrightarrow> frame c c'"
proof (induction left arbitrary: off ms c)
  case (Suc left)
  show ?case
  proof (cases rule: parse_loop_step [of e cod merged off ms left c])
    case (frame n)
    then show ?thesis
      using Suc by (auto simp: Let_def split: if_splits intro: frame_trans [OF frame_invoke])
  qed (use Suc.prems in auto)
qed simp

lemma good_parse_loop:
  "parse_loop e cod merged off ms left c = (r, off', ms', c') \<Longrightarrow> good c \<Longrightarrow> good c'"
proof (induction left arbitrary: off ms c)
  case (Suc left)
  show ?case
  proof (cases rule: parse_loop_step [of e cod merged off ms left c])
    case (frame n)
    then show ?thesis
      using Suc.prems Suc.IH good_invoke [OF Suc.prems(2)] by (auto simp: Let_def split: if_splits)
  qed (use Suc.prems in auto)
qed simp

text \<open>While the loop goes on, the connection stays established and the offset inside the input.\<close>

lemma parse_loop_progress:
  "parse_loop e cod merged off ms left c = (r, off', ms', c') \<Longrightarrow> r \<noteq> ParseGone \<Longrightarrow> connected c \<Longrightarrow>
   off \<le> length merged \<Longrightarrow> same_io c c' \<and> off' \<le> length merged \<and> (r = ParseStop \<or> off' < length merged)"
proof (induction left arbitrary: off ms c)
  case (Suc left)
  show ?case
  proof (cases rule: parse_loop_step [of e cod merged off ms left c])
    case (frame n)
    let ?c = "invoke e (OnMessage (take n (drop off merged))) c"
    have con: "connected ?c" using frame(5) Suc.prems(1,2) by (auto simp: Let_def split: if_splits)
    have "parse_loop e cod merged (off + n) (Suc ms) left ?c = (r, off', ms', c')"
      using frame(5) Suc.prems(1) con by (simp add: Let_def)
    from Suc.IH [OF this Suc.prems(2) con] show ?thesis
      using frame(4) same_io_trans [OF same_io_invoke [OF con]] by blast
  qed (use Suc.prems in auto)
qed simp

lemma parse_loop_gone:
  "parse_loop e cod merged off ms left c = (ParseGone, off', ms', c') \<Longrightarrow> \<not> connected c'"
proof (induction left arbitrary: off ms c)
  case (Suc left)
  show ?case
  proof (cases rule: parse_loop_step [of e cod merged off ms left c])
    case (frame n)
    then show ?thesis using Suc by (auto simp: Let_def split: if_splits)
  qed (use Suc.prems in auto)
qed simp

lemmas good_unfold = good_def conn_core_def interest_ok_def session_ok_def

text \<open>Fields that the invariant does not mention.\<close>

lemma good_irrelevant [simp]:
  "good (c\<lparr>parse_continuation_pending := b\<rparr>) = good c" "good (c\<lparr>drain_yield_requested := b\<rparr>) = good c"
  "good (c\<lparr>deferred_close_pending := b\<rparr>) = good c" "good (c\<lparr>deferred_close_reason := r\<rparr>) = good c"
  "good (c\<lparr>deferred_close_desc := d\<rparr>) = good c" "good (c\<lparr>g_fault := b\<rparr>) = good c"
  "good (c\<lparr>draining := b\<rparr>) = good c" "good (c\<lparr>drain_jobs := k\<rparr>) = good c" "good (c\<lparr>queued_tasks := k\<rparr>) = good c"
  by (simp_all add: good_unfold)

lemma good_ScheduleDrain [simp]: "good (ScheduleDrain c) = good c"
  by (simp add: ScheduleDrain_def)

lemma good_StartClose_connected:
  assumes "good c" "g_race c \<or> connected c"
  shows "good (StartClose e r d c)"
proof -
  have "almost c" using assms by (auto simp: good_def almost_def conn_core_def)
  then show ?thesis by (rule good_StartClose_almost)
qed

lemma frame_FinishDeferredClose [simp]: "frame c (FinishDeferredClose e c)"
proof -
  have "frame c (c\<lparr>deferred_close_pending := False, deferred_close_desc := []\<rparr>)" by (simp add: frame_def)
  then show ?thesis by (auto simp: FinishDeferredClose_def Let_def intro: frame_trans)
qed

lemma good_FinishDeferredClose: "good c \<Longrightarrow> g_race c \<or> connected c \<Longrightarrow> good (FinishDeferredClose e c)"
  by (auto simp: FinishDeferredClose_def Let_def good_StartClose_connected)

lemma frame_simple [simp]:
  "frame c (c\<lparr>parse_continuation_pending := b\<rparr>)" "frame c (c\<lparr>g_fault := True\<rparr>)"
  "frame c (c\<lparr>drain_yield_requested := b\<rparr>)"
  by (simp_all add: frame_def)

lemma frame_ScheduleParseContinuation [simp]: "frame c (ScheduleParseContinuation c)"
  by (auto simp: ScheduleParseContinuation_def intro: frame_trans [OF frame_simple(1) frame_Post])

lemma good_ScheduleParseContinuation: "good c \<Longrightarrow> good (ScheduleParseContinuation c)"
  by (simp add: ScheduleParseContinuation_def good_Post)

lemma finish_parse_result:
  "snd (finish_parse e off ms c) =
     (case (if off > 0 then move_header off (recv_buffer c) else (False, True, recv_buffer c)) of (bad, ok, b) \<Rightarrow>
        let c = c\<lparr>recv_buffer := b, g_fault := g_fault c \<or> bad\<rparr>
        in if \<not> ok then StartClose e kError ''protocol buffer state error'' c
           else if ms \<ge> kParseMessageBudget \<and> GetBufferLength (recv_buffer c) > 0 \<and> IsConnected c
                then (ScheduleParseContinuation c)\<lparr>drain_yield_requested := True\<rparr>
           else FinishDeferredClose e c)"
  by (simp add: finish_parse_def Let_def split: prod.splits)

lemma frame_finish_parse: "frame c (snd (finish_parse e off ms c))"
proof -
  have b: "frame c (c\<lparr>recv_buffer := b, g_fault := g_fault c \<or> bad\<rparr>)" for b bad by (simp add: frame_def)
  show ?thesis
    unfolding finish_parse_result Let_def
    by (auto split: prod.splits
        intro: frame_trans [OF b frame_StartClose] frame_trans [OF b frame_FinishDeferredClose]
          frame_trans [OF frame_ScheduleParseContinuation frame_simple(3)]
          frame_trans [OF frame_trans [OF b frame_ScheduleParseContinuation] frame_simple(3)])
qed

lemma good_move_recv:
  assumes "good c" "connected c" "\<not> g_race c" "off \<le> length (buffer_bytes (recv_buffer c))"
  shows "\<exists>b. (if off > 0 then move_header off (recv_buffer c) else (False, True, recv_buffer c)) = (False, True, b) \<and>
    buffer_inv b \<and> buffer_bytes b = drop off (buffer_bytes (recv_buffer c)) \<and> good (c\<lparr>recv_buffer := b\<rparr>)"
proof -
  have inv: "buffer_inv (recv_buffer c)" using assms by (auto simp: good_def conn_core_def)
  obtain b where b: "(if off > 0 then move_header off (recv_buffer c) else (False, True, recv_buffer c)) = (False, True, b)"
      "buffer_inv b" "buffer_bytes b = drop off (buffer_bytes (recv_buffer c))"
    using move_header_ok [OF inv assms(4)] inv by (cases "off > 0") auto
  moreover have "good (c\<lparr>recv_buffer := b\<rparr>)"
    using assms b(2) by (auto simp: good_unfold)
  ultimately show ?thesis by blast
qed

lemma good_finish_parse:
  assumes g: "good c" and con: "g_race c \<or> connected c"
    and off: "connected c \<Longrightarrow> \<not> g_race c \<Longrightarrow> off \<le> length (buffer_bytes (recv_buffer c))"
  shows "good (snd (finish_parse e off ms c))"
proof (cases "g_race c")
  case True
  then show ?thesis by (rule goodI_race) (rule frame_finish_parse)
next
  case False
  then have "connected c" using con by simp
  from good_move_recv [OF g this False off [OF this False]]
  obtain b where b: "(if off > 0 then move_header off (recv_buffer c) else (False, True, recv_buffer c)) = (False, True, b)"
      "good (c\<lparr>recv_buffer := b\<rparr>)" by blast
  then show ?thesis
    using \<open>connected c\<close> unfolding finish_parse_result b(1)
    by (auto simp: Let_def good_ScheduleParseContinuation good_FinishDeferredClose)
qed

lemma ParseInput_result:
  "snd (ParseInput e c) =
     (let c = c\<lparr>parse_continuation_pending := False\<rparr>
      in case codec (opts c) of
           None \<Rightarrow> FinishDeferredClose e c
         | Some cod \<Rightarrow>
             if \<not> has_handler c \<or> GetBufferLength (recv_buffer c) = 0 then FinishDeferredClose e c
             else case Merge (fresh_byte e) (recv_buffer c) of
                    None \<Rightarrow> c\<lparr>g_fault := True\<rparr>
                  | Some merged \<Rightarrow>
                      (case parse_loop e cod merged 0 0 kParseMessageBudget c of
                         (ParseFault, offset, messages, c) \<Rightarrow> c\<lparr>g_fault := True\<rparr>
                       | (ParseError, offset, messages, c) \<Rightarrow> StartClose e kError ''protocol decode error'' c
                       | (ParseGone, offset, messages, c) \<Rightarrow> c
                       | (ParseStop, offset, messages, c) \<Rightarrow> snd (finish_parse e offset messages c)))"
  by (simp add: ParseInput_def Let_def split: option.splits prod.splits parse_end.splits)

lemma frame_ParseInput: "frame c (snd (ParseInput e c))"
proof -
  let ?c = "c\<lparr>parse_continuation_pending := False\<rparr>"
  have "frame ?c (snd (ParseInput e c))"
    unfolding ParseInput_result Let_def
    by (auto split: option.splits prod.splits parse_end.splits dest!: frame_parse_loop
        intro: frame_trans [OF _ frame_simple(2)] frame_trans [OF _ frame_StartClose] frame_trans [OF _ frame_finish_parse])
  then show ?thesis by (rule frame_trans [OF frame_simple(1)])
qed

lemma good_ParseInput:
  assumes g: "good c" and con: "g_race c \<or> connected c"
  shows "good (snd (ParseInput e c))"
proof (cases "g_race c")
  case True
  then show ?thesis by (rule goodI_race) (rule frame_ParseInput)
next
  case False
  let ?c = "c\<lparr>parse_continuation_pending := False\<rparr>"
  have inv: "buffer_inv (recv_buffer c)" and cc: "connected c" using g con False by (auto simp: good_def conn_core_def)
  show ?thesis
  proof (cases "codec (opts c) \<noteq> None \<and> has_handler c \<and> GetBufferLength (recv_buffer c) \<noteq> 0")
    case False
    then show ?thesis
      using g con by (auto simp: ParseInput_result Let_def good_FinishDeferredClose split: option.splits)
  next
    case True
    then obtain cod where cod: "codec (opts c) = Some cod" by auto
    let ?m = "buffer_bytes (recv_buffer c)"
    obtain r off ms c' where l: "parse_loop e cod ?m 0 0 kParseMessageBudget ?c = (r, off, ms, c')"
      using prod_cases4 by blast
    have g': "good c'" using good_parse_loop [OF l] g by simp
    have io: "same_io ?c c' \<and> off \<le> length ?m" if "r \<noteq> ParseGone"
      using parse_loop_progress [OF l that] cc by simp
    have "snd (ParseInput e c) = (case r of ParseFault \<Rightarrow> c'\<lparr>g_fault := True\<rparr>
        | ParseError \<Rightarrow> StartClose e kError ''protocol decode error'' c' | ParseGone \<Rightarrow> c'
        | ParseStop \<Rightarrow> snd (finish_parse e off ms c'))"
      using True cod l Merge_bytes [OF inv] by (simp add: ParseInput_result split: parse_end.splits)
    then show ?thesis
      using g' io cc by (cases r) (auto simp: same_io_def good_StartClose_connected good_finish_parse)
  qed
qed

subsection \<open>Reading\<close>

lemma good_rt: "good c \<Longrightarrow> poll_regs n (fd c) = poll_regs (rt c) (fd c) \<Longrightarrow> good (c\<lparr>rt := n\<rparr>)"
  by (auto simp: good_unfold)

lemma frame_account_received [simp]: "frame c (account_received d c)"
  by (simp add: account_received_def frame_def)

lemma good_account_received: "good c \<Longrightarrow> connected c \<Longrightarrow> good (account_received d c)"
  by (auto simp: good_unfold account_received_def buf.inv_add)

lemma account_received_fields [simp]:
  "connected (account_received d c) = connected c" "g_race (account_received d c) = g_race c"
  "rt (account_received d c) = rt c" "state (account_received d c) = state c"
  by (simp_all add: account_received_def)

lemma frame_read_loop: "frame c (snd (read_loop e as n c))"
proof (induction e as n c rule: read_loop.induct)
  case (2 e a as n c)
  show ?case
  proof (cases a)
    case (Inr bs)
    then show ?thesis
      using "2.IH"(2) [OF _ Inr refl] by (auto simp: Let_def intro: frame_trans [OF frame_account_received])
  qed (use "2.IH"(1) in \<open>auto simp: Let_def\<close>)
qed simp

lemma good_read_loop:
  "good c \<Longrightarrow> connected c \<Longrightarrow>
    good (snd (read_loop e as n c)) \<and> connected (snd (read_loop e as n c))"
proof (induction e as n c rule: read_loop.induct)
  case (2 e a as n c)
  have rt: "good (c\<lparr>rt := (rt c)\<lparr>os_recv := s\<rparr>\<rparr>)" for s using "2.prems"(1) by (simp add: good_rt)
  show ?case
  proof (cases a)
    case (Inl errno)
    then show ?thesis using "2.prems" "2.IH"(1) [OF _ Inl] rt by auto
  next
    case (Inr bs)
    then show ?thesis
      using "2.prems" "2.IH"(2) [OF _ Inr refl] rt good_account_received [OF "2.prems"] by (auto simp: Let_def)
  qed
qed (simp add: good_rt)

lemma parse_status_closed [simp]: "parse_status c \<noteq> kClosed \<longleftrightarrow> connected c"
  by (simp add: parse_status_def IsConnected_def)

lemma ScheduleParseContinuation_connected [simp]: "connected (ScheduleParseContinuation c) = connected c"
  by (simp add: ScheduleParseContinuation_def)

lemma finish_parse_status: "fst (finish_parse e off ms c) \<noteq> kClosed \<Longrightarrow> connected (snd (finish_parse e off ms c))"
proof -
  obtain bad ok b where m: "(if off > 0 then move_header off (recv_buffer c) else (False, True, recv_buffer c)) = (bad, ok, b)"
    by (rule prod_cases3)
  show "fst (finish_parse e off ms c) \<noteq> kClosed \<Longrightarrow> connected (snd (finish_parse e off ms c))"
    unfolding finish_parse_def m prod.case Let_def by (auto simp: IsConnected_def split: if_splits)
qed

lemma ParseInput_status:
  assumes "fst (ParseInput e c) \<noteq> kClosed"
  shows "connected (snd (ParseInput e c))"
proof (cases "codec (opts c)")
  case None
  then show ?thesis using assms by (simp add: ParseInput_def Let_def)
next
  case (Some cod)
  let ?c = "c\<lparr>parse_continuation_pending := False\<rparr>"
  show ?thesis
  proof (cases "\<not> has_handler c \<or> GetBufferLength (recv_buffer c) = 0 \<or> Merge (fresh_byte e) (recv_buffer c) = None")
    case True
    then show ?thesis using assms Some by (auto simp: ParseInput_def Let_def)
  next
    case False
    then obtain m where m: "Merge (fresh_byte e) (recv_buffer c) = Some m" by auto
    obtain r off ms c' where l: "parse_loop e cod m 0 0 kParseMessageBudget ?c = (r, off, ms, c')"
      using prod_cases4 by blast
    show ?thesis
      using assms False Some m l finish_parse_status [of e off ms c']
      by (cases r) (simp_all add: ParseInput_def Let_def)
  qed
qed

definition finish_readable :: "env \<Rightarrow> (CloseReason \<times> string) option \<Rightarrow> ParseStatus \<times> ClientConnection \<Rightarrow> ClientConnection" where
  "finish_readable e sc p =
     (case p of
        (kClosed, c) \<Rightarrow> c
      | (kYielded, c) \<Rightarrow>
          (case sc of None \<Rightarrow> c | Some (reason, desc) \<Rightarrow> DeferCloseUntilInputDrained reason desc c)
      | (kDone, c) \<Rightarrow> (case sc of None \<Rightarrow> c | Some (reason, desc) \<Rightarrow> StartClose e reason desc c))"

lemma PlatformHandleReadable_alt:
  "PlatformHandleReadable e c =
     (case read_loop e (os_recv (rt c)) 0 c of (sc, c) \<Rightarrow>
        finish_readable e sc (if GetBufferLength (recv_buffer c) > 0 then ParseInput e c else (kDone, c)))"
  by (simp add: PlatformHandleReadable_def finish_readable_def Let_def split: prod.splits ParseStatus.splits)

lemma frame_DeferClose [simp]: "frame c (DeferCloseUntilInputDrained r d c)"
  by (simp add: DeferCloseUntilInputDrained_def frame_def)

lemma frame_finish_readable: "frame (snd p) (finish_readable e sc p)"
  by (auto simp: finish_readable_def split: prod.splits ParseStatus.splits option.splits)

lemma frame_HandleReadable [simp]: "frame c (HandleReadable e c)"
proof -
  obtain sc c' where r: "read_loop e (os_recv (rt c)) 0 c = (sc, c')" by fastforce
  then have "frame c c'" using frame_read_loop [of c e "os_recv (rt c)" 0] by simp
  moreover have "frame c' (finish_readable e sc (if GetBufferLength (recv_buffer c') > 0 then ParseInput e c' else (kDone, c')))"
    using frame_finish_readable [of "ParseInput e c'" e sc] frame_finish_readable [of "(kDone, c')" e sc] frame_ParseInput [of c' e]
    by (auto intro: frame_trans)
  ultimately show ?thesis
    using r by (auto simp: HandleReadable_def PlatformHandleReadable_alt intro: frame_trans)
qed

lemma good_HandleReadable:
  assumes g: "good c" and con: "g_race c \<or> connected c"
  shows "good (HandleReadable e c)"
proof (cases "g_race c")
  case True
  then show ?thesis by (rule goodI_race) simp
next
  case False
  obtain sc c' where r: "read_loop e (os_recv (rt c)) 0 c = (sc, c')" by fastforce
  have c': "good c'" "connected c'"
    using good_read_loop [OF g, of e "os_recv (rt c)" 0] con False r by auto
  let ?p = "if GetBufferLength (recv_buffer c') > 0 then ParseInput e c' else (kDone, c')"
  have p: "good (snd ?p)" "fst ?p \<noteq> kClosed \<Longrightarrow> connected (snd ?p)"
    using c' good_ParseInput [OF c'(1)] ParseInput_status [of e c'] by auto
  have "good (finish_readable e sc q)" if "good (snd q)" "fst q \<noteq> kClosed \<Longrightarrow> connected (snd q)" for q
    using that by (auto simp: finish_readable_def DeferCloseUntilInputDrained_def good_StartClose_connected
        split: prod.splits ParseStatus.splits option.splits)
  from this [OF p] show ?thesis using r by (simp add: HandleReadable_def PlatformHandleReadable_alt)
qed

end
