(* ===== verification/Connection_Runs.thy ===== *)
theory Connection_Runs
  imports Connection_Invariants
begin

text \<open>
  The invariant through connecting, events, the task loop and whole runs of a connection.
\<close>

section \<open>Establishing the connection\<close>

lemma sys_option_regs [simp]: "poll_regs (snd (sys_option n)) = poll_regs n"
  by (simp add: sys_option_def split: prod.splits)

lemma sys_option_regs_eq: "sys_option n = (r, n') \<Longrightarrow> poll_regs n' = poll_regs n"
  using sys_option_regs [of n] by simp

lemma CloseSocket_regs [simp]: "poll_regs (snd (CloseSocket f n)) = poll_regs n"
  by (simp add: CloseSocket_def close_fd_def)

lemma ApplyTcpOptions_regs: "ApplyTcpOptions e t n = (r, n') \<Longrightarrow> poll_regs n' = poll_regs n"
  by (auto simp: ApplyTcpOptions_def SetNonBlocking_def SetCloseOnExec_def try_option_def
      split: prod.splits option.splits if_splits dest!: sys_option_regs_eq)

lemma PlatformOpenSocket_result:
  assumes "PlatformOpenSocket e o' n = (r, n')"
  shows "poll_regs n' = poll_regs n" "r = Inr f \<Longrightarrow> IsValidSocketHandle f"
  using assms
  by (auto simp: PlatformOpenSocket_def Let_def
      split: prod.splits sum.splits if_splits option.splits dest!: sys_option_regs_eq ApplyTcpOptions_regs)

lemma register_socket_fields [simp]:
  "fd (register_socket f c) = f" "state (register_socket f c) = state c" "connected (register_socket f c) = connected c"
  "task_queue (register_socket f c) = task_queue c" "poll_regs (rt (register_socket f c)) = poll_regs (rt c)"
  "recv_buffer (register_socket f c) = recv_buffer c" "send_buffer (register_socket f c) = send_buffer c"
  "pending_bytes (register_socket f c) = pending_bytes c" "g_race (register_socket f c) = g_race c"
  "accepting_tasks (register_socket f c) = accepting_tasks c" "owner_closing (register_socket f c) = owner_closing c"
  "g_trace (register_socket f c) = g_trace c" "g_rx (register_socket f c) = g_rx c" "g_close (register_socket f c) = g_close c"
  "g_fault (register_socket f c) = g_fault c" "opts (register_socket f c) = opts c" "has_handler (register_socket f c) = has_handler c"
  "os_recv (rt (register_socket f c)) = os_recv (rt c)"
  by (simp_all add: register_socket_def Let_def Poller_Wake_def split: prod.splits)

lemma frame_register_socket [simp]: "frame c (register_socket f c)"
  by (simp add: frame_def register_socket_def Let_def split: prod.splits)

lemma register_socket_valid [simp]: "valid (conn_id (register_socket f c))"
  by (simp add: register_socket_def Let_def Register_eq valid_def reg_gen_def)

text \<open>What holds while a connection attempt is under way and not yet reported.\<close>

definition attempt :: "ClientConnection \<Rightarrow> bool" where
  "attempt c \<longleftrightarrow> g_race c \<or> conn_core c \<and> queue_ok c \<and> state c = kConnecting \<and> valid (conn_id c)"

lemma attempt_good: "attempt c \<Longrightarrow> good c"
  by (auto simp: attempt_def good_def interest_ok_def)

lemma attempt_StartClose: "attempt c \<Longrightarrow> good (StartClose e r d c)"
proof (cases "g_race c")
  case True
  then show ?thesis by (rule goodI_race) simp
next
  case False
  then show "attempt c \<Longrightarrow> ?thesis"
    by (auto simp: attempt_def good_closable intro: good_StartClose)
qed

lemma Poller_Add_regs:
  "Poller_Add f cid i n = (r, n') \<Longrightarrow> poll_regs n' f = (case r of None \<Rightarrow> Some (cid, i) | Some err \<Rightarrow> poll_regs n f)"
  by (auto simp: Poller_Add_def split: prod.splits option.splits)

lemma attempt_update:
  assumes "attempt c"
  shows "attempt (c\<lparr>rt := n\<rparr>)" "attempt (c\<lparr>poll_interest := i\<rparr>)" "attempt (c\<lparr>connect_deadline_ms := d\<rparr>)"
  using assms by (auto simp: attempt_def conn_core_def)

lemma PlatformConnect_attempt:
  assumes a: "attempt c" and p: "PlatformConnect e c = (r, c')"
  shows "attempt c' \<and> frame c c'"
proof -
  have "attempt c'"
    using p a by (auto simp: PlatformConnect_def Let_def attempt_update split: prod.splits option.splits if_splits)
  moreover have "frame c c'"
    using p by (auto simp: PlatformConnect_def Let_def frame_def split: prod.splits option.splits if_splits)
  ultimately show ?thesis by blast
qed

lemma frame_PlatformAfterConnected: "frame c (snd (PlatformAfterConnected e c))"
  by (auto simp: PlatformAfterConnected_def Let_def frame_def split: prod.splits option.splits)

lemma frame_HandleConnected [simp]: "frame c (HandleConnected e c)"
proof -
  obtain r c' where p: "PlatformAfterConnected e (c\<lparr>connect_deadline_ms := 0\<rparr>) = (r, c')" by fastforce
  then have c': "frame c c'"
    using frame_PlatformAfterConnected [of "c\<lparr>connect_deadline_ms := 0\<rparr>" e] by (simp add: frame_def)
  let ?c = "c'\<lparr>state := kConnected, connected := True, g_rx := [], g_tx := [], g_accepted := [], g_close := None\<rparr>"
  have "frame c ?c" using c' by (simp add: frame_def)
  then show ?thesis
    using p c' by (auto simp: HandleConnected_def Let_def split: option.splits intro: frame_trans)
qed

lemma good_HandleConnected:
  assumes a: "attempt c"
  shows "good (HandleConnected e c)"
proof (cases "g_race c")
  case True
  then show ?thesis by (rule goodI_race) simp
next
  case False
  let ?c = "c\<lparr>connect_deadline_ms := 0, poll_interest := kPollReadable\<rparr>"
  have ok: "conn_core c" "queue_ok c" "state c = kConnecting" "valid (conn_id c)"
    using a False by (auto simp: attempt_def)
  obtain r n where p: "Poller_Add (fd c) (conn_id c) kPollReadable (rt c) = (r, n)" by fastforce
  show ?thesis
  proof (cases r)
    case (Some err)
    have "good (StartClose e kConnectFailed (FormatErrorMessage e err) (?c\<lparr>rt := n\<rparr>))"
      by (intro attempt_StartClose attempt_update a)
    then show ?thesis
      using p ok Some by (simp add: HandleConnected_def PlatformAfterConnected_def Poller_Modify_def Let_def)
  next
    case None
    let ?d = "?c\<lparr>rt := n, state := kConnected, connected := True, g_rx := [], g_tx := [], g_accepted := [],
      g_close := None\<rparr>"
    have "no_connect (task_queue c)"
      using ok by (auto simp: queue_shape_def split: if_splits)
    moreover have "poll_regs n (fd c) = Some (conn_id c, kPollReadable)"
      using Poller_Add_regs [OF p] None by simp
    ultimately have "good ?d"
      using ok by (auto simp: good_unfold queue_shape_def wanted_interest_def)
    then have "good (if has_handler ?d then invoke e OnConnected ?d else ?d)" by (simp add: good_invoke)
    then show ?thesis
      using p ok None by (simp add: HandleConnected_def PlatformAfterConnected_def Poller_Modify_def Let_def)
  qed
qed

lemma frame_ConnectResolved [simp]: "frame c (ConnectResolved e addr c)"
proof -
  obtain r n where o: "PlatformOpenSocket e (opts c) (rt c) = (r, n)" by fastforce
  show ?thesis
  proof (cases r)
    case (Inl err)
    then show ?thesis using o by (simp add: ConnectResolved_def)
  next
    case (Inr f)
    let ?c = "register_socket f (c\<lparr>rt := n\<rparr>)"
    obtain r' c' where p: "PlatformConnect e ?c = (r', c')" by fastforce
    have "frame c ?c" using frame_register_socket [of "c\<lparr>rt := n\<rparr>" f] by (simp only: frame_rt_left)
    moreover have "frame ?c c'"
      using p by (auto simp: PlatformConnect_def Let_def frame_def split: prod.splits option.splits if_splits)
    ultimately have "frame c c'" by (rule frame_trans)
    then show ?thesis
      using o Inr p by (auto simp: ConnectResolved_def split: connect_result.splits intro: frame_trans)
  qed
qed

lemma good_ConnectResolved:
  assumes "g_race c \<or> conn_core c \<and> state c = kConnecting \<and> \<not> valid (conn_id c) \<and> no_connect (task_queue c)"
  shows "good (ConnectResolved e addr c)"
proof (cases "g_race c")
  case True
  then show ?thesis by (rule goodI_race) simp
next
  case False
  then have ok: "conn_core c" "state c = kConnecting" "\<not> valid (conn_id c)" "no_connect (task_queue c)"
    using assms by auto
  obtain r n where o: "PlatformOpenSocket e (opts c) (rt c) = (r, n)" by fastforce
  show ?thesis
  proof (cases r)
    case (Inl err)
    have "closable (c\<lparr>rt := n\<rparr>)" using ok by (simp add: closable_def conn_core_def)
    then show ?thesis using o Inl ok good_StartClose [of "c\<lparr>rt := n\<rparr>"] by (simp add: ConnectResolved_def)
  next
    case (Inr f)
    have f: "IsValidSocketHandle f" using PlatformOpenSocket_result(2) [OF o] Inr by simp
    let ?c = "register_socket f (c\<lparr>rt := n\<rparr>)"
    have "attempt ?c" using ok f by (auto simp: attempt_def conn_core_def queue_shape_def)
    moreover obtain r' c' where p: "PlatformConnect e ?c = (r', c')" by fastforce
    ultimately have "attempt c'" using PlatformConnect_attempt by blast
    then show ?thesis
      using o Inr p
      by (auto simp: ConnectResolved_def attempt_StartClose good_HandleConnected attempt_good split: connect_result.splits)
  qed
qed

section \<open>Events\<close>

lemma PlatformFinishConnect_result:
  "PlatformFinishConnect e c = (r, c') \<Longrightarrow> \<exists>n. c' = c\<lparr>rt := n\<rparr> \<and> poll_regs n = poll_regs (rt c)"
  by (auto simp: PlatformFinishConnect_def Let_def split: prod.splits sum.splits if_splits)

lemma frame_HandleWritable [simp]: "frame c (HandleWritable e c)"
  by (simp add: HandleWritable_def PlatformHandleWritable_def)

lemma frame_handle_io_event [simp]: "frame c (handle_io_event e ev c)"
  by (auto simp: handle_io_event_def Let_def intro: frame_trans [OF frame_HandleReadable frame_HandleWritable])

lemma frame_handle_error_event [simp]: "frame c (handle_error_event e ev c)"
  by (auto simp: handle_error_event_def split: prod.splits option.splits dest!: PlatformFinishConnect_result)

lemma frame_HandlePollEvent [simp]: "frame c (HandlePollEvent e ev c)"
proof -
  obtain r c' where p: "PlatformFinishConnect e c = (r, c')" by fastforce
  then obtain n where c': "c' = c\<lparr>rt := n\<rparr>" using PlatformFinishConnect_result by blast
  have "frame c (HandleConnected e c')"
    using frame_HandleConnected [of c' e] unfolding c' by (simp only: frame_rt_left)
  then show ?thesis
    using p c'
    by (auto simp: HandlePollEvent_def HandleCompletion_def Let_def split: option.splits intro: frame_trans)
qed

lemma good_handle_io_event:
  assumes g: "good c" and con: "g_race c \<or> connected c"
  shows "good (handle_io_event e ev c)"
proof (cases "g_race c")
  case True
  then show ?thesis by (rule goodI_race) simp
next
  case False
  have w: "good (HandleWritable e d)" if "good d" "connected d" for d
  proof -
    have "almost d" using that by (auto simp: good_def almost_def conn_core_def)
    then show ?thesis by (simp add: HandleWritable_def PlatformHandleWritable_def good_write_loop)
  qed
  show ?thesis
    using g con False good_HandleReadable [OF g con]
    by (auto simp: handle_io_event_def Let_def IsConnected_def w)
qed

lemma good_connected_state: "good c \<Longrightarrow> \<not> g_race c \<Longrightarrow> connected c \<longleftrightarrow> state c = kConnected"
  by (simp add: good_def conn_core_def)

lemma good_attempt: "good c \<Longrightarrow> g_race c \<or> state c = kConnecting \<and> valid (conn_id c) \<Longrightarrow> attempt c"
  by (auto simp: good_def attempt_def)

lemma good_handle_error_event:
  assumes g: "good c" and st: "g_race c \<or> state c = kConnecting \<and> valid (conn_id c) \<or> state c = kConnected"
  shows "good (handle_error_event e ev c)"
proof (cases "g_race c")
  case True
  then show ?thesis by (rule goodI_race) simp
next
  case False
  show ?thesis
  proof (cases "state c = kConnecting")
    case True
    obtain r c' where p: "PlatformFinishConnect e c = (r, c')" by fastforce
    have "attempt c'"
      using PlatformFinishConnect_result [OF p] good_attempt [OF g] st True by (auto simp: attempt_update)
    then show ?thesis
      using p True by (auto simp: handle_error_event_def IsConnecting_def attempt_StartClose split: option.splits)
  next
    case nc: False
    then show ?thesis
      using g st False good_connected_state [OF g False]
      by (auto simp: handle_error_event_def IsConnecting_def good_StartClose_connected)
  qed
qed

lemma good_HandlePollEvent:
  assumes g: "good c" and v: "valid (ev_id ev)"
  shows "good (HandlePollEvent e ev c)"
proof (cases "g_race c")
  case True
  then show ?thesis by (rule goodI_race) simp
next
  case False
  show ?thesis
  proof (cases "ev_id ev \<noteq> conn_id c \<or> operation ev \<noteq> kPollOpReady \<or> state c = kIdle \<or> state c = kClosing")
    case True
    then show ?thesis using g by (auto simp: HandlePollEvent_def HandleCompletion_def)
  next
    case here: False
    then have v: "valid (conn_id c)" and st: "state c = kConnecting \<or> state c = kConnected"
      using v by (auto, cases "state c", auto)
    obtain r c' where p: "PlatformFinishConnect e c = (r, c')" by fastforce
    have a: "attempt c'" if "state c = kConnecting"
      using PlatformFinishConnect_result [OF p] good_attempt [OF g] v that by (auto simp: attempt_update)
    have io: "good (handle_io_event e ev (HandleConnected e c'))"
      if "state c = kConnecting" "connected (HandleConnected e c')"
      using good_handle_io_event [OF good_HandleConnected [OF a]] that by blast
    have rest: "good (handle_io_event e ev c)" if "\<not> (IsConnecting c \<and> events ev AND (kPollEventReadable OR kPollEventWritable) \<noteq> 0)"
    proof (cases "state c = kConnected")
      case True
      then show ?thesis using good_handle_io_event [OF g] good_connected_state [OF g False] by simp
    next
      case False
      then have "events ev AND (kPollEventReadable OR kPollEventWritable) = 0" using that st by (simp add: IsConnecting_def)
      then have "events ev AND kPollEventReadable = 0" "events ev AND kPollEventWritable = 0"
        by (simp_all add: and_or_eq_0)
      then show ?thesis using g by (simp add: handle_io_event_def Let_def)
    qed
    show ?thesis
      using here st g v p a io rest good_handle_error_event [OF g]
      by (auto simp: HandlePollEvent_def Let_def IsConnecting_def IsConnected_def attempt_StartClose good_HandleConnected
          split: option.splits)
  qed
qed

lemma frame_HandleTimerEvent [simp]: "frame c (HandleTimerEvent e ev c)"
  by (simp add: HandleTimerEvent_def)

lemma good_HandleTimerEvent:
  assumes g: "good c" and v: "valid (timer_id ev)"
  shows "good (HandleTimerEvent e ev c)"
  using g v attempt_StartClose [OF good_attempt [OF g]] by (auto simp: HandleTimerEvent_def)

section \<open>Tasks\<close>

lemma frame_send_task [simp]: "frame c (send_task e msg c)"
proof -
  have "frame c (c\<lparr>pending_bytes := p, send_buffer := b, g_accepted := a\<rparr>)" for p b a by (simp add: frame_def)
  then show ?thesis by (auto simp: send_task_def intro: frame_trans [OF _ frame_UpdateWriteInterest])
qed

lemma frame_run_task [simp]: "frame c (run_task e t c)"
  by (cases t) (auto simp: parse_task_def frame_ParseInput)

text \<open>
  The state in which a task starts: the invariant held while it was still queued.
\<close>

definition ready :: "task \<Rightarrow> ClientConnection \<Rightarrow> bool" where
  "ready t c \<longleftrightarrow> g_race c \<or> conn_core c \<and> interest_ok c \<and> task_ok t \<and>
     queue_shape (state c) (valid (conn_id c)) (t # task_queue c)"

lemma ready_pop:
  assumes "good c" "PopAvailableTaskNode c = (Some t, c')"
  shows "ready t (c'\<lparr>queued_tasks := k\<rparr>)"
  using assms
  by (auto simp: PopAvailableTaskNode_def ready_def good_unfold split: list.splits)

lemma ready_good: "ready t c \<Longrightarrow> \<not> is_connect t \<Longrightarrow> t \<noteq> TaskDisconnect \<Longrightarrow> good c"
  by (auto simp: ready_def good_def queue_shape_def split: if_splits)

lemma ready_connect:
  "ready t c \<Longrightarrow> is_connect t \<Longrightarrow>
    g_race c \<or> conn_core c \<and> state c = kConnecting \<and> \<not> valid (conn_id c) \<and> no_connect (task_queue c)"
  by (auto simp: ready_def queue_shape_def split: if_splits)

lemma ready_disconnect:
  assumes "ready TaskDisconnect c"
  shows "good (StartClose e kUser [] c)"
proof (cases "g_race c")
  case True
  then show ?thesis by (rule goodI_race) simp
next
  case False
  then have ok: "conn_core c" "interest_ok c" "no_connect (task_queue c)" "state c = kConnecting \<longrightarrow> valid (conn_id c)"
    using assms by (auto simp: ready_def queue_shape_def split: if_splits)
  show ?thesis
  proof (cases "state c = kIdle")
    case True
    then show ?thesis using ok by (simp add: StartClose_idle good_def queue_shape_def)
  next
    case False
    moreover have "closable c" using ok by (simp add: closable_def conn_core_def)
    ultimately show ?thesis using ok by (cases "state c") (auto intro: good_StartClose simp: conn_core_def)
  qed
qed

lemma good_run_task:
  assumes r: "ready t c"
  shows "good (run_task e t c)"
proof (cases t)
  case (TaskConnectFailed d)
  then have "g_race c \<or> closable c" using ready_connect [OF r] by (auto simp: closable_def conn_core_def)
  then show ?thesis
    using TaskConnectFailed ready_connect [OF r] good_StartClose goodI_race [OF _ frame_StartClose] by (cases "g_race c") auto
next
  case (TaskConnectResolved a)
  then show ?thesis using ready_connect [OF r] good_ConnectResolved by simp
next
  case TaskDisconnect
  then show ?thesis using r ready_disconnect by simp
next
  case (TaskSend m)
  then show ?thesis using ready_good [OF r] good_send_task by simp
next
  case (TaskPollEvent ev)
  then show ?thesis
    using ready_good [OF r] good_HandlePollEvent r goodI_race [OF _ frame_HandlePollEvent] by (auto simp: ready_def)
next
  case (TaskTimerEvent ev)
  then show ?thesis
    using ready_good [OF r] good_HandleTimerEvent r goodI_race [OF _ frame_HandleTimerEvent] by (auto simp: ready_def)
next
  case TaskParse
  then show ?thesis using ready_good [OF r] good_ParseInput by (simp add: parse_task_def IsConnected_def)
qed

section \<open>Runs\<close>

lemma good_owner_close:
  assumes g: "good c"
  shows "good (StartClose e kRelease [] (DrainTaskQueue c))"
proof (cases "g_race c")
  case True
  have "frame c (DrainTaskQueue c)" by (simp add: DrainTaskQueue_eq frame_def)
  then have "frame c (StartClose e kRelease [] (DrainTaskQueue c))" by (rule frame_trans) simp
  then show ?thesis using goodI_race [OF True] by simp
next
  case False
  then have ok: "conn_core c" using g by (simp add: good_def)
  show ?thesis
  proof (cases "state c = kIdle")
    case True
    then show ?thesis
      using ok by (auto simp: StartClose_idle DrainTaskQueue_eq good_def conn_core_def interest_ok_def queue_shape_def)
  next
    case False
    have "closable (DrainTaskQueue c)" using ok by (simp add: closable_def conn_core_def DrainTaskQueue_eq)
    then show ?thesis using good_StartClose [of "DrainTaskQueue c"] ok False
      by (cases "state c") (auto simp: DrainTaskQueue_eq conn_core_def)
  qed
qed

text \<open>Whatever every task and the closing of a released connection preserve, a drain run preserves.\<close>

lemma drain_loop_rule:
  assumes close: "\<And>c. P c \<Longrightarrow> owner_closing c \<Longrightarrow> Q ((StartClose e kRelease [] (DrainTaskQueue c))\<lparr>draining := False\<rparr>)"
    and idle: "\<And>c. P c \<Longrightarrow> \<not> owner_closing c \<Longrightarrow> task_queue c = [] \<Longrightarrow> Q (c\<lparr>draining := False\<rparr>)"
    and task: "\<And>c t c'. P c \<Longrightarrow> \<not> owner_closing c \<Longrightarrow> PopAvailableTaskNode c = (Some t, c') \<Longrightarrow>
      P (run_task e t (c'\<lparr>queued_tasks := queued_tasks c' - 1\<rparr>))"
    and yield: "\<And>c. P c \<Longrightarrow> P (c\<lparr>drain_yield_requested := False\<rparr>)"
    and sched: "\<And>c. P c \<Longrightarrow> Q (ScheduleDrain c)"
  shows "P c \<Longrightarrow> Q (drain_loop e n c)"
proof (induction "if owner_closing c then 0 else 1 + (kDrainTaskBudget - n)" arbitrary: n c rule: less_induct)
  case less
  note eq = drain_loop.simps [of e n c]
  show ?case
  proof (cases "owner_closing c")
    case True
    then show ?thesis unfolding eq using close [OF less.prems True] by (simp only: if_True)
  next
    case open_: False
    obtain ot c' where p: "PopAvailableTaskNode c = (ot, c')" by fastforce
    show ?thesis
    proof (cases ot)
      case None
      then have "c' = c" and q: "task_queue c = []" using p by (auto simp: PopAvailableTaskNode_def split: list.splits)
      then show ?thesis unfolding eq p None using idle [OF less.prems open_ q] open_ by (simp only: if_False prod.case option.case)
    next
      case (Some t)
      let ?c2 = "run_task e t (c'\<lparr>queued_tasks := queued_tasks c' - 1\<rparr>)"
      let ?y = "?c2\<lparr>drain_yield_requested := False\<rparr>"
      have loop: "drain_loop e n c =
          (if drain_yield_requested ?c2 \<or> n + 1 \<ge> kDrainTaskBudget
           then if owner_closing ?c2 then drain_loop e (n + 1) ?y else ScheduleDrain ?y
           else drain_loop e (n + 1) ?c2)"
        unfolding eq p Some using open_ by (simp only: Let_def prod.case option.case if_False)
      have P2: "P ?c2" using task [OF less.prems open_] p Some by blast
      have "Q (drain_loop e (n + 1) ?y)" if "owner_closing ?c2"
        by (rule less.hyps) (use that open_ yield [OF P2] in simp_all)
      moreover have "Q (drain_loop e (n + 1) ?c2)" if "\<not> n + 1 \<ge> kDrainTaskBudget"
      proof (rule less.hyps)
        have "kDrainTaskBudget - (n + 1) < kDrainTaskBudget - n" using that by linarith
        then show "(if owner_closing ?c2 then 0 else 1 + (kDrainTaskBudget - (n + 1))) <
            (if owner_closing c then 0 else 1 + (kDrainTaskBudget - n))" using open_ by simp
      qed (rule P2)
      ultimately show ?thesis unfolding loop using sched [OF yield [OF P2]] by (simp split: if_split)
    qed
  qed
qed

lemma drain_loop_preserves:
  assumes "\<And>c. P c \<Longrightarrow> owner_closing c \<Longrightarrow> P ((StartClose e kRelease [] (DrainTaskQueue c))\<lparr>draining := False\<rparr>)"
    and "\<And>c. P c \<Longrightarrow> P (c\<lparr>draining := False\<rparr>)"
    and "\<And>c t c'. P c \<Longrightarrow> \<not> owner_closing c \<Longrightarrow> PopAvailableTaskNode c = (Some t, c') \<Longrightarrow>
      P (run_task e t (c'\<lparr>queued_tasks := queued_tasks c' - 1\<rparr>))"
    and "\<And>c. P c \<Longrightarrow> P (c\<lparr>drain_yield_requested := False\<rparr>)"
    and "\<And>c. P c \<Longrightarrow> P (ScheduleDrain c)"
    and "P c"
  shows "P (drain_loop e n c)"
  by (rule drain_loop_rule [where P = P]) (use assms in blast)+

lemma good_drain_loop: "good c \<Longrightarrow> good (drain_loop e n c)"
proof (rule drain_loop_preserves [where P = good])
  fix c t c' assume "good c" "PopAvailableTaskNode c = (Some t, c')"
  then show "good (run_task e t (c'\<lparr>queued_tasks := queued_tasks c' - 1\<rparr>))" by (intro good_run_task ready_pop)
qed (simp_all add: good_owner_close)

lemma good_begin_release: "good c \<Longrightarrow> good (begin_release c)"
  unfolding good_unfold begin_release_def by (simp, blast)

lemma good_step:
  assumes g: "good c" and i: "input_ok i c"
  shows "good (step e i c)"
proof (cases i)
  case (InCall a)
  show ?thesis
  proof (cases "owner_closing c \<or> a = AppRelease")
    case True
    then show ?thesis
      using InCall g good_begin_release [OF g]
      by (cases "owner_closing c") (simp_all add: CloseFromOwner_other_def Let_def)
  next
    case False
    then show ?thesis
      using InCall good_app_call [OF g, of a] by (cases a) auto
  qed
next
  case InDrain
  then show ?thesis using g by (simp add: Drain_def good_drain_loop)
next
  case (InWorld n)
  then show ?thesis using g i good_rt by (simp add: input_ok_def)
qed (use g i in \<open>auto simp: input_ok_def PostPollEvent_def PostTimerEvent_def good_Post\<close>)

lemma good_run: "good c \<Longrightarrow> inputs_ok e is c \<Longrightarrow> good (run e is c)"
  by (induction "is" arbitrary: c) (auto simp: good_step)

end
