(* ===== verification/Connection_Delivery.thy ===== *)
theory Connection_Delivery
  imports Connection_Runs
begin

text \<open>
  What the application sees: which callbacks come in which order, and which messages are
  delivered. The specification of the messages of a session is \<open>frames\<close>, the cutting of the
  whole received byte stream; the connection receives the stream in pieces, parses at most
  64 messages at a time, and defers a close while complete messages are left.
\<close>

section \<open>Callback sequences\<close>

text \<open>The messages since the last \<open>OnConnected\<close>, and whether that session was not ended by a callback.\<close>

fun session_step :: "byte list list \<Rightarrow> callback \<Rightarrow> byte list list" where
  "session_step ms OnConnected = []"
| "session_step ms (OnMessage m) = ms @ [m]"
| "session_step ms (OnConnectFailed d) = ms"
| "session_step ms OnClosed = ms"

definition session_msgs :: "callback list \<Rightarrow> byte list list" where
  "session_msgs tr = foldl session_step [] tr"

fun open_step :: "bool \<Rightarrow> callback \<Rightarrow> bool" where
  "open_step up OnConnected = True"
| "open_step up (OnMessage m) = up"
| "open_step up (OnConnectFailed d) = False"
| "open_step up OnClosed = False"

definition session_open :: "callback list \<Rightarrow> bool" where
  "session_open tr = foldl open_step False tr"

fun cb_allowed :: "bool \<Rightarrow> callback \<Rightarrow> bool" where
  "cb_allowed up (OnMessage m) \<longleftrightarrow> up"
| "cb_allowed up OnClosed \<longleftrightarrow> up"
| "cb_allowed up cb \<longleftrightarrow> True"

definition trace_ok :: "callback list \<Rightarrow> bool" where
  "trace_ok tr \<longleftrightarrow> (\<forall>i < length tr. cb_allowed (session_open (take i tr)) (tr ! i))"

lemma session_msgs_snoc [simp]: "session_msgs (tr @ [cb]) = session_step (session_msgs tr) cb"
  by (simp add: session_msgs_def)

lemma session_open_snoc [simp]: "session_open (tr @ [cb]) = open_step (session_open tr) cb"
  by (simp add: session_open_def)

lemma trace_ok_Nil [simp]: "trace_ok []"
  by (simp add: trace_ok_def)

lemma trace_ok_snoc [simp]: "trace_ok (tr @ [cb]) \<longleftrightarrow> trace_ok tr \<and> cb_allowed (session_open tr) cb"
  by (auto simp: trace_ok_def nth_append less_Suc_eq)

section \<open>Invariant\<close>

abbreviation cut :: "env \<Rightarrow> Codec \<Rightarrow> byte list \<Rightarrow> byte list list \<times> byte list \<times> bool" where
  "cut e cod \<equiv> frames (codec_call (size_max e) cod)"

text \<open>All complete frames of what was received have been delivered, and the rest is no error.\<close>

definition all_delivered :: "env \<Rightarrow> Codec \<Rightarrow> ClientConnection \<Rightarrow> bool" where
  "all_delivered e cod c \<longleftrightarrow> (\<exists>rest. cut e cod (g_rx c) = (session_msgs (g_trace c), rest, False))"

text \<open>What was delivered, followed by what the unread input \<open>input\<close> gives, is the cut of the received stream.\<close>

definition tracks :: "env \<Rightarrow> Codec \<Rightarrow> byte list \<Rightarrow> ClientConnection \<Rightarrow> bool" where
  "tracks e cod input c \<longleftrightarrow>
     cut e cod (g_rx c) = (case cut e cod input of (ms, rest, err) \<Rightarrow> (session_msgs (g_trace c) @ ms, rest, err))"

definition stuck :: "env \<Rightarrow> Codec \<Rightarrow> byte list \<Rightarrow> bool" where
  "stuck e cod input \<longleftrightarrow> (\<exists>rest. cut e cod input = ([], rest, False))"

definition in_bounds :: "env \<Rightarrow> ClientConnection \<Rightarrow> bool" where
  "in_bounds e c \<longleftrightarrow> length (g_rx c) \<le> size_max e"

text \<open>The parts that do not depend on whether input is waiting to be parsed.\<close>

definition deliv_core :: "env \<Rightarrow> Codec \<Rightarrow> ClientConnection \<Rightarrow> bool" where
  "deliv_core e cod c \<longleftrightarrow> \<not> g_fault c \<and> trace_ok (g_trace c) \<and>
     (connected c \<longrightarrow> session_open (g_trace c)) \<and> (connected c \<longrightarrow> g_close c = None) \<and>
     (in_bounds e c \<longrightarrow>
        (connected c \<longrightarrow> tracks e cod (buffer_bytes (recv_buffer c)) c) \<and>
        (g_close c = Some kRemoteClosed \<longrightarrow> all_delivered e cod c))"

definition parse_pending :: "env \<Rightarrow> Codec \<Rightarrow> ClientConnection \<Rightarrow> bool" where
  "parse_pending e cod c \<longleftrightarrow>
     (connected c \<and> accepting_tasks c \<and> TaskParse \<notin> set (task_queue c) \<longrightarrow>
        stuck e cod (buffer_bytes (recv_buffer c)))"

definition deliv :: "env \<Rightarrow> Codec \<Rightarrow> ClientConnection \<Rightarrow> bool" where
  "deliv e cod c \<longleftrightarrow> deliv_core e cod c \<and> parse_pending e cod c"

lemmas deliv_defs = deliv_def deliv_core_def parse_pending_def in_bounds_def all_delivered_def tracks_def

lemma deliv_new: "deliv e cod (ClientConnection_new me h o' n)"
  by (simp add: deliv_defs ClientConnection_new_def)

lemma deliv_irrelevant [simp]:
  "deliv e cod (c\<lparr>parse_continuation_pending := b\<rparr>) = deliv e cod c"
  "deliv e cod (c\<lparr>drain_yield_requested := b\<rparr>) = deliv e cod c"
  "deliv e cod (c\<lparr>deferred_close_pending := b\<rparr>) = deliv e cod c"
  "deliv e cod (c\<lparr>deferred_close_reason := r\<rparr>) = deliv e cod c"
  "deliv e cod (c\<lparr>deferred_close_desc := d\<rparr>) = deliv e cod c" "deliv e cod (c\<lparr>draining := b\<rparr>) = deliv e cod c"
  "deliv e cod (c\<lparr>drain_jobs := k\<rparr>) = deliv e cod c" "deliv e cod (c\<lparr>queued_tasks := k\<rparr>) = deliv e cod c"
  "deliv e cod (c\<lparr>rt := n\<rparr>) = deliv e cod c" "deliv e cod (c\<lparr>poll_interest := i\<rparr>) = deliv e cod c"
  "deliv e cod (c\<lparr>connect_deadline_ms := dl\<rparr>) = deliv e cod c" "deliv e cod (c\<lparr>send_buffer := b'\<rparr>) = deliv e cod c"
  "deliv e cod (c\<lparr>pending_bytes := p\<rparr>) = deliv e cod c" "deliv e cod (c\<lparr>g_accepted := a\<rparr>) = deliv e cod c"
  "deliv e cod (c\<lparr>g_tx := a\<rparr>) = deliv e cod c" "deliv e cod (c\<lparr>bytes_sent := p\<rparr>) = deliv e cod c"
  "deliv e cod (c\<lparr>bytes_received := p\<rparr>) = deliv e cod c" "deliv e cod (c\<lparr>fd := f\<rparr>) = deliv e cod c"
  "deliv e cod (c\<lparr>conn_id := cid\<rparr>) = deliv e cod c"
  by (simp_all add: deliv_defs)

lemma deliv_ScheduleDrain [simp]: "deliv e cod (ScheduleDrain c) = deliv e cod c"
  by (simp add: ScheduleDrain_def)

section \<open>Calls of the application and closing\<close>

lemma deliv_Post: "deliv e cod c \<Longrightarrow> deliv e cod (Post t c)"
  by (auto simp: deliv_defs Post_queue)

lemma deliv_disconnected: "deliv e cod c \<Longrightarrow> deliv e cod (c\<lparr>state := s, connected := False, g_race := r\<rparr>)"
  by (auto simp: deliv_defs)

lemma deliv_Connect: "deliv e cod c \<Longrightarrow> deliv e cod (snd (Connect h a c))"
  by (auto simp: Connect_def Let_def deliv_Post deliv_disconnected split: prod.splits option.splits list.splits)

lemma deliv_drop_tasks:
  "deliv e cod c \<Longrightarrow> deliv e cod (c\<lparr>owner_closing := True, accepting_tasks := False, task_queue := q\<rparr>)"
  by (auto simp: deliv_defs)

lemma deliv_release: "deliv e cod c \<Longrightarrow> deliv e cod (CloseFromOwner_draining c)"
  by (auto simp: CloseFromOwner_draining_def StartClose_silent_def begin_close_def DrainTaskQueue_eq begin_release_def
      deliv_defs)

lemma deliv_app_call: "deliv e cod c \<Longrightarrow> deliv e cod (app_call_in_callback a c)"
  by (cases a) (auto simp: deliv_Connect deliv_Post deliv_release Disconnect_def ClientConnection_SendBuffer_def)

lemma deliv_app_calls: "deliv e cod c \<Longrightarrow> deliv e cod (app_calls_in_callback as c)"
  by (induction as arbitrary: c) (auto simp: deliv_app_call)

lemma deliv_invoke: "deliv e cod (c\<lparr>g_trace := g_trace c @ [cb]\<rparr>) \<Longrightarrow> deliv e cod (invoke e cb c)"
  by (simp add: invoke_def Let_def deliv_app_calls)

text \<open>
  When a close is correct: a reason that is reported as \<open>OnClosed\<close> needs an open session, and
  the end of the stream may only be reported when everything has been delivered.
\<close>

definition may_close :: "env \<Rightarrow> Codec \<Rightarrow> CloseReason \<Rightarrow> ClientConnection \<Rightarrow> bool" where
  "may_close e cod r c \<longleftrightarrow> \<not> g_fault c \<and> trace_ok (g_trace c) \<and>
     (r = kRemoteClosed \<or> r = kError \<longrightarrow> session_open (g_trace c)) \<and>
     (r = kRemoteClosed \<and> in_bounds e c \<longrightarrow> all_delivered e cod c)"

lemma deliv_StartClose:
  assumes "state c = kConnecting \<or> state c = kConnected" "may_close e cod r c"
  shows "deliv e cod (StartClose e r d c)"
proof -
  let ?c = "FinishClose_silent (c\<lparr>state := kClosing, connected := False, connect_deadline_ms := 0, g_close := Some r\<rparr>)"
  have "deliv e cod ?c" "r = kRemoteClosed \<or> r = kError \<longrightarrow> session_open (g_trace ?c)"
    using assms(2) by (auto simp: deliv_defs may_close_def)
  moreover have "deliv e cod (?c\<lparr>g_trace := g_trace ?c @ [cb]\<rparr>)"
    if "cb_allowed (session_open (g_trace ?c)) cb" "session_step (session_msgs (g_trace c)) cb = session_msgs (g_trace c)" for cb
    using assms(2) that by (auto simp: deliv_defs may_close_def)
  ultimately have "deliv e cod (FinishClose e (close_notifies r) r d
      (c\<lparr>state := kClosing, connected := False, connect_deadline_ms := 0, g_close := Some r\<rparr>))"
    by (cases r) (auto simp: FinishClose_def Let_def close_notifies_def intro!: deliv_invoke)
  then show ?thesis using assms(1) by (auto simp: StartClose_def begin_close_def)
qed

lemma deliv_may_close: "deliv_core e cod c \<Longrightarrow> r \<noteq> kRemoteClosed \<Longrightarrow> connected c \<or> r \<noteq> kError \<Longrightarrow> may_close e cod r c"
  by (auto simp: deliv_core_def may_close_def)

text \<open>Once the connection is gone, only the callbacks and the reason of the close matter.\<close>

definition calm :: "ClientConnection \<Rightarrow> bool" where
  "calm c \<longleftrightarrow> \<not> g_fault c \<and> trace_ok (g_trace c) \<and> g_close c \<noteq> Some kRemoteClosed"

lemma calm_deliv: "calm c \<Longrightarrow> \<not> connected c \<Longrightarrow> deliv e cod c"
  by (simp add: calm_def deliv_defs)

lemma calm_app_call: "calm c \<Longrightarrow> calm (app_call_in_callback a c)"
  by (cases a) (auto simp: calm_def Connect_def Disconnect_def ClientConnection_SendBuffer_def Let_def
      CloseFromOwner_draining_def StartClose_silent_def begin_close_def DrainTaskQueue_eq begin_release_def
      split: prod.splits option.splits list.splits)

lemma calm_app_calls: "calm c \<Longrightarrow> calm (app_calls_in_callback as c)"
  by (induction as arbitrary: c) (auto simp: calm_app_call)

lemma calm_invoke: "calm c \<Longrightarrow> cb_allowed (session_open (g_trace c)) cb \<Longrightarrow> calm (invoke e cb c)"
  unfolding invoke_def Let_def by (rule calm_app_calls) (simp add: calm_def)

section \<open>Writing\<close>

lemma deliv_connected_close:
  assumes "deliv_core e cod c" "connected c" "state c = kConnected" "r \<noteq> kRemoteClosed"
  shows "deliv e cod (StartClose e r d c)"
  using assms deliv_StartClose [of c] deliv_may_close [of e cod c r] by blast

lemma deliv_core_eq: "deliv e cod c \<Longrightarrow> deliv_core e cod c"
  by (simp add: deliv_def)

lemma deliv_UpdateWriteInterest:
  assumes "deliv e cod c" "connected c" "state c = kConnected"
  shows "deliv e cod (UpdateWriteInterest e c)"
proof -
  have "deliv e cod (StartClose e kError err (c\<lparr>rt := n\<rparr>))" for err n
    by (rule deliv_connected_close) (use assms deliv_core_eq [of e cod "c\<lparr>rt := n\<rparr>"] in auto)
  then show ?thesis
    using assms by (auto simp: UpdateWriteInterest_def PlatformStartSend_def Let_def split: prod.splits option.splits)
qed

lemma deliv_send_task:
  assumes "deliv e cod c" "good c" "\<not> g_race c"
  shows "deliv e cod (send_task e msg c)"
proof (cases "connected c")
  case True
  then show ?thesis
    using assms good_connected_state [OF assms(2,3)]
    by (auto simp: send_task_def IsConnected_def intro!: deliv_UpdateWriteInterest)
qed (use assms in \<open>simp add: send_task_def IsConnected_def\<close>)

lemma deliv_account_sent:
  assumes "deliv e cod c" "almost c" "\<not> g_race c" "buffer_bytes (send_buffer c) = d @ rest"
  shows "deliv e cod (account_sent d c)"
proof -
  have "buffer_inv (send_buffer c)" using assms by (auto simp: almost_def conn_core_def)
  then obtain b where "move_header (length d) (send_buffer c) = (False, True, b)"
    using move_header_ok [of "send_buffer c" "length d"] assms(4) by auto
  then show ?thesis using assms(1) by (simp add: account_sent_def deliv_defs)
qed

lemma account_sent_fields [simp]:
  "g_race (account_sent d c) = g_race c" "connected (account_sent d c) = connected c" "state (account_sent d c) = state c"
  by (simp_all add: account_sent_def split: prod.splits)

lemma deliv_write_loop:
  "deliv e cod c \<Longrightarrow> almost c \<Longrightarrow> \<not> g_race c \<Longrightarrow> connected c \<Longrightarrow> deliv e cod (write_loop e as n c)"
proof (induction e as n c rule: write_loop.induct)
  case (1 e n c)
  then show ?case by (auto simp: almost_def intro!: deliv_UpdateWriteInterest)
next
  case (2 e a as n c)
  have st: "state c = kConnected" using "2.prems" by (simp add: almost_def)
  have upd: "deliv e cod (UpdateWriteInterest e (c\<lparr>rt := (rt c)\<lparr>os_send := s\<rparr>\<rparr>))" for s
    using "2.prems" st by (auto intro!: deliv_UpdateWriteInterest)
  show ?case
  proof (cases "\<not> n < kMaxWriteBytesPerEvent \<or> SliceBuffer_Empty (send_buffer c)")
    case True
    then show ?thesis using upd by auto
  next
    case False
    let ?front = "case Front (send_buffer c) of Some s \<Rightarrow> s | None \<Rightarrow> []"
    show ?thesis
    proof (cases a)
      case (Inl errno)
      have "deliv e cod (StartClose e kError err (c\<lparr>rt := n'\<rparr>))" for err n'
        by (rule deliv_connected_close) (use "2.prems" st deliv_core_eq [of e cod "c\<lparr>rt := n'\<rparr>"] in auto)
      then show ?thesis
        using False "2.prems" "2.IH"(1) [OF False refl Inl] Inl by (auto simp: upd)
    next
      case (Inr k)
      let ?d = "sent_bytes ?front k"
      have "buffer_inv (send_buffer c)" using "2.prems" by (simp add: almost_def conn_core_def)
      then obtain rest where rest: "buffer_bytes (send_buffer c) = ?d @ rest"
        using front_prefix [of "send_buffer c" k] False by auto
      have "deliv e cod (account_sent ?d c)" "almost (account_sent ?d c)"
        using deliv_account_sent [OF "2.prems"(1-3) rest] almost_account_sent [OF "2.prems"(2) rest] by auto
      then show ?thesis
        using False "2.IH"(2) [OF False refl Inr refl] "2.prems" Inr by (auto simp: upd Let_def)
    qed
  qed
qed

section \<open>Parsing\<close>

text \<open>The state of the parse loop at an offset of its input.\<close>

definition parsing :: "env \<Rightarrow> Codec \<Rightarrow> byte list \<Rightarrow> ClientConnection \<Rightarrow> bool" where
  "parsing e cod input c \<longleftrightarrow> \<not> g_fault c \<and> trace_ok (g_trace c) \<and> session_open (g_trace c) \<and> connected c \<and>
     g_close c = None \<and> (in_bounds e c \<longrightarrow> tracks e cod input c)"

lemma deliv_core_parsing:
  "deliv_core e cod c \<Longrightarrow> connected c \<Longrightarrow> parsing e cod (buffer_bytes (recv_buffer c)) c"
  by (simp add: deliv_core_def parsing_def)

lemma builtin_defined:
  "builtin_codec sm cod \<Longrightarrow> Codec_Decode sm cod d = Some (codec_call sm cod d)"
  using lf_Decode_defined by (cases cod) (auto simp: codec_call_def split: option.splits)

lemma parsing_message:
  assumes p: "parsing e cod input c" and dec: "codec_call (size_max e) cod input = (kSuccess, n)" "0 < n" "n \<le> length input"
    and con: "connected (invoke e (OnMessage (take n input)) c)"
  shows "parsing e cod (drop n input) (invoke e (OnMessage (take n input)) c)"
  using p same_io_invoke [OF con] con frames_success [of "codec_call (size_max e) cod" input n, OF dec]
  by (auto simp: parsing_def same_io_def in_bounds_def tracks_def split: prod.splits)

lemma parsing_gone:
  assumes "parsing e cod input c" "\<not> connected (invoke e (OnMessage m) c)"
  shows "deliv e cod (invoke e (OnMessage m) c)"
  using assms by (intro calm_deliv calm_invoke) (auto simp: parsing_def calm_def)

lemma parse_loop_deliv:
  assumes "builtin_codec (size_max e) cod"
  shows "parse_loop e cod merged off ms left c = (r, off', ms', c') \<Longrightarrow> parsing e cod (drop off merged) c \<Longrightarrow>
    off \<le> length merged \<Longrightarrow>
    r \<noteq> ParseFault \<and> (r = ParseGone \<longrightarrow> deliv e cod c') \<and> (r \<noteq> ParseGone \<longrightarrow> parsing e cod (drop off' merged) c') \<and>
    (r = ParseStop \<longrightarrow> stuck e cod (drop off' merged) \<or> ms' = ms + left)"
proof (induction left arbitrary: off ms c)
  case 0
  then show ?case by simp
next
  case (Suc left)
  show ?case
  proof (cases rule: parse_loop_step [of e cod merged off ms left c])
    case stop
    have "stuck e cod (drop off merged)"
    proof (cases "off < length merged")
      case True
      then obtain n where "codec_call (size_max e) cod (drop off merged) = (kNeedMoreData, n)"
        using stop(2) by (auto simp: codec_call_def)
      then show ?thesis using True frames_need_more [of "drop off merged"] by (auto simp: stuck_def)
    qed (simp add: stuck_def)
    then show ?thesis using stop(1) Suc.prems by auto
  next
    case fault
    then show ?thesis using builtin_defined [OF assms] by simp
  next
    case (error r' n)
    then show ?thesis using Suc.prems by auto
  next
    case (frame n)
    let ?in = "drop off merged"
    let ?c = "invoke e (OnMessage (take n ?in)) c"
    have dec: "codec_call (size_max e) cod ?in = (kSuccess, n)" "n \<le> length ?in"
      using frame by (auto simp: codec_call_def)
    show ?thesis
    proof (cases "connected ?c")
      case True
      then have "parse_loop e cod merged (off + n) (Suc ms) left ?c = (r, off', ms', c')"
        using frame(5) Suc.prems(1) by (simp add: Let_def)
      moreover have "parsing e cod (drop (off + n) merged) ?c"
        using parsing_message [OF Suc.prems(2) dec(1) frame(3) dec(2) True] by (simp add: add.commute)
      ultimately show ?thesis using Suc.IH [of "off + n" "Suc ms" ?c] frame(4) by simp
    next
      case False
      then show ?thesis using frame(5) Suc.prems parsing_gone [OF Suc.prems(2) False] by (auto simp: Let_def)
    qed
  qed
qed

lemma parsing_all_delivered: "parsing e cod input c \<Longrightarrow> stuck e cod input \<Longrightarrow> in_bounds e c \<Longrightarrow> all_delivered e cod c"
  by (auto simp: parsing_def stuck_def tracks_def all_delivered_def)

lemma parsing_close:
  assumes "parsing e cod input c" "state c = kConnected" "r = kRemoteClosed \<longrightarrow> stuck e cod input"
  shows "deliv e cod (StartClose e r d c)"
  using assms parsing_all_delivered [of e cod input c]
  by (intro deliv_StartClose) (auto simp: may_close_def parsing_def)

text \<open>At the end of a parse everything is delivered, or a continuation is queued.\<close>

lemma parsing_deliv_core:
  "parsing e cod (buffer_bytes b) c \<Longrightarrow> deliv_core e cod (c\<lparr>recv_buffer := b\<rparr>)"
  by (simp add: parsing_def deliv_defs)

lemma stuck_Nil [simp]: "stuck e cod []"
  by (simp add: stuck_def)

lemma parsing_FinishDeferredClose:
  assumes p: "parsing e cod (buffer_bytes (recv_buffer c)) c" and st: "state c = kConnected"
    and stuck: "stuck e cod (buffer_bytes (recv_buffer c))"
  shows "deliv e cod (FinishDeferredClose e c)"
    and "connected (FinishDeferredClose e c) \<Longrightarrow> FinishDeferredClose e c = c"
proof -
  let ?c = "c\<lparr>deferred_close_pending := False, deferred_close_desc := []\<rparr>"
  have d: "deliv e cod c" using parsing_deliv_core [OF p] stuck by (simp add: deliv_def parse_pending_def)
  have "deliv e cod (StartClose e r d ?c)" for r d
    by (rule parsing_close [of e cod "buffer_bytes (recv_buffer c)"])
      (use p st stuck in \<open>auto simp: parsing_def in_bounds_def tracks_def\<close>)
  then show "deliv e cod (FinishDeferredClose e c)" using d by (simp add: FinishDeferredClose_def Let_def)
  have "\<not> connected (StartClose e r d ?c)" for r d
  proof
    let ?s = "FinishClose_silent (?c\<lparr>state := kClosing, connected := False, connect_deadline_ms := 0, g_close := Some r\<rparr>)"
    have no: "\<not> connected (invoke e cb ?s)" for cb using same_io_invoke [of e cb ?s] by (auto simp: same_io_def)
    assume "connected (StartClose e r d ?c)"
    then show False
      using st no by (auto simp: StartClose_def begin_close_def FinishClose_def Let_def split: if_splits)
  qed
  then show "connected (FinishDeferredClose e c) \<Longrightarrow> FinishDeferredClose e c = c"
    by (auto simp: FinishDeferredClose_def Let_def split: if_splits)
qed

lemma finish_parse_deliv:
  assumes p: "parsing e cod (drop off (buffer_bytes (recv_buffer c))) c" and g: "good c" "\<not> g_race c"
    and off: "off \<le> length (buffer_bytes (recv_buffer c))"
    and fin: "stuck e cod (drop off (buffer_bytes (recv_buffer c))) \<or> ms \<ge> kParseMessageBudget"
    and cont: "\<not> parse_continuation_pending c"
  shows "deliv e cod (snd (finish_parse e off ms c)) \<and>
    (fst (finish_parse e off ms c) = kDone \<longrightarrow>
       stuck e cod (buffer_bytes (recv_buffer (snd (finish_parse e off ms c)))))"
proof -
  have con: "connected c" using p by (simp add: parsing_def)
  from good_move_recv [OF g(1) con g(2) off] obtain b
    where b: "(if off > 0 then move_header off (recv_buffer c) else (False, True, recv_buffer c)) = (False, True, b)"
      "buffer_inv b" "buffer_bytes b = drop off (buffer_bytes (recv_buffer c))" by blast
  let ?c = "c\<lparr>recv_buffer := b\<rparr>"
  have st: "state ?c = kConnected" using good_connected_state [OF g] con by simp
  have p': "parsing e cod (buffer_bytes (recv_buffer ?c)) ?c"
    using p b(3) by (simp add: parsing_def in_bounds_def tracks_def)
  have len: "GetBufferLength b > 0 \<longleftrightarrow> buffer_bytes b \<noteq> []" using buf.len_content [OF b(2)] by simp
  show ?thesis
  proof (cases "ms \<ge> kParseMessageBudget \<and> GetBufferLength b > 0")
    case True
    let ?d = "Post TaskParse (?c\<lparr>parse_continuation_pending := True\<rparr>)"
    have "finish_parse e off ms c = (kYielded, ?d\<lparr>drain_yield_requested := True\<rparr>)"
      unfolding finish_parse_def b(1) prod.case Let_def
      using True con cont by (simp add: IsConnected_def ScheduleParseContinuation_def)
    moreover have "deliv_core e cod ?c" using parsing_deliv_core p' by (simp add: parsing_def deliv_defs)
    then have "deliv e cod ?d" by (auto simp: deliv_defs Post_queue)
    ultimately show ?thesis by simp
  next
    case False
    have sk: "stuck e cod (buffer_bytes (recv_buffer ?c))" using fin False len b(3) by auto
    have "finish_parse e off ms c =
        (parse_status (FinishDeferredClose e ?c), FinishDeferredClose e ?c)"
      unfolding finish_parse_def b(1) prod.case Let_def using False by auto
    then show ?thesis
      using parsing_FinishDeferredClose [OF p' st sk] sk
      by (auto simp: parse_status_def IsConnected_def split: if_splits)
  qed
qed

lemma ParseInput_deliv:
  assumes d: "deliv_core e cod c" and g: "good c" "\<not> g_race (snd (ParseInput e c))" and con: "connected c"
    and cod: "codec (opts c) = Some cod" "has_handler c" "builtin_codec (size_max e) cod"
  shows "deliv e cod (snd (ParseInput e c)) \<and>
    (fst (ParseInput e c) = kDone \<longrightarrow> stuck e cod (buffer_bytes (recv_buffer (snd (ParseInput e c)))))"
proof -
  let ?c = "c\<lparr>parse_continuation_pending := False\<rparr>"
  let ?m = "buffer_bytes (recv_buffer c)"
  have nr: "\<not> g_race c" using frame_ParseInput [of c e] g(2) by (auto simp: frame_def)
  have inv: "buffer_inv (recv_buffer c)" using g nr by (simp add: good_def conn_core_def)
  have st: "state c = kConnected" using good_connected_state [OF g(1) nr] con by simp
  have p: "parsing e cod ?m ?c" using deliv_core_parsing [OF d con] by (simp add: parsing_def in_bounds_def tracks_def)
  show ?thesis
  proof (cases "GetBufferLength (recv_buffer c) = 0")
    case True
    then have "?m = []" using buf.len_content [OF inv] by simp
    moreover have "ParseInput e c = (parse_status (FinishDeferredClose e ?c), FinishDeferredClose e ?c)"
      using True cod by (simp add: ParseInput_def Let_def)
    ultimately show ?thesis
      using parsing_FinishDeferredClose [of e cod ?c] p st
      by (auto simp: parse_status_def IsConnected_def split: if_splits)
  next
    case False
    obtain r off ms c' where l: "parse_loop e cod ?m 0 0 kParseMessageBudget ?c = (r, off, ms, c')"
      using prod_cases4 by blast
    have fr: "frame ?c c'" using frame_parse_loop [OF l] .
    have g': "good c'" using good_parse_loop [OF l] g by simp
    note pl = parse_loop_deliv [OF cod(3) l, simplified, OF p]
    have io: "same_io ?c c'" "off \<le> length ?m" if "r \<noteq> ParseGone"
      using parse_loop_progress [OF l that] con by auto
    have PI: "ParseInput e c = (case r of ParseFault \<Rightarrow> (kClosed, c'\<lparr>g_fault := True\<rparr>)
        | ParseError \<Rightarrow> (kClosed, StartClose e kError ''protocol decode error'' c') | ParseGone \<Rightarrow> (kClosed, c')
        | ParseStop \<Rightarrow> finish_parse e off ms c')"
      using False cod l Merge_bytes [OF inv] by (simp add: ParseInput_def Let_def split: parse_end.splits)
    show ?thesis
    proof (cases r)
      case ParseStop
      have nr': "\<not> g_race c'"
        using frame_finish_parse [of c' e off ms] g(2) PI ParseStop by (auto simp: frame_def)
      show ?thesis
        using finish_parse_deliv [of e cod off c' ms] pl io g' nr' ParseStop PI
        by (auto simp: same_io_def)
    next
      case ParseError
      have "deliv e cod (StartClose e kError ''protocol decode error'' c')"
        by (rule parsing_close [of e cod "drop off ?m"]) (use pl io st ParseError in \<open>auto simp: same_io_def\<close>)
      then show ?thesis using PI ParseError by simp
    qed (use PI pl in auto)
  qed
qed

section \<open>Reading\<close>

lemma deliv_core_irrelevant [simp]:
  "deliv_core e cod (c\<lparr>rt := n\<rparr>) = deliv_core e cod c" "deliv_core e cod (c\<lparr>bytes_received := k\<rparr>) = deliv_core e cod c"
  by (simp_all add: deliv_defs)

text \<open>Received bytes extend the stream and the unread input alike.\<close>

lemma tracks_append:
  assumes "builtin_codec (size_max e) cod" "length (g_rx c @ d) \<le> size_max e" "length (input @ d) \<le> size_max e"
    "tracks e cod input c"
  shows "tracks e cod (input @ d) (c\<lparr>g_rx := g_rx c @ d\<rparr>)"
  using assms(4)
    framing_codec.frames_append [OF builtin_codec_framing [OF assms(1)] assms(2)]
    framing_codec.frames_append [OF builtin_codec_framing [OF assms(1)] assms(3)]
  by (auto simp: tracks_def split: prod.splits if_splits)

lemma tracks_input_length:
  assumes "tracks e cod input c"
  shows "length input \<le> length (g_rx c)"
proof -
  obtain ms rest err where cut: "cut e cod input = (ms, rest, err)" by (rule prod_cases3)
  have "concat (session_msgs (g_trace c) @ ms) @ rest = g_rx c"
    using frames_conserve [of "codec_call (size_max e) cod" "g_rx c"] assms cut by (auto simp: tracks_def)
  moreover have "concat ms @ rest = input" using frames_conserve [OF cut] .
  ultimately show ?thesis by (metis append_assoc concat_append length_append le_add2)
qed

lemma deliv_core_received:
  assumes "builtin_codec (size_max e) cod" "deliv_core e cod c" "connected c" "good c" "\<not> g_race c"
  shows "deliv_core e cod (account_received d c)"
proof -
  have inv: "buffer_inv (recv_buffer c)" using assms by (simp add: good_def conn_core_def)
  have "tracks e cod (buffer_bytes (recv_buffer c) @ d) (c\<lparr>g_rx := g_rx c @ d\<rparr>)" if "length (g_rx c @ d) \<le> size_max e"
    using that assms(2,3) tracks_input_length [of e cod "buffer_bytes (recv_buffer c)" c]
    by (intro tracks_append [OF assms(1)]) (auto simp: deliv_core_def in_bounds_def)
  then show ?thesis
    using assms(2,3) buf.content_add [OF inv]
    by (auto simp: deliv_core_def account_received_def in_bounds_def tracks_def)
qed

lemma read_loop_deliv:
  assumes "builtin_codec (size_max e) cod"
  shows "deliv_core e cod c \<Longrightarrow> connected c \<Longrightarrow> good c \<Longrightarrow> \<not> g_race c \<Longrightarrow>
    deliv_core e cod (snd (read_loop e as n c)) \<and> \<not> g_race (snd (read_loop e as n c))"
  using assms
proof (induction e as n c rule: read_loop.induct)
  case (2 e a as n c)
  show ?case
  proof (cases a)
    case (Inl errno)
    then show ?thesis using "2.prems" "2.IH"(1) [OF _ Inl] by auto
  next
    case (Inr bs)
    let ?d = "take kRecvCacheSize bs"
    have "deliv_core e cod (account_received ?d c)" using deliv_core_received "2.prems" by blast
    then show ?thesis
      using "2.prems" "2.IH"(2) [OF _ Inr refl] good_account_received [of c ?d] Inr by (auto simp: Let_def)
  qed
qed simp

lemma parsing_stuck_close:
  assumes "deliv e cod c" "connected c" "state c = kConnected" "stuck e cod (buffer_bytes (recv_buffer c))"
  shows "deliv e cod (StartClose e r d c)"
  using deliv_core_parsing [OF deliv_core_eq [OF assms(1)] assms(2)] assms(3,4) by (auto intro: parsing_close)

lemma HandleReadable_deliv:
  assumes d: "deliv e cod c" and g: "good c" "\<not> g_race (HandleReadable e c)" and con: "connected c"
    and cod: "codec (opts c) = Some cod" "has_handler c" "builtin_codec (size_max e) cod"
  shows "deliv e cod (HandleReadable e c)"
proof -
  obtain sc c' where r: "read_loop e (os_recv (rt c)) 0 c = (sc, c')" by fastforce
  have nr: "\<not> g_race c" using frame_HandleReadable [of c e] g(2) by (auto simp: frame_def simp del: frame_HandleReadable)
  have c': "deliv_core e cod c'" "good c'" "connected c'" "\<not> g_race c'"
    using read_loop_deliv [OF cod(3) deliv_core_eq [OF d] con g(1) nr, of "os_recv (rt c)" 0]
      good_read_loop [OF g(1) con, of e "os_recv (rt c)" 0] r by auto
  have fr: "frame c c'" using frame_read_loop [of c e "os_recv (rt c)" 0] r by simp
  let ?p = "if GetBufferLength (recv_buffer c') > 0 then ParseInput e c' else (kDone, c')"
  have H: "HandleReadable e c = finish_readable e sc ?p"
    using r by (simp add: HandleReadable_def PlatformHandleReadable_alt)
  have nrp: "\<not> g_race (snd ?p)" using frame_finish_readable [of ?p e sc] g(2) H by (auto simp: frame_def)
  have empty: "buffer_bytes (recv_buffer c') = []" if "\<not> GetBufferLength (recv_buffer c') > 0"
    using that buf.len_content c'(2,4) by (auto simp: good_def conn_core_def)
  have p: "deliv e cod (snd ?p) \<and> (fst ?p = kDone \<longrightarrow> stuck e cod (buffer_bytes (recv_buffer (snd ?p))))"
    using ParseInput_deliv [OF c'(1,2) _ c'(3)] nrp cod fr c'(1) empty
    by (auto simp: frame_def deliv_def parse_pending_def split: if_splits)
  have gp: "good (snd ?p)" "fst ?p \<noteq> kClosed \<Longrightarrow> connected (snd ?p)"
    using c' good_ParseInput [OF c'(2)] ParseInput_status [of e c'] by auto
  obtain q c2 where q: "?p = (q, c2)" by fastforce
  show ?thesis
  proof (cases q)
    case kDone
    have "connected c2" "state c2 = kConnected"
      using gp q kDone good_connected_state [of c2] nrp by auto
    then have "deliv e cod (StartClose e r d c2)" for r d
      using parsing_stuck_close p q kDone by auto
    then show ?thesis using H p q kDone by (auto simp: finish_readable_def split: option.splits)
  qed (use H p q in \<open>auto simp: finish_readable_def DeferCloseUntilInputDrained_def split: option.splits\<close>)
qed

section \<open>Connecting, events and tasks\<close>

lemma deliv_close_connecting:
  assumes "deliv e cod c" "state c = kConnecting" "r = kConnectFailed \<or> r = kConnectTimeout \<or> r = kUser \<or> r = kRelease"
  shows "deliv e cod (StartClose e r d c)"
  using assms deliv_may_close [OF deliv_core_eq [OF assms(1)], of r] by (intro deliv_StartClose) auto

lemma deliv_HandleConnected:
  assumes d: "deliv e cod c" and h: "has_handler c" and a: "attempt c" "\<not> g_race c"
  shows "deliv e cod (HandleConnected e c)"
proof -
  have ok: "conn_core c" "state c = kConnecting" using a by (auto simp: attempt_def)
  obtain r n where p: "Poller_Add (fd c) (conn_id c) kPollReadable (rt c) = (r, n)" by fastforce
  let ?c = "c\<lparr>connect_deadline_ms := 0, poll_interest := kPollReadable, rt := n\<rparr>"
  show ?thesis
  proof (cases r)
    case None
    let ?d = "?c\<lparr>state := kConnected, connected := True, g_rx := [], g_tx := [], g_accepted := [], g_close := None\<rparr>"
    have "deliv e cod (?d\<lparr>g_trace := g_trace ?d @ [OnConnected]\<rparr>)"
      using d ok by (auto simp: deliv_defs conn_core_def)
    then have "deliv e cod (invoke e OnConnected ?d)" by (rule deliv_invoke)
    then show ?thesis
      using p ok h None by (simp add: HandleConnected_def PlatformAfterConnected_def Poller_Modify_def Let_def)
  next
    case (Some err)
    have "deliv e cod (StartClose e kConnectFailed (FormatErrorMessage e err) ?c)"
      by (rule deliv_close_connecting) (use d ok in auto)
    then show ?thesis
      using p ok Some by (simp add: HandleConnected_def PlatformAfterConnected_def Poller_Modify_def Let_def)
  qed
qed

lemma deliv_register_socket: "deliv e cod c \<Longrightarrow> deliv e cod (register_socket f c)"
  by (auto simp: register_socket_def Let_def split: prod.splits)

lemma deliv_PlatformConnect: "PlatformConnect e c = (r, c') \<Longrightarrow> deliv e cod c \<Longrightarrow> deliv e cod c'"
  by (auto simp: PlatformConnect_def Let_def split: prod.splits option.splits if_splits)

lemma deliv_ConnectResolved:
  assumes d: "deliv e cod c" and h: "has_handler c" and nr: "\<not> g_race c"
    and c: "conn_core c" "state c = kConnecting" "\<not> valid (conn_id c)" "no_connect (task_queue c)"
  shows "deliv e cod (ConnectResolved e addr c)"
proof -
  obtain r n where o: "PlatformOpenSocket e (opts c) (rt c) = (r, n)" by fastforce
  show ?thesis
  proof (cases r)
    case (Inl err)
    have "deliv e cod (StartClose e kConnectFailed err (c\<lparr>rt := n\<rparr>))"
      by (rule deliv_close_connecting) (use d c in auto)
    then show ?thesis using o Inl by (simp add: ConnectResolved_def)
  next
    case (Inr f)
    have f: "IsValidSocketHandle f" using PlatformOpenSocket_result(2) [OF o] Inr by simp
    let ?c = "register_socket f (c\<lparr>rt := n\<rparr>)"
    have a: "attempt ?c" using c f by (auto simp: attempt_def conn_core_def queue_shape_def)
    obtain r' c' where p: "PlatformConnect e ?c = (r', c')" by fastforce
    have a': "attempt c'" "frame ?c c'" using PlatformConnect_attempt [OF a p] by auto
    have d': "deliv e cod c'" using deliv_PlatformConnect [OF p] deliv_register_socket [of e cod "c\<lparr>rt := n\<rparr>" f] d by simp
    have nr': "\<not> g_race c'" "state c' = kConnecting" "has_handler c'"
      using p nr c h by (auto simp: PlatformConnect_def Let_def split: prod.splits option.splits if_splits)
    show ?thesis
      using o Inr p deliv_HandleConnected [OF d' nr'(3) a'(1) nr'(1)] d' deliv_close_connecting [OF d' nr'(2)]
      by (auto simp: ConnectResolved_def split: connect_result.splits)
  qed
qed

lemma handle_io_event_deliv:
  assumes d: "deliv e cod c" and g: "good c" "\<not> g_race (handle_io_event e ev c)" and con: "connected c"
    and cod: "codec (opts c) = Some cod" "has_handler c" "builtin_codec (size_max e) cod"
  shows "deliv e cod (handle_io_event e ev c)"
proof -
  let ?r = "events ev AND kPollEventReadable \<noteq> 0"
  let ?c = "if ?r then HandleReadable e c else c"
  have "frame ?c (handle_io_event e ev c)" by (auto simp: handle_io_event_def Let_def)
  then have nr: "\<not> g_race ?c" using g(2) by (auto simp: frame_def)
  have "frame c ?c" by simp
  then have nr0: "\<not> g_race c" using nr by (auto simp: frame_def)
  have c: "deliv e cod ?c" "good ?c"
    using HandleReadable_deliv [OF d g(1) _ con cod] good_HandleReadable [OF g(1)] con d g nr by auto
  have w: "deliv e cod (HandleWritable e ?c)" if "connected ?c"
  proof -
    have "almost ?c" using that c(2) nr by (auto simp: almost_def good_def conn_core_def)
    then show ?thesis
      using deliv_write_loop [OF c(1) _ nr that] by (simp add: HandleWritable_def PlatformHandleWritable_def)
  qed
  show ?thesis
    using c w con by (auto simp: handle_io_event_def Let_def IsConnected_def split: if_splits)
qed

lemma handle_error_event_deliv:
  assumes d: "deliv e cod c" and st: "state c = kConnecting \<or> state c = kConnected" and con: "connected c \<longleftrightarrow> state c = kConnected"
  shows "deliv e cod (handle_error_event e ev c)"
proof -
  obtain r c' where p: "PlatformFinishConnect e c = (r, c')" by fastforce
  then obtain n where c': "c' = c\<lparr>rt := n\<rparr>" using PlatformFinishConnect_result by blast
  show ?thesis
  proof (cases "state c = kConnecting")
    case True
    have "deliv e cod (StartClose e kConnectFailed err c')" for err
      by (rule deliv_close_connecting) (use d True c' in auto)
    then show ?thesis
      using p True con c' by (auto simp: handle_error_event_def IsConnecting_def IsConnected_def split: option.splits)
  next
    case False
    then show ?thesis
      using st con d by (auto simp: handle_error_event_def IsConnecting_def IsConnected_def
          intro: deliv_connected_close [OF deliv_core_eq])
  qed
qed

lemma HandlePollEvent_deliv:
  assumes d: "deliv e cod c" and g: "good c" "\<not> g_race (HandlePollEvent e ev c)" and v: "valid (ev_id ev)"
    and cod: "codec (opts c) = Some cod" "has_handler c" "builtin_codec (size_max e) cod"
  shows "deliv e cod (HandlePollEvent e ev c)"
proof -
  have nr: "\<not> g_race c" using frame_HandlePollEvent [of c e ev] g(2) by (auto simp: frame_def simp del: frame_HandlePollEvent)
  show ?thesis
  proof (cases "ev_id ev \<noteq> conn_id c \<or> operation ev \<noteq> kPollOpReady \<or> state c = kIdle \<or> state c = kClosing")
    case True
    then show ?thesis using d by (auto simp: HandlePollEvent_def HandleCompletion_def)
  next
    case here: False
    then have vc: "valid (conn_id c)" and st: "state c = kConnecting \<or> state c = kConnected"
      using v by (auto, cases "state c", auto)
    note cs = good_connected_state [OF g(1) nr]
    show ?thesis
    proof (cases "events ev AND kPollEventError \<noteq> 0")
      case True
      then show ?thesis using here handle_error_event_deliv [OF d st cs] by (auto simp: HandlePollEvent_def)
    next
      case noerr: False
      show ?thesis
      proof (cases "IsConnecting c \<and> events ev AND (kPollEventReadable OR kPollEventWritable) \<noteq> 0")
        case True
        obtain r c' where p: "PlatformFinishConnect e c = (r, c')" by fastforce
        then obtain n where c': "c' = c\<lparr>rt := n\<rparr>" using PlatformFinishConnect_result by blast
        have a: "attempt c'" "state c' = kConnecting" "deliv e cod c'" "\<not> g_race c'"
          using good_attempt [OF g(1)] vc True d nr by (auto simp: c' attempt_update IsConnecting_def)
        let ?h = "HandleConnected e c'"
        have h: "deliv e cod ?h" "good ?h"
          using deliv_HandleConnected [OF a(3) _ a(1,4)] good_HandleConnected [OF a(1)] cod(2) c' by auto
        have fh: "codec (opts ?h) = Some cod" "has_handler ?h"
          using frame_HandleConnected [of c' e] cod c' by (auto simp: frame_def simp del: frame_HandleConnected)
        have eq: "HandlePollEvent e ev c = (case r of Some err \<Rightarrow> StartClose e kConnectFailed err c'
            | None \<Rightarrow> if \<not> connected ?h then ?h else handle_io_event e ev ?h)"
          using here noerr True p by (simp add: HandlePollEvent_def Let_def IsConnected_def split: option.splits)
        show ?thesis
        proof (cases r)
          case None
          then show ?thesis
            using eq h handle_io_event_deliv [OF h(1) h(2) _ _ fh cod(3)] g(2) by (auto split: if_splits)
        next
          case (Some err)
          then show ?thesis using eq deliv_close_connecting [OF a(3,2)] by simp
        qed
      next
        case False
        then have eq: "HandlePollEvent e ev c = handle_io_event e ev c"
          using here noerr by (auto simp: HandlePollEvent_def)
        show ?thesis
        proof (cases "state c = kConnected")
          case True
          then show ?thesis using handle_io_event_deliv [OF d g(1) _ _ cod] g(2) cs eq by simp
        next
          case nc: False
          then have "events ev AND kPollEventReadable = 0" "events ev AND kPollEventWritable = 0"
            using False st by (auto simp: IsConnecting_def and_or_eq_0)
          then show ?thesis using d eq by (simp add: handle_io_event_def Let_def)
        qed
      qed
    qed
  qed
qed

lemma deliv_HandleTimerEvent:
  assumes "deliv e cod c"
  shows "deliv e cod (HandleTimerEvent e ev c)"
  using assms deliv_close_connecting [OF assms] by (simp add: HandleTimerEvent_def)

text \<open>A task starts with the invariant it had in the queue; only a parse task may have been the last one pending.\<close>

lemma run_task_deliv:
  assumes r: "ready t c" and d: "deliv_core e cod c" "t = TaskParse \<or> parse_pending e cod c"
    and nr: "\<not> g_race (run_task e t c)"
    and cod: "codec (opts c) = Some cod" "has_handler c" "builtin_codec (size_max e) cod"
  shows "deliv e cod (run_task e t c)"
proof -
  have nr0: "\<not> g_race c" using frame_run_task [of c e t] nr by (auto simp: frame_def simp del: frame_run_task)
  have dl: "deliv e cod c" if "t \<noteq> TaskParse" using d that by (simp add: deliv_def)
  show ?thesis
  proof (cases t)
    case (TaskConnectFailed desc)
    then have "state c = kConnecting" using ready_connect [OF r] nr0 by auto
    then show ?thesis using TaskConnectFailed dl deliv_close_connecting by simp
  next
    case (TaskConnectResolved a)
    then show ?thesis using ready_connect [OF r] nr0 dl deliv_ConnectResolved cod(2) by simp
  next
    case TaskDisconnect
    have "state c \<noteq> kClosing" using r nr0 by (simp add: ready_def conn_core_def)
    then show ?thesis
      using TaskDisconnect dl deliv_may_close [OF d(1), of kUser] deliv_StartClose [of c e cod kUser]
      by (cases "state c") (auto simp: StartClose_idle)
  next
    case (TaskSend m)
    then show ?thesis using ready_good [OF r] dl deliv_send_task nr0 by simp
  next
    case (TaskPollEvent ev)
    then have "valid (ev_id ev)" using r nr0 by (simp add: ready_def)
    then show ?thesis using TaskPollEvent ready_good [OF r] dl HandlePollEvent_deliv nr cod by simp
  next
    case (TaskTimerEvent ev)
    then show ?thesis using dl deliv_HandleTimerEvent by simp
  next
    case TaskParse
    then have g: "good c" using ready_good [OF r] by simp
    show ?thesis
    proof (cases "connected c")
      case True
      then show ?thesis
        using TaskParse ParseInput_deliv [OF d(1) g _ True cod] nr by (simp add: parse_task_def IsConnected_def)
    next
      case False
      then show ?thesis
        using TaskParse d(1) by (simp add: parse_task_def IsConnected_def deliv_def parse_pending_def)
    qed
  qed
qed

section \<open>Runs\<close>

lemma deliv_owner_close:
  assumes d: "deliv e cod c" and g: "good c" "\<not> g_race c" and oc: "owner_closing c"
  shows "deliv e cod (StartClose e kRelease [] (DrainTaskQueue c))"
proof -
  have ok: "conn_core c" using g by (simp add: good_def)
  then have d': "deliv e cod (DrainTaskQueue c)"
    using d oc by (simp add: DrainTaskQueue_eq deliv_defs conn_core_def)
  show ?thesis
  proof (cases "state c = kIdle")
    case True
    then show ?thesis using d' by (simp add: StartClose_idle DrainTaskQueue_eq)
  next
    case False
    then have "state (DrainTaskQueue c) = kConnecting \<or> state (DrainTaskQueue c) = kConnected"
      using ok by (cases "state c") (auto simp: DrainTaskQueue_eq conn_core_def)
    then show ?thesis
      using deliv_StartClose [of "DrainTaskQueue c" e cod kRelease] deliv_may_close [OF deliv_core_eq [OF d'], of kRelease] by auto
  qed
qed

lemma frame_pop:
  assumes "PopAvailableTaskNode c = (Some t, c')"
  shows "frame c (c'\<lparr>queued_tasks := queued_tasks c' - 1\<rparr>)"
  using assms by (auto simp: PopAvailableTaskNode_def frame_def split: list.splits)

lemma frame_owner_close: "frame c (StartClose e kRelease [] (DrainTaskQueue c))"
proof -
  have "frame c (DrainTaskQueue c)" by (simp add: DrainTaskQueue_eq frame_def)
  then show ?thesis by (rule frame_trans) simp
qed

lemma history_drain_loop: "history c (drain_loop e n c)"
proof (rule drain_loop_preserves [where P = "history c"])
  fix c2 assume f: "history c c2"
  have "history c (StartClose e kRelease [] (DrainTaskQueue c2))"
    by (rule history_trans [OF f frame_history [OF frame_owner_close]])
  then show "history c ((StartClose e kRelease [] (DrainTaskQueue c2))\<lparr>draining := False\<rparr>)" by (simp add: history_def)
  show "history c (c2\<lparr>draining := False\<rparr>)" "history c (c2\<lparr>drain_yield_requested := False\<rparr>)"
    "history c (ScheduleDrain c2)"
    using f by (simp_all add: history_def ScheduleDrain_def)
next
  fix c2 t c' assume f: "history c c2" and p: "PopAvailableTaskNode c2 = (Some t, c')"
  show "history c (run_task e t (c'\<lparr>queued_tasks := queued_tasks c' - 1\<rparr>))"
    by (rule history_trans [OF f frame_history [OF frame_trans [OF frame_pop [OF p] frame_run_task]]])
qed (simp add: history_def)

lemma deliv_pop:
  assumes d: "deliv e cod c" and p: "PopAvailableTaskNode c = (Some t, c')"
  shows "deliv_core e cod (c'\<lparr>queued_tasks := k\<rparr>)" "t = TaskParse \<or> parse_pending e cod (c'\<lparr>queued_tasks := k\<rparr>)"
    "opts c' = opts c" "has_handler c' = has_handler c" "g_race c' = g_race c"
proof -
  obtain ts where q: "task_queue c = t # ts" and c': "c' = c\<lparr>task_queue := ts\<rparr>"
    using p by (cases "task_queue c") (simp_all add: PopAvailableTaskNode_def)
  show "deliv_core e cod (c'\<lparr>queued_tasks := k\<rparr>)"
    using deliv_core_eq [OF d] unfolding c' deliv_core_def in_bounds_def all_delivered_def tracks_def by simp
  have "parse_pending e cod c" using d by (simp add: deliv_def)
  then show "t = TaskParse \<or> parse_pending e cod (c'\<lparr>queued_tasks := k\<rparr>)"
    unfolding c' parse_pending_def by (simp add: q) blast
  show "opts c' = opts c" "has_handler c' = has_handler c" "g_race c' = g_race c" by (simp_all add: c')
qed

text \<open>The invariants of a connection with a handler and a given codec, unless a race has happened.\<close>

definition session_inv :: "env \<Rightarrow> Codec \<Rightarrow> ClientConnection \<Rightarrow> bool" where
  "session_inv e cod c \<longleftrightarrow> good c \<and> codec (opts c) = Some cod \<and> has_handler c \<and> (\<not> g_race c \<longrightarrow> deliv e cod c)"

lemma session_inv_history:
  "session_inv e cod c \<Longrightarrow> history c c' \<Longrightarrow> good c' \<Longrightarrow> (\<not> g_race c' \<Longrightarrow> deliv e cod c \<Longrightarrow> deliv e cod c') \<Longrightarrow>
    session_inv e cod c'"
  by (auto simp: session_inv_def history_def)

lemma session_inv_drain_loop:
  assumes b: "builtin_codec (size_max e) cod"
  shows "session_inv e cod c \<Longrightarrow> session_inv e cod (drain_loop e n c)"
proof (rule drain_loop_preserves [where P = "session_inv e cod"])
  fix c assume s: "session_inv e cod c"
  show "session_inv e cod (c\<lparr>draining := False\<rparr>)" "session_inv e cod (c\<lparr>drain_yield_requested := False\<rparr>)"
    "session_inv e cod (ScheduleDrain c)"
    using s by (simp_all add: session_inv_def ScheduleDrain_def)
  assume oc: "owner_closing c"
  note f = frame_history [OF frame_owner_close [of c e]]
  have g: "good c" using s by (simp add: session_inv_def)
  have "session_inv e cod (StartClose e kRelease [] (DrainTaskQueue c))"
  proof (rule session_inv_history [OF s f good_owner_close [OF g]])
    assume "\<not> g_race (StartClose e kRelease [] (DrainTaskQueue c))" and d: "deliv e cod c"
    then have "\<not> g_race c" using f unfolding history_def by blast
    then show "deliv e cod (StartClose e kRelease [] (DrainTaskQueue c))" using deliv_owner_close [OF d g _ oc] by blast
  qed
  then show "session_inv e cod ((StartClose e kRelease [] (DrainTaskQueue c))\<lparr>draining := False\<rparr>)"
    by (simp add: session_inv_def)
next
  fix c t c' assume s: "session_inv e cod c" and p: "PopAvailableTaskNode c = (Some t, c')"
  let ?c1 = "c'\<lparr>queued_tasks := queued_tasks c' - 1\<rparr>"
  have r: "ready t ?c1" by (rule ready_pop [OF _ p]) (use s in \<open>simp add: session_inv_def\<close>)
  note f = frame_history [OF frame_trans [OF frame_pop [OF p] frame_run_task]]
  have "deliv e cod (run_task e t ?c1)" if "\<not> g_race (run_task e t ?c1)" "deliv e cod c"
    by (rule run_task_deliv [OF r deliv_pop(1,2) [OF that(2) p] that(1) _ _ b])
      (use deliv_pop(3,4) [OF that(2) p] s in \<open>simp_all add: session_inv_def\<close>)
  then show "session_inv e cod (run_task e t ?c1)"
    by (rule session_inv_history [OF s f good_run_task [OF r]])
qed

lemma history_step: "history c (step e i c)"
proof (cases i)
  case (InCall a)
  have "frame c (CloseFromOwner_other c)"
    by (simp add: CloseFromOwner_other_def begin_release_def Let_def ScheduleDrain_def frame_def)
  then have "frame c (app_call_outside a c)"
    by (cases a) (simp_all add: Disconnect_def ClientConnection_SendBuffer_def)
  then show ?thesis using InCall by (auto intro: frame_history)
next
  case InDrain
  have "history c (c\<lparr>drain_jobs := drain_jobs c - 1, drain_yield_requested := False\<rparr>)" by (simp add: history_def)
  from history_trans [OF this history_drain_loop] show ?thesis
    using InDrain by (auto simp: Drain_def intro: frame_history)
qed (auto simp: PostPollEvent_def PostTimerEvent_def intro: frame_history)

lemma deliv_begin_release: "deliv e cod c \<Longrightarrow> deliv e cod (begin_release c)"
  unfolding deliv_def deliv_core_def parse_pending_def in_bounds_def all_delivered_def tracks_def begin_release_def
  by simp

lemma deliv_call_outside: "deliv e cod c \<Longrightarrow> deliv e cod (app_call_outside a c)"
  using deliv_begin_release [of e cod c]
  by (cases a) (simp_all add: deliv_Connect deliv_Post Disconnect_def ClientConnection_SendBuffer_def
      CloseFromOwner_other_def Let_def)

lemma session_inv_step:
  assumes b: "builtin_codec (size_max e) cod" and s: "session_inv e cod c" and i: "input_ok i c"
  shows "session_inv e cod (step e i c)"
proof (cases "i = InDrain")
  case True
  then show ?thesis
    using session_inv_drain_loop [OF b, of "c\<lparr>drain_jobs := drain_jobs c - 1, drain_yield_requested := False\<rparr>" 0] s
    by (simp add: Drain_def session_inv_def)
next
  case False
  have "deliv e cod (step e i c)" if "deliv e cod c"
    using that False by (cases i) (simp_all add: deliv_call_outside deliv_Post PostPollEvent_def PostTimerEvent_def)
  moreover have "good (step e i c)" using good_step [OF _ i] s by (simp add: session_inv_def)
  ultimately show ?thesis using session_inv_history [OF s history_step] by blast
qed

lemma session_inv_run:
  "builtin_codec (size_max e) cod \<Longrightarrow> session_inv e cod c \<Longrightarrow> inputs_ok e is c \<Longrightarrow> session_inv e cod (run e is c)"
  by (induction "is" arbitrary: c) (auto simp: session_inv_step)

lemma session_inv_new:
  "codec o' = Some cod \<Longrightarrow> session_inv e cod (ClientConnection_new me True o' n)"
  using good_new [of me True o' n] deliv_new [of e cod me True o' n]
  by (simp add: session_inv_def ClientConnection_new_def)

end
