(* ===== verification/Connection_Scheduling.thy ===== *)
theory Connection_Scheduling
  imports Connection_Delivery
begin

text \<open>
  Scheduling of drain jobs: no posted task is forgotten, a released connection is closed and
  silent, and with an application that makes no calls the queued work comes to an end.
\<close>

section \<open>Drain jobs\<close>

text \<open>Exactly one drain job is waiting while tasks are queued, and the counter counts the queue.\<close>

definition sched_ok :: "ClientConnection \<Rightarrow> bool" where
  "sched_ok c \<longleftrightarrow> queued_tasks c = length (task_queue c) \<and>
     (if draining c then drain_jobs c = 1 else drain_jobs c = 0 \<and> task_queue c = [])"

text \<open>The same while a worker runs the job.\<close>

definition in_drain :: "ClientConnection \<Rightarrow> bool" where
  "in_drain c \<longleftrightarrow> draining c \<and> drain_jobs c = 0 \<and> queued_tasks c = length (task_queue c)"

lemma in_drain_frame: "in_drain c \<Longrightarrow> frame c c' \<Longrightarrow> in_drain c'"
  by (simp add: in_drain_def frame_def)

lemma StartClose_silent_fields [simp]:
  "task_queue (StartClose_silent c) = task_queue c" "queued_tasks (StartClose_silent c) = queued_tasks c"
  "drain_jobs (StartClose_silent c) = drain_jobs c" "g_trace (StartClose_silent c) = g_trace c"
  by (auto simp: StartClose_silent_def begin_close_def split: option.splits if_splits)

lemma sched_drain_loop: "in_drain c \<Longrightarrow> sched_ok (drain_loop e n c)"
proof (rule drain_loop_rule [where P = in_drain])
  fix c assume "in_drain c"
  then have "in_drain (StartClose e kRelease [] (DrainTaskQueue c))" by (rule in_drain_frame [OF _ frame_owner_close])
  then show "sched_ok ((StartClose e kRelease [] (DrainTaskQueue c))\<lparr>draining := False\<rparr>)"
    by (simp add: sched_ok_def in_drain_def StartClose_release DrainTaskQueue_eq)
next
  fix c t c' assume "in_drain c" and p: "PopAvailableTaskNode c = (Some t, c')"
  then show "in_drain (run_task e t (c'\<lparr>queued_tasks := queued_tasks c' - 1\<rparr>))"
    using in_drain_frame frame_trans [OF frame_pop [OF p] frame_run_task] by blast
qed (simp_all add: sched_ok_def in_drain_def ScheduleDrain_def)

lemma sched_Post: "sched_ok c \<Longrightarrow> sched_ok (Post t c)"
  by (simp add: sched_ok_def Post_def ScheduleDrain_def Let_def)

lemma sched_Connect: "sched_ok c \<Longrightarrow> sched_ok (snd (Connect h a c))"
  using sched_Post [of "c\<lparr>state := kConnecting, connected := False, g_race := r\<rparr>" for r]
  by (auto simp: Connect_def Let_def sched_ok_def split: prod.splits option.splits list.splits)

lemma sched_step: "sched_ok c \<Longrightarrow> sched_ok (step e i c)"
proof (cases i)
  case (InCall a)
  assume "sched_ok c"
  then have "sched_ok (app_call_outside a c)"
    using sched_Connect sched_Post
    by (cases a) (simp_all add: Disconnect_def ClientConnection_SendBuffer_def sched_ok_def CloseFromOwner_other_def
        begin_release_def ScheduleDrain_def Let_def)
  then show ?thesis using InCall \<open>sched_ok c\<close> by simp
next
  case InDrain
  assume "sched_ok c"
  then show ?thesis
    using InDrain sched_drain_loop [of "c\<lparr>drain_jobs := drain_jobs c - 1, drain_yield_requested := False\<rparr>" e 0]
    by (auto simp: Drain_def sched_ok_def in_drain_def split: if_splits)
qed (simp_all add: PostPollEvent_def PostTimerEvent_def sched_Post, simp add: sched_ok_def)

lemma sched_run: "sched_ok c \<Longrightarrow> sched_ok (run e is c)"
  by (induction "is" arbitrary: c) (simp_all add: sched_step)

lemma sched_new: "sched_ok (ClientConnection_new me h o' n)"
  by (simp add: sched_ok_def ClientConnection_new_def)

section \<open>Release\<close>

definition released :: "ClientConnection \<Rightarrow> bool" where
  "released c \<longleftrightarrow> owner_closing c \<and> \<not> accepting_tasks c"

lemma released_drain_loop:
  "owner_closing c \<Longrightarrow> drain_loop e n c = (StartClose_silent (DrainTaskQueue c))\<lparr>draining := False\<rparr>"
  by (simp add: drain_loop.simps [of e n c] StartClose_release)

text \<open>Once no drain job is left, a released connection is closed.\<close>

definition release_ok :: "ClientConnection \<Rightarrow> bool" where
  "release_ok c \<longleftrightarrow> (owner_closing c \<and> \<not> draining c \<longrightarrow> state c = kIdle)"

lemma StartClose_silent_idle: "state c \<noteq> kClosing \<Longrightarrow> state (StartClose_silent c) = kIdle"
  by (cases "state c") (auto simp: StartClose_silent_def begin_close_def)

lemma release_ok_drain_loop:
  assumes "in_drain c" "good c" "\<not> g_race (drain_loop e n c)"
  shows "release_ok (drain_loop e n c)"
proof -
  let ?P = "\<lambda>c. in_drain c \<and> good c"
  have "g_race (drain_loop e n c) \<or> release_ok (drain_loop e n c)"
  proof (rule drain_loop_rule [where P = ?P])
    fix c assume c: "?P c"
    have "g_race c \<or> state c \<noteq> kClosing" using c by (auto simp: good_def conn_core_def)
    moreover have "frame c (StartClose e kRelease [] (DrainTaskQueue c))" by (rule frame_owner_close)
    ultimately show "g_race ((StartClose e kRelease [] (DrainTaskQueue c))\<lparr>draining := False\<rparr>) \<or>
        release_ok ((StartClose e kRelease [] (DrainTaskQueue c))\<lparr>draining := False\<rparr>)"
      using StartClose_silent_idle [of "DrainTaskQueue c"]
      by (auto simp: frame_def release_ok_def StartClose_release DrainTaskQueue_eq)
    show "g_race (ScheduleDrain c) \<or> release_ok (ScheduleDrain c)"
      using c by (simp add: in_drain_def release_ok_def ScheduleDrain_def)
    show "?P (c\<lparr>drain_yield_requested := False\<rparr>)" using c by (simp add: in_drain_def)
  next
    fix c t c' assume c: "?P c" and p: "PopAvailableTaskNode c = (Some t, c')"
    show "?P (run_task e t (c'\<lparr>queued_tasks := queued_tasks c' - 1\<rparr>))"
      using c in_drain_frame [OF _ frame_trans [OF frame_pop [OF p] frame_run_task]] good_run_task [OF ready_pop [OF _ p]]
      by blast
  qed (use assms in \<open>simp_all add: release_ok_def\<close>)
  then show ?thesis using assms(3) by blast
qed

lemma release_ok_Post: "release_ok c \<Longrightarrow> (accepting_tasks c \<Longrightarrow> \<not> owner_closing c) \<Longrightarrow> release_ok (Post t c)"
  by (auto simp: release_ok_def Post_def ScheduleDrain_def Let_def)

lemma release_ok_step:
  assumes g: "good c" and s: "sched_ok c" and r: "release_ok c" and nr: "\<not> g_race (step e i c)"
  shows "release_ok (step e i c)"
proof -
  have "\<not> g_race c" using nr history_step [of c e i] by (auto simp: history_def)
  then have acc: "accepting_tasks c \<longleftrightarrow> \<not> owner_closing c" using g by (simp add: good_def conn_core_def)
  show ?thesis
  proof (cases i)
    case (InCall a)
    have "release_ok (app_call_outside a c)" if "\<not> owner_closing c"
      using that
      by (cases a) (auto simp: release_ok_def CloseFromOwner_other_def begin_release_def ScheduleDrain_def Let_def
          Disconnect_def ClientConnection_SendBuffer_def Connect_def Post_def split: prod.splits option.splits list.splits)
    then show ?thesis using InCall r by simp
  next
    case InDrain
    let ?c = "c\<lparr>drain_jobs := drain_jobs c - 1, drain_yield_requested := False\<rparr>"
    have "drain_jobs c \<noteq> 0 \<Longrightarrow> in_drain ?c" using s by (auto simp: sched_ok_def in_drain_def split: if_splits)
    then show ?thesis using InDrain r nr release_ok_drain_loop [of ?c e 0] g by (auto simp: Drain_def)
  next
    case (InWorld n)
    then show ?thesis using r by (simp add: release_ok_def)
  qed (use r acc in \<open>auto simp: PostPollEvent_def PostTimerEvent_def intro: release_ok_Post\<close>)
qed

lemma release_ok_run:
  "good c \<Longrightarrow> sched_ok c \<Longrightarrow> release_ok c \<Longrightarrow> inputs_ok e is c \<Longrightarrow> \<not> g_race (run e is c) \<Longrightarrow> release_ok (run e is c)"
proof (induction "is" arbitrary: c)
  case (Cons i "is")
  have h: "history d (run e js d)" for d js
    by (induction js arbitrary: d) (auto intro: history_trans history_step, simp add: history_def)
  have "\<not> g_race (step e i c)" using Cons.prems(5) h [of "step e i c" "is"] by (auto simp: history_def)
  then show ?case using Cons by (simp add: good_step sched_step release_ok_step)
qed simp

lemma released_step: "released c \<Longrightarrow> released (step e i c) \<and> g_trace (step e i c) = g_trace c"
proof -
  assume r: "released c"
  have "history c (step e i c)" by (rule history_step)
  then have "released (step e i c)" using r by (simp add: released_def history_def)
  moreover have "g_trace (step e i c) = g_trace c"
    using r by (cases i)
      (simp_all add: released_def PostPollEvent_def PostTimerEvent_def Post_def Drain_def released_drain_loop DrainTaskQueue_eq)
  ultimately show ?thesis by simp
qed

lemma released_run: "released c \<Longrightarrow> released (run e is c) \<and> g_trace (run e is c) = g_trace c"
  by (induction "is" arbitrary: c) (simp_all add: released_step)


section \<open>Work comes to an end\<close>

text \<open>An application whose callbacks make no calls.\<close>

definition quiet :: "env \<Rightarrow> bool" where
  "quiet e \<longleftrightarrow> (\<forall>tr. app e tr = [])"

lemma quiet_invoke: "quiet e \<Longrightarrow> invoke e cb c = c\<lparr>g_trace := g_trace c @ [cb]\<rparr>"
  by (simp add: invoke_def quiet_def Let_def)

text \<open>Under such an application a task leaves the queue alone, except that it may post one parse task.\<close>

definition posts_parse :: "ClientConnection \<Rightarrow> ClientConnection \<Rightarrow> bool" where
  "posts_parse c c' \<longleftrightarrow> g_race c' = g_race c \<and>
     (task_queue c' = task_queue c \<or> task_queue c' = task_queue c @ [TaskParse])"

definition same_queue :: "ClientConnection \<Rightarrow> ClientConnection \<Rightarrow> bool" where
  "same_queue c c' \<longleftrightarrow> g_race c' = g_race c \<and> task_queue c' = task_queue c"

lemma same_queue_trans: "same_queue a b \<Longrightarrow> same_queue b c \<Longrightarrow> same_queue a c"
  by (simp add: same_queue_def)

lemma same_queue_posts: "same_queue c c' \<Longrightarrow> posts_parse c c'"
  by (simp add: same_queue_def posts_parse_def)

lemma posts_then_same: "posts_parse a b \<Longrightarrow> same_queue b c \<Longrightarrow> posts_parse a c"
  by (simp add: same_queue_def posts_parse_def)

lemma same_then_posts: "same_queue a b \<Longrightarrow> posts_parse b c \<Longrightarrow> posts_parse a c"
  by (simp add: same_queue_def posts_parse_def)

text \<open>Closing drops the input, so it never adds any.\<close>

definition input_len :: "ClientConnection \<Rightarrow> nat" where
  "input_len c = length (buffer_bytes (recv_buffer c))"

lemma quiet_StartClose:
  "quiet e \<Longrightarrow> same_queue c (StartClose e r d c) \<and> input_len (StartClose e r d c) \<le> input_len c"
  by (auto simp: StartClose_def begin_close_def FinishClose_def same_queue_def input_len_def quiet_invoke Let_def
      split: option.splits)

lemma quiet_UpdateWriteInterest: "quiet e \<Longrightarrow> same_queue c (UpdateWriteInterest e c)"
  using quiet_StartClose [THEN conjunct1]
  by (auto simp: UpdateWriteInterest_def PlatformStartSend_def Let_def same_queue_def split: prod.splits option.splits)

lemma quiet_write_loop: "quiet e \<Longrightarrow> same_queue c (write_loop e as n c)"
proof (induction as arbitrary: n c)
  case Nil
  then show ?case using quiet_UpdateWriteInterest [of e "c\<lparr>rt := (rt c)\<lparr>os_send := []\<rparr>\<rparr>"] by (simp add: same_queue_def)
next
  case (Cons a as)
  have u: "same_queue c (UpdateWriteInterest e (c\<lparr>rt := m\<rparr>))" "same_queue c (StartClose e r d (c\<lparr>rt := m\<rparr>))" for m r d
    using quiet_UpdateWriteInterest [OF Cons.prems, of "c\<lparr>rt := m\<rparr>"] quiet_StartClose [OF Cons.prems, of "c\<lparr>rt := m\<rparr>"]
    by (simp_all add: same_queue_def)
  have "same_queue c (account_sent d c)" for d by (simp add: account_sent_def same_queue_def split: prod.splits)
  then have "same_queue c (write_loop e as k (account_sent d c))" for k d
    using same_queue_trans Cons by blast
  then show ?case using u Cons by (auto simp: Let_def split: sum.splits)
qed

lemma quiet_send_task: "quiet e \<Longrightarrow> same_queue c (send_task e msg c)"
  using quiet_UpdateWriteInterest [of e "c\<lparr>pending_bytes := p, send_buffer := b, g_accepted := a\<rparr>" for p b a]
  by (auto simp: send_task_def same_queue_def)

lemma quiet_parse_loop:
  "quiet e \<Longrightarrow> parse_loop e cod merged off ms left c = (r, off', ms', c') \<Longrightarrow>
    same_queue c c' \<and> recv_buffer c' = recv_buffer c \<and> off \<le> off' \<and> ms' - ms \<le> off' - off"
proof (induction left arbitrary: off ms c)
  case (Suc left)
  show ?case
  proof (cases rule: parse_loop_step [of e cod merged off ms left c])
    case (frame n)
    let ?c = "c\<lparr>g_trace := g_trace c @ [OnMessage (take n (drop off merged))]\<rparr>"
    show ?thesis
    proof (cases "connected ?c")
      case True
      then have "parse_loop e cod merged (off + n) (Suc ms) left ?c = (r, off', ms', c')"
        using frame(5) Suc.prems by (simp add: quiet_invoke)
      from Suc.IH [OF Suc.prems(1) this] frame(3) show ?thesis by (auto simp: same_queue_def)
    qed (use frame(5) Suc.prems in \<open>auto simp: quiet_invoke same_queue_def\<close>)
  qed (use Suc.prems in \<open>auto simp: same_queue_def\<close>)
qed (simp add: same_queue_def)

lemma quiet_FinishDeferredClose:
  "quiet e \<Longrightarrow> same_queue c (FinishDeferredClose e c) \<and> input_len (FinishDeferredClose e c) \<le> input_len c"
  using quiet_StartClose [of e "c\<lparr>deferred_close_pending := False, deferred_close_desc := []\<rparr>"]
  by (auto simp: FinishDeferredClose_def Let_def same_queue_def input_len_def)

lemma posts_parse_refl [simp]: "posts_parse c c"
  by (simp add: posts_parse_def)

lemma posts_ScheduleParseContinuation: "posts_parse c (ScheduleParseContinuation c)"
  by (auto simp: ScheduleParseContinuation_def posts_parse_def Post_queue)

lemma quiet_finish_parse:
  assumes q: "quiet e"
  shows "posts_parse c (snd (finish_parse e off ms c))"
proof -
  let ?b = "\<lambda>b bad. c\<lparr>recv_buffer := b, g_fault := g_fault c \<or> bad\<rparr>"
  have "posts_parse c ((ScheduleParseContinuation (?b b bad))\<lparr>drain_yield_requested := True\<rparr>)" for b bad
    using posts_ScheduleParseContinuation [of "?b b bad"] by (simp add: posts_parse_def)
  moreover have "posts_parse c (StartClose e r d (?b b bad))" "posts_parse c (FinishDeferredClose e (?b b bad))" for b bad r d
    using quiet_StartClose [OF q, of "?b b bad"] quiet_FinishDeferredClose [OF q, of "?b b bad"]
    by (simp_all add: posts_parse_def same_queue_def)
  moreover obtain bad ok b where "(if off > 0 then move_header off (recv_buffer c) else (False, True, recv_buffer c)) = (bad, ok, b)"
    using prod_cases3 by blast
  ultimately show ?thesis unfolding finish_parse_result Let_def by simp
qed

lemma quiet_finish_parse_shrinks:
  assumes q: "quiet e" and inv: "buffer_inv (recv_buffer c)" "off \<le> input_len c" and pos: "kParseMessageBudget \<le> ms \<Longrightarrow> 0 < off"
  shows "input_len (snd (finish_parse e off ms c)) < input_len c \<or>
    input_len (snd (finish_parse e off ms c)) \<le> input_len c \<and> task_queue (snd (finish_parse e off ms c)) = task_queue c"
proof -
  obtain b where b: "(if off > 0 then move_header off (recv_buffer c) else (False, True, recv_buffer c)) = (False, True, b)"
      "buffer_bytes b = drop off (buffer_bytes (recv_buffer c))"
    using move_header_ok [OF inv(1), of off] inv(2) by (cases "off > 0") (auto simp: input_len_def)
  let ?c = "c\<lparr>recv_buffer := b\<rparr>"
  have len: "input_len ?c = input_len c - off" by (simp add: input_len_def b(2))
  have "input_len ((ScheduleParseContinuation ?c)\<lparr>drain_yield_requested := True\<rparr>) = input_len c - off"
    using len by (simp add: input_len_def ScheduleParseContinuation_def)
  moreover have "off > 0 \<and> off \<le> input_len c \<Longrightarrow> input_len c - off < input_len c" by simp
  moreover have "input_len (FinishDeferredClose e ?c) \<le> input_len c" "task_queue (FinishDeferredClose e ?c) = task_queue c"
    using quiet_FinishDeferredClose [OF q, of ?c] unfolding len same_queue_def by (linarith, simp)
  ultimately show ?thesis
    unfolding finish_parse_result b(1) Let_def using pos inv(2) by (auto simp: Let_def)
qed

lemma quiet_ParseInput:
  assumes q: "quiet e"
  shows "posts_parse c (snd (ParseInput e c))"
proof -
  let ?c = "c\<lparr>parse_continuation_pending := False\<rparr>"
  have fd: "posts_parse ?c (FinishDeferredClose e ?c)"
    using quiet_FinishDeferredClose [OF q, of ?c] by (simp add: posts_parse_def same_queue_def)
  have loop: "posts_parse ?c (c'\<lparr>g_fault := True\<rparr>) \<and> posts_parse ?c c' \<and> posts_parse ?c (StartClose e r' d c') \<and>
      posts_parse ?c (snd (finish_parse e off' ms' c'))"
    if "parse_loop e cod merged off ms left ?c = (r, off', ms', c')" for cod merged off ms left r off' ms' c' r' d
  proof -
    have s: "same_queue ?c c'" using quiet_parse_loop [OF q that] by simp
    show ?thesis
      using s same_then_posts [OF s quiet_finish_parse [OF q]] same_queue_trans [OF s quiet_StartClose [OF q, THEN conjunct1]]
      by (simp add: same_queue_posts) (simp add: same_queue_def posts_parse_def)
  qed
  have "posts_parse ?c (snd (ParseInput e c))"
  proof (cases "codec (opts c)")
    case None
    then show ?thesis using fd by (simp add: ParseInput_result Let_def)
  next
    case (Some cod)
    show ?thesis
    proof (cases "\<not> has_handler c \<or> GetBufferLength (recv_buffer c) = 0 \<or> Merge (fresh_byte e) (recv_buffer c) = None")
      case True
      have "posts_parse ?c (?c\<lparr>g_fault := True\<rparr>)" by (simp add: posts_parse_def)
      then show ?thesis using True fd Some by (auto simp: ParseInput_result Let_def)
    next
      case False
      then obtain m where m: "Merge (fresh_byte e) (recv_buffer c) = Some m" by auto
      obtain r off ms c' where l: "parse_loop e cod m 0 0 kParseMessageBudget ?c = (r, off, ms, c')"
        using prod_cases4 by blast
      show ?thesis using loop [OF l] l m False Some by (cases r) (simp_all add: ParseInput_result Let_def)
    qed
  qed
  then show ?thesis by (simp add: posts_parse_def)
qed

lemma quiet_ParseInput_shrinks:
  assumes q: "quiet e" and inv: "buffer_inv (recv_buffer c)" and con: "connected c"
  shows "input_len (snd (ParseInput e c)) < input_len c \<or>
    input_len (snd (ParseInput e c)) \<le> input_len c \<and> task_queue (snd (ParseInput e c)) = task_queue c"
proof -
  let ?c = "c\<lparr>parse_continuation_pending := False\<rparr>"
  have fd: "input_len (FinishDeferredClose e ?c) \<le> input_len c \<and> task_queue (FinishDeferredClose e ?c) = task_queue c"
    using quiet_FinishDeferredClose [OF q, of ?c] by (simp add: same_queue_def input_len_def)
  show ?thesis
  proof (cases "codec (opts c)")
    case None
    then show ?thesis using fd by (simp add: ParseInput_result Let_def)
  next
    case (Some cod)
    show ?thesis
    proof (cases "\<not> has_handler c \<or> GetBufferLength (recv_buffer c) = 0")
      case True
      then show ?thesis using fd Some by (simp add: ParseInput_result Let_def)
    next
      case False
      have "Merge (fresh_byte e) (recv_buffer c) = Some (buffer_bytes (recv_buffer c))"
        by (rule Merge_bytes [OF inv])
      moreover obtain r off ms c' where
        p: "parse_loop e cod (buffer_bytes (recv_buffer c)) 0 0 kParseMessageBudget ?c = (r, off, ms, c')"
        by (cases "parse_loop e cod (buffer_bytes (recv_buffer c)) 0 0 kParseMessageBudget ?c") auto
      ultimately have eq: "snd (ParseInput e c) = (case r of ParseFault \<Rightarrow> c'\<lparr>g_fault := True\<rparr>
          | ParseError \<Rightarrow> StartClose e kError ''protocol decode error'' c' | ParseGone \<Rightarrow> c'
          | ParseStop \<Rightarrow> snd (finish_parse e off ms c'))"
        using Some False by (cases r) (simp_all add: ParseInput_result Let_def)
      have c': "task_queue c' = task_queue c" "recv_buffer c' = recv_buffer c" "ms \<le> off"
        using quiet_parse_loop [OF q p] by (auto simp: same_queue_def)
      then have len: "input_len c' = input_len c" by (simp add: input_len_def)
      show ?thesis
      proof (cases r)
        case ParseStop
        have "off \<le> input_len c'"
          using parse_loop_progress [OF p] ParseStop con len by (auto simp: input_len_def)
        then show ?thesis
          using quiet_finish_parse_shrinks [OF q, of c' off ms] c' inv len eq ParseStop
          by (auto simp: kParseMessageBudget_def)
      next
        case ParseError
        then show ?thesis using quiet_StartClose [OF q, of c'] c' len eq by (simp add: same_queue_def)
      qed (use c' len eq in \<open>simp_all add: input_len_def\<close>)
    qed
  qed
qed

lemma quiet_DeferClose: "same_queue c (DeferCloseUntilInputDrained r d c)"
  by (simp add: DeferCloseUntilInputDrained_def same_queue_def)

lemma read_loop_queue: "same_queue c (snd (read_loop e as n c))"
proof (induction as arbitrary: n c)
  case (Cons a as)
  have "same_queue c (account_received d c)" for d by (simp add: account_received_def same_queue_def)
  then have "same_queue c (snd (read_loop e as k (account_received d c)))" for k d
    using same_queue_trans Cons.IH by blast
  then show ?case using Cons.IH by (auto simp: Let_def same_queue_def split: sum.splits)
qed (simp add: same_queue_def)

lemma quiet_HandleReadable:
  assumes q: "quiet e"
  shows "posts_parse c (HandleReadable e c)"
proof -
  obtain sc c' where l: "read_loop e (os_recv (rt c)) 0 c = (sc, c')" by fastforce
  have s: "same_queue c c'" using read_loop_queue [of c e "os_recv (rt c)" 0] l by simp
  have fin: "posts_parse a (finish_readable e sc p)" if "posts_parse a (snd p)" for a p
    using that posts_then_same quiet_StartClose [OF q, THEN conjunct1] quiet_DeferClose
    by (cases p; cases sc) (auto simp: finish_readable_def split: ParseStatus.splits)
  have "posts_parse c' (snd (ParseInput e c'))" by (rule quiet_ParseInput [OF q])
  then have "posts_parse c (snd (ParseInput e c'))" by (rule same_then_posts [OF s])
  then show ?thesis
    using fin fin [of c "(kDone, c')"] same_queue_posts [OF s] l unfolding HandleReadable_def PlatformHandleReadable_alt
    by simp
qed

lemma quiet_HandleConnected: "quiet e \<Longrightarrow> same_queue c (HandleConnected e c)"
  using quiet_StartClose [THEN conjunct1, of e]
  by (auto simp: HandleConnected_def PlatformAfterConnected_def same_queue_def Let_def quiet_invoke
      split: prod.splits option.splits)

lemma quiet_ConnectResolved: "quiet e \<Longrightarrow> same_queue c (ConnectResolved e addr c)"
proof -
  assume q: "quiet e"
  have "same_queue c c'" if "PlatformConnect e (register_socket f (c\<lparr>rt := n\<rparr>)) = (r, c')" for f n r c'
    using that by (auto simp: PlatformConnect_def same_queue_def Let_def split: prod.splits option.splits if_splits)
  then show ?thesis
    using same_queue_trans quiet_HandleConnected [OF q] quiet_StartClose [OF q, THEN conjunct1]
      quiet_StartClose [OF q, THEN conjunct1, of "c\<lparr>rt := n\<rparr>" for n]
    by (auto simp: ConnectResolved_def split: prod.splits sum.splits connect_result.splits) (auto simp: same_queue_def)
qed

lemma quiet_handle_io_event: "quiet e \<Longrightarrow> posts_parse c (handle_io_event e ev c)"
  using quiet_HandleReadable [of e c] quiet_write_loop [of e] posts_then_same same_queue_posts
  by (auto simp: handle_io_event_def HandleWritable_def PlatformHandleWritable_def Let_def)

lemma quiet_HandlePollEvent:
  assumes q: "quiet e"
  shows "posts_parse c (HandlePollEvent e ev c)"
proof -
  have s: "same_queue c c'" if "PlatformFinishConnect e c = (r, c')" for r c'
    using PlatformFinishConnect_result [OF that] by (auto simp: same_queue_def)
  have sc: "posts_parse c (StartClose e r d c')" if "same_queue c c'" for r d c'
    using that same_queue_posts same_queue_trans quiet_StartClose [OF q, THEN conjunct1] by blast
  have io: "posts_parse c (handle_io_event e ev c')" if "same_queue c c'" for c'
    by (rule same_then_posts [OF that quiet_handle_io_event [OF q]])
  have "same_queue c c" by (simp add: same_queue_def)
  have "posts_parse c (handle_error_event e ev c)"
    using s sc \<open>same_queue c c\<close> by (auto simp: handle_error_event_def split: prod.splits option.splits)
  moreover have "posts_parse c (case PlatformFinishConnect e c of
              (Some error, c) \<Rightarrow> StartClose e kConnectFailed error c
            | (None, c) \<Rightarrow> let c = HandleConnected e c in if \<not> IsConnected c then c else handle_io_event e ev c)"
    using s sc io same_queue_trans [OF _ quiet_HandleConnected [OF q]] same_queue_posts
    by (auto simp: Let_def split: prod.splits option.splits)
  ultimately show ?thesis
    using io [OF \<open>same_queue c c\<close>] by (simp add: HandlePollEvent_def HandleCompletion_def)
qed

lemma quiet_run_task:
  assumes q: "quiet e"
  shows "posts_parse c (run_task e t c)"
  using quiet_StartClose [OF q, THEN conjunct1] quiet_ConnectResolved [OF q] quiet_send_task [OF q]
    quiet_HandlePollEvent [OF q] quiet_ParseInput [OF q] same_queue_posts
  by (cases t) (auto simp: HandleTimerEvent_def parse_task_def)

text \<open>
  The work left: tasks other than parse tasks, then buffered input, then tasks. A parse task
  that posts its continuation has consumed input.
\<close>

definition work :: "ClientConnection \<Rightarrow> nat \<times> nat \<times> nat" where
  "work c = (length (filter (\<lambda>t. t \<noteq> TaskParse) (task_queue c)), input_len c, length (task_queue c))"

definition work_less :: "((nat \<times> nat \<times> nat) \<times> (nat \<times> nat \<times> nat)) set" where
  "work_less = less_than <*lex*> less_than <*lex*> less_than"

lemma wf_work_less: "wf work_less"
  unfolding work_less_def by (intro wf_lex_prod wf_less_than)

lemma trans_work_less: "trans work_less"
  unfolding work_less_def by (intro trans_lex_prod trans_less_than)

lemma work_irrelevant [simp]:
  "work (c\<lparr>draining := b\<rparr>) = work c" "work (c\<lparr>drain_yield_requested := b\<rparr>) = work c" "work (c\<lparr>drain_jobs := k\<rparr>) = work c"
  "work (ScheduleDrain c) = work c"
  by (simp_all add: work_def input_len_def ScheduleDrain_def)

definition calm_run :: "ClientConnection \<Rightarrow> bool" where
  "calm_run c \<longleftrightarrow> good c \<and> \<not> g_race c"

lemma task_work:
  assumes q: "quiet e" and c: "calm_run c" and p: "PopAvailableTaskNode c = (Some t, c')"
  shows "calm_run (run_task e t (c'\<lparr>queued_tasks := queued_tasks c' - 1\<rparr>))"
    and "(work (run_task e t (c'\<lparr>queued_tasks := queued_tasks c' - 1\<rparr>)), work c) \<in> work_less"
proof -
  let ?c = "c'\<lparr>queued_tasks := queued_tasks c' - 1\<rparr>"
  let ?d = "run_task e t ?c"
  obtain ts where ts: "task_queue c = t # ts" "c' = c\<lparr>task_queue := ts\<rparr>"
    using p by (auto simp: PopAvailableTaskNode_def split: list.splits)
  have pp: "posts_parse ?c ?d" by (rule quiet_run_task [OF q])
  show "calm_run ?d"
    using good_run_task [OF ready_pop [OF _ p]] c pp ts by (simp add: calm_run_def posts_parse_def)
  show "(work ?d, work c) \<in> work_less"
  proof (cases "t = TaskParse \<and> connected c")
    case True
    have "buffer_inv (recv_buffer ?c)" using c ts by (auto simp: calm_run_def good_def conn_core_def)
    then show ?thesis
      using quiet_ParseInput_shrinks [OF q, of ?c] True ts pp
      by (auto simp: work_def work_less_def parse_task_def IsConnected_def input_len_def posts_parse_def)
  next
    case False
    then show ?thesis
      using pp ts by (auto simp: work_def work_less_def posts_parse_def parse_task_def IsConnected_def input_len_def)
  qed
qed

lemma owner_close_work:
  assumes q: "quiet e" and c: "calm_run c"
  shows "calm_run (StartClose e kRelease [] (DrainTaskQueue c))"
    and "(work (StartClose e kRelease [] (DrainTaskQueue c)), work c) \<in> work_less\<^sup>="
    and "task_queue c \<noteq> [] \<Longrightarrow> (work (StartClose e kRelease [] (DrainTaskQueue c)), work c) \<in> work_less"
proof -
  note s = quiet_StartClose [OF q, of "DrainTaskQueue c" kRelease "[]"]
  show "calm_run (StartClose e kRelease [] (DrainTaskQueue c))"
    using good_owner_close c s by (simp add: calm_run_def same_queue_def DrainTaskQueue_eq)
  show strict: "(work (StartClose e kRelease [] (DrainTaskQueue c)), work c) \<in> work_less" if "task_queue c \<noteq> []"
    using s that by (auto simp: work_def work_less_def same_queue_def DrainTaskQueue_eq input_len_def)
  show "(work (StartClose e kRelease [] (DrainTaskQueue c)), work c) \<in> work_less\<^sup>="
    using s by (cases "task_queue c") (auto simp: work_def work_less_def same_queue_def DrainTaskQueue_eq input_len_def)
qed

lemma drain_loop_work:
  assumes q: "quiet e" and c: "calm_run c"
  shows "calm_run (drain_loop e n c)" and "(work (drain_loop e n c), work c) \<in> work_less\<^sup>="
proof -
  let ?P = "\<lambda>d. calm_run d \<and> (work d, work c) \<in> work_less\<^sup>="
  have step: "?P d'" if "?P d" "calm_run d'" "(work d', work d) \<in> work_less\<^sup>=" for d d'
    using that trans_work_less by (auto dest: transD)
  have "?P (drain_loop e n c)"
  proof (rule drain_loop_preserves [where P = ?P])
    fix d assume d: "?P d"
    show "?P (d\<lparr>draining := False\<rparr>)" "?P (d\<lparr>drain_yield_requested := False\<rparr>)" "?P (ScheduleDrain d)"
      using d by (simp_all add: calm_run_def ScheduleDrain_def)
    show "?P ((StartClose e kRelease [] (DrainTaskQueue d))\<lparr>draining := False\<rparr>)"
      using step [OF d owner_close_work(1,2) [OF q]] d by (simp add: calm_run_def)
  next
    fix d t d' assume d: "?P d" and p: "PopAvailableTaskNode d = (Some t, d')"
    show "?P (run_task e t (d'\<lparr>queued_tasks := queued_tasks d' - 1\<rparr>))"
      by (rule step [OF d]) (use task_work [OF q _ p] d in auto)
  qed (use c in simp)
  then show "calm_run (drain_loop e n c)" "(work (drain_loop e n c), work c) \<in> work_less\<^sup>=" by simp_all
qed

lemma drain_loop_task:
  assumes "\<not> owner_closing c" "PopAvailableTaskNode c = (Some t, c')"
    "d = run_task e t (c'\<lparr>queued_tasks := queued_tasks c' - 1\<rparr>)"
  shows "drain_loop e n c =
    (if drain_yield_requested d \<or> n + 1 \<ge> kDrainTaskBudget
     then if owner_closing d then drain_loop e (n + 1) (d\<lparr>drain_yield_requested := False\<rparr>)
          else ScheduleDrain (d\<lparr>drain_yield_requested := False\<rparr>)
     else drain_loop e (n + 1) d)"
  unfolding drain_loop.simps [of e n c] assms(2,3) using assms(1) by (simp only: Let_def prod.case option.case if_False)

lemma drain_loop_work_strict:
  assumes q: "quiet e" and c: "calm_run c" and ne: "task_queue c \<noteq> []"
  shows "(work (drain_loop e n c), work c) \<in> work_less"
proof (cases "owner_closing c")
  case True
  then show ?thesis using owner_close_work(3) [OF q c ne] by (simp add: drain_loop.simps [of e n c])
next
  case False
  obtain t ts where ts: "task_queue c = t # ts" using ne by (cases "task_queue c") auto
  then have p: "PopAvailableTaskNode c = (Some t, c\<lparr>task_queue := ts\<rparr>)" by (simp add: PopAvailableTaskNode_def)
  define d where "d = run_task e t (c\<lparr>task_queue := ts, queued_tasks := queued_tasks c - 1\<rparr>)"
  have d: "calm_run d" "(work d, work c) \<in> work_less" using task_work [OF q c p] by (simp_all add: d_def)
  have d': "calm_run (d\<lparr>drain_yield_requested := False\<rparr>)" using d(1) by (simp add: calm_run_def)
  have le: "(work x, work c) \<in> work_less" if "(work x, work d) \<in> work_less\<^sup>=" for x
    using that d(2) trans_work_less by (auto dest: transD)
  show ?thesis
    using le [OF drain_loop_work(2) [OF q d(1)]] le [of "drain_loop e (n + 1) (d\<lparr>drain_yield_requested := False\<rparr>)"]
      drain_loop_work(2) [OF q d', of "n + 1"] d(2)
    by (auto simp: drain_loop_task [OF False p, of d e] d_def)
qed

lemma drains_finish:
  assumes q: "quiet e"
  shows "calm_run c \<Longrightarrow> sched_ok c \<Longrightarrow>
    \<exists>k. task_queue (run e (replicate k InDrain) c) = [] \<and> drain_jobs (run e (replicate k InDrain) c) = 0"
proof (induction "work c" arbitrary: c rule: wf_induct_rule [OF wf_work_less])
  case (1 c)
  show ?case
  proof (cases "draining c")
    case False
    then have "task_queue (run e (replicate 0 InDrain) c) = [] \<and> drain_jobs (run e (replicate 0 InDrain) c) = 0"
      using "1.prems"(2) by (simp add: sched_ok_def)
    then show ?thesis by blast
  next
    case True
    then have j: "drain_jobs c = 1" using "1.prems"(2) by (simp add: sched_ok_def)
    define d where "d = c\<lparr>drain_jobs := 0, drain_yield_requested := False\<rparr>"
    have s: "step e InDrain c = drain_loop e 0 d" using j by (simp add: Drain_def d_def)
    have d: "calm_run d" "work d = work c" using "1.prems"(1) by (simp_all add: calm_run_def d_def)
    have next_: "\<exists>k. task_queue (run e (replicate k InDrain) c) = [] \<and> drain_jobs (run e (replicate k InDrain) c) = 0"
      if "\<exists>k. task_queue (run e (replicate k InDrain) (step e InDrain c)) = [] \<and>
            drain_jobs (run e (replicate k InDrain) (step e InDrain c)) = 0"
    proof -
      from that obtain k where "task_queue (run e (replicate k InDrain) (step e InDrain c)) = [] \<and>
            drain_jobs (run e (replicate k InDrain) (step e InDrain c)) = 0" by blast
      then have "task_queue (run e (replicate (Suc k) InDrain) c) = [] \<and> drain_jobs (run e (replicate (Suc k) InDrain) c) = 0"
        by simp
      then show ?thesis by blast
    qed
    show ?thesis
    proof (cases "task_queue c = []")
      case True
      then have "step e InDrain c = (if owner_closing d then (StartClose e kRelease [] (DrainTaskQueue d))\<lparr>draining := False\<rparr>
          else d\<lparr>draining := False\<rparr>)"
        unfolding s drain_loop.simps [of e 0 d] by (simp add: PopAvailableTaskNode_def d_def)
      then have "task_queue (run e (replicate 0 InDrain) (step e InDrain c)) = [] \<and>
          drain_jobs (run e (replicate 0 InDrain) (step e InDrain c)) = 0"
        using True by (simp add: StartClose_release DrainTaskQueue_eq d_def)
      then show ?thesis using next_ by blast
    next
      case False
      show ?thesis
        using "1.hyps" [OF _ _ sched_step [OF "1.prems"(2)], of e InDrain] drain_loop_work(1) [OF q d(1)]
          drain_loop_work_strict [OF q d(1), of 0] False d(2) s next_
        by (simp add: d_def)
    qed
  qed
qed

end
