(* ===== verification/Connection_Properties.thy ===== *)
theory Connection_Properties
  imports Connection_Scheduling
begin

text \<open>
  The properties of a client connection: for every sequence of calls, events, drain jobs
  and answers of the operating system, starting from a new connection.
\<close>

section \<open>A sample connection\<close>

text \<open>
  A connection with a newline codec whose socket is number 7 and whose connect succeeds at
  once; used to run the properties on concrete inputs.
\<close>

definition sample_env :: env where
  "sample_env = \<lparr>app = (\<lambda>_. []), FormatErrorMessage = (\<lambda>_. []), string_to_sockaddr = (\<lambda>_. None),
     size_max = SIZE_MAX32, fresh_byte = (\<lambda>_. 0)\<rparr>"

definition sample_opts :: ClientOptions where
  "sample_opts = \<lparr>codec = Some (Delimiter \<lparr>delimiter = 10\<rparr>),
     tcp = \<lparr>tcp_nodelay = 1, tcp_quickack = 0, send_buffer_size = 0, recv_buffer_size = 0, linger_sec = - 1,
            connect_timeout_ms = 0\<rparr>, local_address = None\<rparr>"

definition sample_net :: net where
  "sample_net = \<lparr>connections = ConnectionTable_new, timers = [], poll_regs = (\<lambda>_. None), wakes = 0, now_ms = 0,
     open_fds = [], os_socket = [Inr 7], os_option = [], os_connect = [], os_soerror = [], os_poller = [],
     os_recv = [Inr [1, 10, 2], Inr []], os_send = []\<rparr>"

definition sample_conn :: ClientConnection where
  "sample_conn = ClientConnection_new 0 True sample_opts sample_net"

definition sample_connect :: "input list" where
  "sample_connect = [InCall (AppConnect (Some ''h'') (None, Some [[]])), InDrain]"

definition sample_read :: "input list" where
  "sample_read = sample_connect @
     [InPoll \<lparr>ev_id = \<lparr>slot = 0, generation = 1\<rparr>, events = kPollEventReadable, error_code = 0, operation = kPollOpReady\<rparr>,
      InDrain]"

lemmas sample_eval = sample_env_def sample_opts_def sample_net_def sample_conn_def sample_connect_def sample_read_def
  ClientConnection_new_def ConnectionId_none_def InvalidSocketHandle_def
  Connect_def Disconnect_def Post_def ScheduleDrain_def Drain_def drain_loop.simps PopAvailableTaskNode_def ConnectResolved_def
  PlatformOpenSocket_def ApplyTcpOptions_def SetNonBlocking_def SetCloseOnExec_def sys_option_def try_option_def
  IsValidSocketHandle_def register_socket_def Register_def ConnectionTable_new_def Entry_new_def next_generation_def
  PlatformConnect_def Poller_Add_def Poller_Modify_def HandleConnected_def PlatformAfterConnected_def invoke_def
  kDrainTaskBudget_def ClientConnection_SendBuffer_def IsConnected_def IsConnecting_def send_task_def AddSlice_def
  UpdateWriteInterest_def PlatformStartSend_def SliceBuffer_Empty_def valid_def SliceBuffer_new_def PostPollEvent_def
  HandlePollEvent_def kPollEventError_def kPollEventReadable_def kPollEventWritable_def kPollReadable_def kPollWritable_def
  handle_io_event_def HandleReadable_def HandleWritable_def PlatformHandleReadable_def PlatformHandleWritable_def
  kMaxReadBytesPerEvent_def kMaxWriteBytesPerEvent_def kRecvCacheSize_def account_received_def GetBufferLength_def
  ParseInput_def finish_parse_def kParseMessageBudget_def input_ok_def
  CloseFromOwner_other_def begin_release_def StartClose_def begin_close_def FinishClose_def close_notifies_def close_defs
  ClearBuffer_def FinishDeferredClose_def DeferCloseUntilInputDrained_def parse_status_def

lemma sample_connected:
  "inputs_ok sample_env (sample_connect @ [InCall (AppSend [5]), InDrain]) sample_conn"
  "\<not> g_race (run sample_env (sample_connect @ [InCall (AppSend [5]), InDrain]) sample_conn)"
  "state (run sample_env (sample_connect @ [InCall (AppSend [5]), InDrain]) sample_conn) = kConnected"
  by (simp_all add: sample_eval)

lemma parse_loop_numeral:
  "parse_loop e cod merged offset messages (numeral k) c =
     (if \<not> offset < length merged then (ParseStop, offset, messages, c)
      else case Codec_Decode (size_max e) cod (drop offset merged) of
        None \<Rightarrow> (ParseFault, offset, messages, c)
      | Some (result, consumed) \<Rightarrow>
          if result = kNeedMoreData then (ParseStop, offset, messages, c)
          else if result = kDecodeError \<or> consumed = 0 \<or> consumed > length merged - offset
               then (ParseError, offset, messages, c)
          else let c = invoke e (OnMessage (take consumed (drop offset merged))) c
               in if \<not> IsConnected c then (ParseGone, offset, messages, c)
                  else parse_loop e cod merged (offset + consumed) (Suc messages) (pred_numeral k) c)"
  by (simp only: numeral_eq_Suc parse_loop.simps)

lemmas sample_parse = parse_loop_numeral Codec_Decode.simps DelimiterCodec_Decode_def Merge_def SliceCount_def
  move_header_def MoveHeader.simps

lemma sample_has_read:
  "inputs_ok sample_env sample_read sample_conn"
  "g_rx (run sample_env sample_read sample_conn) = [1, 10, 2]"
  "g_close (run sample_env sample_read sample_conn) = Some kRemoteClosed"
  "\<not> g_race (run sample_env sample_read sample_conn)"
  by (simp_all add: sample_eval sample_parse)

lemma session_open_shape: "session_open tr \<Longrightarrow> \<exists>pre msgs. tr = pre @ OnConnected # map OnMessage msgs"
proof (induction tr rule: rev_induct)
  case (snoc cb tr)
  show ?case
  proof (cases cb)
    case OnConnected
    have "tr @ [cb] = tr @ OnConnected # map OnMessage []" by (simp add: OnConnected)
    then show ?thesis by blast
  next
    case (OnMessage m)
    then obtain pre msgs where "tr = pre @ OnConnected # map OnMessage msgs" using snoc by auto
    then have "tr @ [cb] = pre @ OnConnected # map OnMessage (msgs @ [m])" by (simp add: OnMessage)
    then show ?thesis by blast
  qed (use snoc.prems in simp_all)
qed (simp add: session_open_def)

lemma run_append: "run e (is @ js) c = run e js (run e is c)"
  by (induction "is" arbitrary: c) simp_all

lemma StartClose_silent_race: "g_race (StartClose_silent c) = g_race c"
  by (auto simp: StartClose_silent_def begin_close_def split: option.splits if_splits)

lemma Acquire_Unregister: "Acquire alive cid (Unregister cid t) = None"
  by (auto simp: Acquire_def Unregister_def Let_def)

lemma timer_pq_push_set: "x \<in> set (pq_push x q)"
  by (simp add: pq_push_def set_insort_key)

lemma AddSlice_content: "buffer_bytes (AddSlice s b) = buffer_bytes b @ s"
  by (simp add: AddSlice_def buffer_bytes_def)

lemma register_socket_rest:
  "open_fds (rt (register_socket f c)) = open_fds (rt c)" "os_connect (rt (register_socket f c)) = os_connect (rt c)"
  "os_poller (rt (register_socket f c)) = os_poller (rt c)" "drain_yield_requested (register_socket f c) = drain_yield_requested c"
  by (simp_all add: register_socket_def Let_def Poller_Wake_def split: prod.splits)

lemma read_loop_bounds:
  assumes "read_loop e answers k c = (r, c')" "k < kMaxReadBytesPerEvent + kRecvCacheSize"
  shows "k + length (g_rx c') < length (g_rx c) + kMaxReadBytesPerEvent + kRecvCacheSize \<and>
      (\<exists>data. g_rx c' = g_rx c @ data \<and> buffer_bytes (recv_buffer c') = buffer_bytes (recv_buffer c) @ data \<and>
              bytes_received c' = bytes_received c + of_nat (length data)) \<and>
      (\<exists>used. answers = used @ os_recv (rt c'))"
  using assms
proof (induction answers arbitrary: k c)
  case (Cons a as)
  have keep: "?case" if "read_loop e as k' c1 = (r, c')" "k' < kMaxReadBytesPerEvent + kRecvCacheSize"
      "g_rx c1 = g_rx c @ d" "k' = k + length d" "buffer_bytes (recv_buffer c1) = buffer_bytes (recv_buffer c) @ d"
      "bytes_received c1 = bytes_received c + of_nat (length d)" for k' c1 d
    using Cons.IH [OF that(1,2)] that(3-6) by auto
  show ?case
  proof (cases "k < kMaxReadBytesPerEvent")
    case True
    show ?thesis
    proof (cases a)
      case (Inl errno)
      then show ?thesis using Cons.prems True keep [of k c "[]"] by (auto split: if_splits)
    next
      case (Inr bs)
      let ?d = "take kRecvCacheSize bs"
      show ?thesis
      proof (cases "?d = []")
        case True
        then show ?thesis using Cons.prems Inr \<open>k < kMaxReadBytesPerEvent\<close> by (auto simp: Let_def)
      next
        case False
        have "k + length ?d < kMaxReadBytesPerEvent + kRecvCacheSize" using True by simp
        moreover have "read_loop e as (k + length ?d) (account_received ?d c) = (r, c')"
          using Cons.prems(1) Inr True False by (simp add: Let_def)
        ultimately show ?thesis
          using keep [of "k + length ?d" "account_received ?d c" ?d]
          by (simp add: account_received_def AddSlice_content)
      qed
    qed
  qed (use Cons.prems in auto)
qed auto

section \<open>State and data\<close>



text \<open>
  C1: With one of the built-in codecs, the messages handed to the application since the
  connection was established are exactly the frames of the received byte stream, whatever
  pieces it arrived in and however often parsing was interrupted: at every moment they are
  a prefix of those frames, they are all of them once no parsing is pending, and when the
  connection ends because the peer closed it, every complete message has been delivered
  before. No step accesses a buffer out of bounds.
\<close>

theorem messages_delivered:
  assumes "builtin_codec (size_max e) cod" "codec copts = Some cod"
    and "inputs_ok e is (ClientConnection_new me True copts n)"
    and "c = run e is (ClientConnection_new me True copts n)" "\<not> g_race c" "length (g_rx c) \<le> size_max e"
  shows "\<not> g_fault c \<and>
    (connected c \<longrightarrow> (\<exists>more. fst (frames (codec_call (size_max e) cod) (g_rx c)) = session_msgs (g_trace c) @ more)) \<and>
    (connected c \<and> \<not> owner_closing c \<and> TaskParse \<notin> set (task_queue c) \<longrightarrow>
       (\<exists>rest. frames (codec_call (size_max e) cod) (g_rx c) = (session_msgs (g_trace c), rest, False))) \<and>
    (g_close c = Some kRemoteClosed \<longrightarrow>
       (\<exists>rest. frames (codec_call (size_max e) cod) (g_rx c) = (session_msgs (g_trace c), rest, False)))"
proof -
  have s: "session_inv e cod c"
    unfolding assms(4) by (rule session_inv_run [OF assms(1) session_inv_new [OF assms(2)] assms(3)])
  then have d: "deliv e cod c" and "good c" using assms(5) by (simp_all add: session_inv_def)
  then have acc: "accepting_tasks c \<longleftrightarrow> \<not> owner_closing c" using assms(5) by (simp add: good_def conn_core_def)
  have core: "deliv_core e cod c" "parse_pending e cod c" using d by (simp_all add: deliv_def)
  have tr: "connected c \<Longrightarrow> tracks e cod (buffer_bytes (recv_buffer c)) c"
    and rc: "g_close c = Some kRemoteClosed \<Longrightarrow> all_delivered e cod c" and nf: "\<not> g_fault c"
    using core(1) assms(6) by (simp_all add: deliv_core_def in_bounds_def)
  have "connected c \<Longrightarrow> \<exists>more. fst (cut e cod (g_rx c)) = session_msgs (g_trace c) @ more"
    using tr by (auto simp: tracks_def split: prod.splits)
  moreover have "connected c \<and> \<not> owner_closing c \<and> TaskParse \<notin> set (task_queue c) \<Longrightarrow>
      \<exists>rest. cut e cod (g_rx c) = (session_msgs (g_trace c), rest, False)"
    using tr core(2) acc by (auto simp: tracks_def parse_pending_def stuck_def)
  ultimately show ?thesis using rc nf by (auto simp: all_delivered_def)
qed

theorem messages_delivered_witness:
  "\<exists>rest. frames (codec_call (size_max sample_env) (Delimiter \<lparr>delimiter = 10\<rparr>)) [1, 10, 2] =
     (session_msgs (g_trace (run sample_env sample_read sample_conn)), rest, False)"
proof -
  have "builtin_codec (size_max sample_env) (Delimiter \<lparr>delimiter = 10\<rparr>)" by simp
  moreover have "codec sample_opts = Some (Delimiter \<lparr>delimiter = 10\<rparr>)" by (simp add: sample_opts_def)
  moreover have "length (g_rx (run sample_env sample_read sample_conn)) \<le> size_max sample_env"
    by (simp add: sample_has_read(2)) (simp add: sample_env_def SIZE_MAX32_def)
  ultimately show ?thesis
    using messages_delivered [OF _ _ sample_has_read(1) [unfolded sample_conn_def] refl] sample_has_read
    by (simp add: sample_conn_def)
qed

text \<open>
  C14: The callbacks come in a sensible order, whatever the handler does in them, including
  disconnecting, reconnecting and releasing the client: \<open>OnMessage\<close> and \<open>OnClosed\<close> only come in
  a session, that is after an \<open>OnConnected\<close> that no \<open>OnClosed\<close> or \<open>OnConnectFailed\<close> has
  followed.
\<close>

theorem callback_order:
  assumes "builtin_codec (size_max e) cod" "codec copts = Some cod"
    and "inputs_ok e is (ClientConnection_new me True copts n)"
    and "\<not> g_race (run e is (ClientConnection_new me True copts n))"
    and "g_trace (run e is (ClientConnection_new me True copts n)) = before @ cb # after"
    and "cb = OnClosed \<or> cb = OnMessage m"
  shows "\<exists>pre msgs. before = pre @ OnConnected # map OnMessage msgs"
proof -
  let ?c = "run e is (ClientConnection_new me True copts n)"
  have "session_inv e cod ?c" by (rule session_inv_run [OF assms(1) session_inv_new [OF assms(2)] assms(3)])
  then have "trace_ok (g_trace ?c)" using assms(4) by (simp add: session_inv_def deliv_def deliv_core_def)
  then have "session_open before"
    unfolding assms(5) trace_ok_def using assms(6) by (auto dest!: spec [of _ "length before"])
  then show ?thesis by (rule session_open_shape)
qed

theorem callback_order_witness:
  "\<exists>pre msgs. [OnConnected, OnMessage [1, 10]] = pre @ OnConnected # map OnMessage msgs"
proof (rule callback_order [OF _ _ sample_has_read(1) [unfolded sample_conn_def] sample_has_read(4) [unfolded sample_conn_def]])
  show "g_trace (run sample_env sample_read (ClientConnection_new 0 True sample_opts sample_net)) =
      [OnConnected, OnMessage [1, 10]] @ OnClosed # []"
    by (simp add: sample_eval sample_parse)
  show "OnClosed = OnClosed \<or> OnClosed = OnMessage []" by simp
  show "builtin_codec (size_max sample_env) (Delimiter \<lparr>delimiter = 10\<rparr>)" by simp
  show "codec sample_opts = Some (Delimiter \<lparr>delimiter = 10\<rparr>)" by (simp add: sample_opts_def)
qed

section \<open>Scheduling\<close>



text \<open>
  C6: If the callbacks of the application make no calls, then from every reachable state
  finitely many drain jobs finish all queued work, although each job only runs a bounded
  number of tasks and parse tasks post further parse tasks: the queue becomes empty and
  no job is left.
\<close>

theorem queued_work_finishes:
  assumes "\<And>tr. app e tr = []" and "inputs_ok e is (ClientConnection_new me h copts n)"
    and "\<not> g_race (run e is (ClientConnection_new me h copts n))"
  shows "\<exists>k. let c = run e (is @ replicate k InDrain) (ClientConnection_new me h copts n)
             in task_queue c = [] \<and> drain_jobs c = 0"
proof -
  let ?c = "run e is (ClientConnection_new me h copts n)"
  have "quiet e" using assms(1) by (simp add: quiet_def)
  moreover have "calm_run ?c" using good_run [OF good_new assms(2)] assms(3) by (simp add: calm_run_def)
  ultimately obtain k where
    "task_queue (run e (replicate k InDrain) ?c) = [] \<and> drain_jobs (run e (replicate k InDrain) ?c) = 0"
    using drains_finish [OF _ _ sched_run [OF sched_new]] by blast
  then show ?thesis by (auto simp: run_append Let_def)
qed

theorem queued_work_finishes_witness:
  "\<exists>k. let c = run sample_env (sample_read @ replicate k InDrain) (ClientConnection_new 0 True sample_opts sample_net)
       in task_queue c = [] \<and> drain_jobs c = 0"
  by (rule queued_work_finishes [OF _ sample_has_read(1) [unfolded sample_conn_def] sample_has_read(4) [unfolded sample_conn_def]])
    (simp add: sample_env_def)



section \<open>Connecting\<close>

text \<open>
  C16: \<open>ConnectResolved\<close> does not look at the state of the connection. If \<open>Disconnect\<close> is called on
  an idle connection and \<open>Connect\<close> right after it, then the queued disconnect ends the new
  attempt before its socket exists, and the queued second half of \<open>Connect\<close> then opens a
  socket for it all the same: the connection is idle and the application hears nothing,
  while the socket is open and registered with the poller.
\<close>

theorem disconnect_then_connect_leaks:
  assumes "os_socket n = Inr f # rest" "0 \<le> f" "os_option n = []" "os_connect n = []" "os_poller n = []"
    and "local_address copts = None"
  shows "let c = run e [InCall AppDisconnect, InCall (AppConnect (Some hosts) (None, Some [addr])), InDrain]
                   (ClientConnection_new me h copts n)
    in state c = kIdle \<and> g_trace c = [] \<and> task_queue c = [] \<and> fd c = f \<and> f \<in> set (open_fds (rt c)) \<and>
       poll_regs (rt c) f = Some (conn_id c, kPollReadable)"
proof -
  have opt: "sys_option m = (None, m)" if "os_option m = []" for m
    using that by (simp add: sys_option_def)
  have open_: "PlatformOpenSocket e copts m = (Inr f, m\<lparr>os_socket := rest, open_fds := f # open_fds m\<rparr>)"
    if "os_socket m = Inr f # rest" "os_option m = []" for m
    using that assms(2,6)
    by (simp add: PlatformOpenSocket_def ApplyTcpOptions_def SetNonBlocking_def SetCloseOnExec_def try_option_def opt
        IsValidSocketHandle_def Let_def)
  let ?c0 = "ClientConnection_new me h copts n"
  let ?q = "[TaskDisconnect, TaskConnectResolved addr]"
  define a where "a = ?c0\<lparr>state := kConnecting, g_race := True, task_queue := ?q, queued_tasks := Suc (Suc 0), draining := True\<rparr>"
  have run2: "run e [InCall AppDisconnect, InCall (AppConnect (Some hosts) (None, Some [addr])), InDrain] ?c0 = drain_loop e 0 a"
    by (simp add: a_def Disconnect_def Connect_def Post_def ScheduleDrain_def Drain_def ClientConnection_new_def)
  define b where "b = run_task e TaskDisconnect (a\<lparr>task_queue := [TaskConnectResolved addr], queued_tasks := 1\<rparr>)"
  have b: "state b = kIdle" "g_trace b = []" "task_queue b = [TaskConnectResolved addr]" "rt b = n" "opts b = copts"
      "\<not> owner_closing b" "\<not> drain_yield_requested b"
    by (simp_all add: b_def a_def StartClose_def begin_close_def FinishClose_def close_notifies_def close_defs
        ClientConnection_new_def ConnectionId_none_def valid_def InvalidSocketHandle_def IsValidSocketHandle_def)
  define d where "d = run_task e (TaskConnectResolved addr) (b\<lparr>task_queue := [], queued_tasks := queued_tasks b - 1\<rparr>)"
  have d: "state d = kIdle" "g_trace d = []" "task_queue d = []" "fd d = f" "f \<in> set (open_fds (rt d))"
      "poll_regs (rt d) f = Some (conn_id d, kPollReadable)" "\<not> owner_closing d" "\<not> drain_yield_requested d"
    using b assms
    by (simp_all add: d_def ConnectResolved_def open_ PlatformConnect_def Poller_Add_def HandleConnected_def register_socket_rest Let_def)
  have "drain_loop e 0 a = drain_loop e 1 b"
    using b drain_loop_task [of a TaskDisconnect "a\<lparr>task_queue := [TaskConnectResolved addr]\<rparr>" b e 0]
    by (simp add: PopAvailableTaskNode_def a_def b_def ClientConnection_new_def kDrainTaskBudget_def)
  also have "\<dots> = drain_loop e 2 d"
    using b d drain_loop_task [of b "TaskConnectResolved addr" "b\<lparr>task_queue := []\<rparr>" d e 1]
    by (simp add: PopAvailableTaskNode_def d_def kDrainTaskBudget_def numeral_2_eq_2)
  also have "\<dots> = d\<lparr>draining := False\<rparr>"
    using d by (subst drain_loop.simps) (simp add: PopAvailableTaskNode_def)
  finally show ?thesis using d unfolding run2 Let_def by simp
qed

theorem disconnect_then_connect_leaks_witness:
  "let c = run sample_env [InCall AppDisconnect, InCall (AppConnect (Some ''h'') (None, Some [[]])), InDrain] sample_conn
   in state c = kIdle \<and> g_trace c = [] \<and> 7 \<in> set (open_fds (rt c))"
  using disconnect_then_connect_leaks [of sample_net 7 "[]" sample_opts sample_env "''h''" "[]" 0 True]
  by (simp add: sample_net_def sample_opts_def sample_conn_def Let_def)

text \<open>
  C15: The timer that a connection attempt starts is armed for exactly the configured time,
  and when it fires while the attempt is still pending, the attempt ends: the socket is
  closed and unregistered, and the handler is told \<open>connect timeout\<close>. A timer of another
  attempt (another id or another deadline) and a timer that fires after the connection was
  established have no effect.
\<close>

theorem connect_timeout:
  assumes "0 < connect_timeout_ms (tcp (opts c))" "c' = register_socket f c" "state c = kConnecting" "0 \<le> f"
    and "has_handler c" "\<And>tr. app e tr = []"
  shows "(let ev = \<lparr>deadline_ms = now_ms (rt c) + connect_timeout_ms (tcp (opts c)), timer_id = conn_id c',
                   kind = TimerKind_kConnectTimeout\<rparr>;
             d = HandleTimerEvent e ev c'
         in ev \<in> set (timers (rt c')) \<and> state d = kIdle \<and> g_trace d = g_trace c @ [OnConnectFailed ''connect timeout''] \<and>
            f \<notin> set (open_fds (rt d)) \<and> poll_regs (rt d) f = None \<and>
            Acquire alive (conn_id c') (connections (rt d)) = None) \<and>
    (\<forall>ev b. timer_id ev \<noteq> conn_id b \<or> state b \<noteq> kConnecting \<or> connect_deadline_ms b \<noteq> deadline_ms ev \<longrightarrow>
       HandleTimerEvent e ev b = b)"
proof -
  obtain cid tab where r: "Register (self c) (connections (rt c)) = (cid, tab)" by fastforce
  have v: "valid cid" using register_socket_valid [of f c] by (simp add: register_socket_def r Let_def split: if_splits)
  have c': "c' = c\<lparr>fd := f, conn_id := cid, connect_deadline_ms := now_ms (rt c) + connect_timeout_ms (tcp (opts c)),
      rt := Poller_Wake ((rt c)\<lparr>connections := tab, timers := TimerQueue_Add
        (now_ms (rt c) + connect_timeout_ms (tcp (opts c))) cid TimerKind_kConnectTimeout (timers (rt c))\<rparr>)\<rparr>"
    using assms(1) by (simp add: assms(2) register_socket_def r Let_def)
  have t: "\<lparr>deadline_ms = dl, timer_id = cid, kind = k\<rparr> \<in> set (TimerQueue_Add dl cid k q)" for dl k q
    using v by (simp add: TimerQueue_Add_def timer_pq_push_set)
  show ?thesis
    using assms(3-6) v t
    by (simp add: c' Let_def HandleTimerEvent_def StartClose_def begin_close_def FinishClose_def close_notifies_def close_defs
        IsValidSocketHandle_def invoke_def Poller_Wake_def Acquire_Unregister)
qed

theorem connect_timeout_witness:
  "let c = sample_conn\<lparr>opts := sample_opts\<lparr>tcp := (tcp sample_opts)\<lparr>connect_timeout_ms := 30\<rparr>\<rparr>, state := kConnecting\<rparr>;
       c' = register_socket 7 c;
       ev = \<lparr>deadline_ms = 30, timer_id = conn_id c', kind = TimerKind_kConnectTimeout\<rparr>
   in ev \<in> set (timers (rt c')) \<and> state (HandleTimerEvent sample_env ev c') = kIdle"
  using connect_timeout [of "sample_conn\<lparr>opts := sample_opts\<lparr>tcp := (tcp sample_opts)\<lparr>connect_timeout_ms := 30\<rparr>\<rparr>, state := kConnecting\<rparr>"
      "register_socket 7 (sample_conn\<lparr>opts := sample_opts\<lparr>tcp := (tcp sample_opts)\<lparr>connect_timeout_ms := 30\<rparr>\<rparr>, state := kConnecting\<rparr>)"
      7 sample_env "\<lambda>_. True"]
  by (simp add: sample_conn_def ClientConnection_new_def sample_net_def sample_env_def Let_def)

section \<open>Fairness\<close>

text \<open>
  C17: One readable event takes fewer than \<open>kMaxReadBytesPerEvent + kRecvCacheSize\<close> bytes from
  the socket however much is waiting there, and it takes them in order: what it adds to the
  receive buffer is what the socket gave, and what the socket still holds is kept.
\<close>

theorem read_bounded:
  "let (should_close, c') = read_loop e answers 0 c
   in length (g_rx c') < length (g_rx c) + kMaxReadBytesPerEvent + kRecvCacheSize \<and>
      (\<exists>data. g_rx c' = g_rx c @ data \<and> buffer_bytes (recv_buffer c') = buffer_bytes (recv_buffer c) @ data \<and>
              bytes_received c' = bytes_received c + of_nat (length data)) \<and>
      (\<exists>used. answers = used @ os_recv (rt c'))"
  using read_loop_bounds [of e answers 0 c] by (auto simp: Let_def kRecvCacheSize_def kMaxReadBytesPerEvent_def split: prod.splits)

theorem read_bounded_witness:
  "let (should_close, c') = read_loop sample_env [Inr [1, 2], Inl EAGAIN, Inr [3]] 0 sample_conn
   in length (g_rx c') < length (g_rx sample_conn) + kMaxReadBytesPerEvent + kRecvCacheSize"
  using read_bounded [of sample_env "[Inr [1, 2], Inl EAGAIN, Inr [3]]" sample_conn] by (auto split: prod.splits)

end
