(* ===== verification/Mpsc_Queues.thy ===== *)
theory Mpsc_Queues
  imports Connx_Prelude "HOL-Library.Multiset"
begin

text \<open>
  The queue with many producers and one consumer (src/utils/mpscq.h, src/utils/mpscq.cc): a
  linked list with a stub node. \<open>push\<close> exchanges \<open>newest_\<close> and then links the previous node to
  the new one, so that between the two steps the list has a gap. The model interleaves the
  atomic accesses of any number of producers and of the consumer. Stores and loads take
  effect in one global order.
\<close>

section \<open>The queue\<close>

datatype node = stub | task_node nat

record mpscq =
  newest :: node
  oldest :: node
  nxt :: "node \<Rightarrow> node option"

definition mpscq_new :: mpscq where
  "mpscq_new = \<lparr>newest = stub, oldest = stub, nxt = (\<lambda>_. None)\<rparr>"

text \<open>The two atomic steps of \<open>push\<close>; the first gives the previous newest node.\<close>

definition push_exchange :: "node \<Rightarrow> mpscq \<Rightarrow> node \<times> mpscq" where
  "push_exchange n q = (newest q, q\<lparr>nxt := (nxt q)(n := None), newest := n\<rparr>)"

definition push_link :: "node \<Rightarrow> node \<Rightarrow> mpscq \<Rightarrow> bool \<times> mpscq" where
  "push_link prev n q = (prev = stub, q\<lparr>nxt := (nxt q)(prev \<mapsto> n)\<rparr>)"

definition push :: "node \<Rightarrow> mpscq \<Rightarrow> bool \<times> mpscq" where
  "push n q = (case push_exchange n q of (prev, q) \<Rightarrow> push_link prev n q)"

text \<open>
  The steps of \<open>PopAndCheckEnd\<close>, by the atomic access they start with: the first load of
  \<open>oldest_->next\<close>; the load of \<open>tail->next\<close> after the stub was skipped; the load of \<open>newest_\<close>;
  the two steps of \<open>push(&stub_)\<close>; the last load of \<open>tail->next\<close>. The result of a call is the
  node and the flag \<open>empty\<close>.
\<close>

datatype pop_pc = Pop_first | Pop_next node | Pop_head node | Pop_push node | Pop_link node node | Pop_last node

type_synonym pop_result = "node option \<times> bool"

definition take_node :: "node \<Rightarrow> node \<Rightarrow> mpscq \<Rightarrow> (pop_pc + pop_result) \<times> mpscq" where
  "take_node tail obj q = (Inr (Some tail, False), q\<lparr>oldest := obj\<rparr>)"

fun pop_step :: "pop_pc \<Rightarrow> mpscq \<Rightarrow> (pop_pc + pop_result) \<times> mpscq" where
  "pop_step Pop_first q =
     (let tail = oldest q
      in case nxt q tail of
           None \<Rightarrow> if tail = stub then (Inr (None, True), q) else (Inl (Pop_head tail), q)
         | Some obj \<Rightarrow> if tail = stub then (Inl (Pop_next obj), q\<lparr>oldest := obj\<rparr>) else take_node tail obj q)"
| "pop_step (Pop_next tail) q =
     (case nxt q tail of None \<Rightarrow> (Inl (Pop_head tail), q) | Some obj \<Rightarrow> take_node tail obj q)"
| "pop_step (Pop_head tail) q =
     (if tail \<noteq> newest q then (Inr (None, False), q) else (Inl (Pop_push tail), q))"
| "pop_step (Pop_push tail) q =
     (case push_exchange stub q of (prev, q) \<Rightarrow> (Inl (Pop_link tail prev), q))"
| "pop_step (Pop_link tail prev) q =
     (case push_link prev stub q of (first, q) \<Rightarrow> (Inl (Pop_last tail), q))"
| "pop_step (Pop_last tail) q =
     (case nxt q tail of None \<Rightarrow> (Inr (None, False), q) | Some obj \<Rightarrow> take_node tail obj q)"

text \<open>The whole call without interference. A call never returns to an earlier step.\<close>

fun pop_rank :: "pop_pc \<Rightarrow> nat" where
  "pop_rank Pop_first = 6"
| "pop_rank (Pop_next t) = 5"
| "pop_rank (Pop_head t) = 4"
| "pop_rank (Pop_push t) = 3"
| "pop_rank (Pop_link t p) = 2"
| "pop_rank (Pop_last t) = 1"

lemma pop_step_rank: "pop_step pc q = (Inl pc', q') \<Longrightarrow> pop_rank pc' < pop_rank pc"
  by (cases pc) (auto simp: take_node_def Let_def split: option.splits if_splits prod.splits)

function pop_from :: "pop_pc \<Rightarrow> mpscq \<Rightarrow> pop_result \<times> mpscq" where
  "pop_from pc q =
     (case pop_step pc q of (Inr res, q) \<Rightarrow> (res, q) | (Inl pc, q) \<Rightarrow> pop_from pc q)"
  by pat_completeness auto
termination
  by (relation "measure (\<lambda>(pc, q). pop_rank pc)") (auto dest: pop_step_rank [OF sym])

declare pop_from.simps [simp del]

definition PopAndCheckEnd :: "mpscq \<Rightarrow> pop_result \<times> mpscq" where
  "PopAndCheckEnd q = pop_from Pop_first q"

definition pop :: "mpscq \<Rightarrow> node option \<times> mpscq" where
  "pop q = (case PopAndCheckEnd q of ((n, e), q) \<Rightarrow> (n, q))"

section \<open>Interleaved runs\<close>

text \<open>
  Producers that have exchanged but not yet linked are pairs of their node and its
  predecessor. \<open>g_order\<close>, \<open>g_pushed\<close> and \<open>g_popped\<close> are ghost fields: the nodes from \<open>oldest_\<close> to
  \<open>newest_\<close> in the order of the exchanges, and the histories of the task nodes.
\<close>

record mpsc =
  queue :: mpscq
  linking :: "(node \<times> node) list"
  popping :: pop_pc
  g_order :: "node list"
  g_pushed :: "node list"
  g_popped :: "node list"

definition mpsc_new :: mpsc where
  "mpsc_new = \<lparr>queue = mpscq_new, linking = [], popping = Pop_first, g_order = [stub], g_pushed = [], g_popped = []\<rparr>"

definition producer_exchange :: "nat \<Rightarrow> mpsc \<Rightarrow> mpsc" where
  "producer_exchange k s =
     (case push_exchange (task_node k) (queue s) of (prev, q) \<Rightarrow>
        s\<lparr>queue := q, linking := linking s @ [(task_node k, prev)], g_order := g_order s @ [task_node k],
          g_pushed := g_pushed s @ [task_node k]\<rparr>)"

text \<open>The second step of a producer, with the result of its \<open>push\<close>.\<close>

definition producer_link :: "node \<times> node \<Rightarrow> mpsc \<Rightarrow> bool \<times> mpsc" where
  "producer_link p s =
     (case push_link (snd p) (fst p) (queue s) of (first, q) \<Rightarrow> (first, s\<lparr>queue := q, linking := remove1 p (linking s)\<rparr>))"

text \<open>A step of the consumer; \<open>Some\<close> the result when it ends the call. Then the next call starts.\<close>

definition order_step :: "pop_pc \<Rightarrow> mpscq \<Rightarrow> mpscq \<Rightarrow> node list \<Rightarrow> node list" where
  "order_step pc q q' xs =
     (if oldest q' \<noteq> oldest q then tl xs else case pc of Pop_push t \<Rightarrow> xs @ [stub] | _ \<Rightarrow> xs)"

definition consumer_step :: "mpsc \<Rightarrow> pop_result option \<times> mpsc" where
  "consumer_step s =
     (case pop_step (popping s) (queue s) of (r, q) \<Rightarrow>
        let s' = s\<lparr>queue := q, g_order := order_step (popping s) (queue s) q (g_order s)\<rparr>
        in case r of
             Inl pc \<Rightarrow> (None, s'\<lparr>popping := pc\<rparr>)
           | Inr res \<Rightarrow> (Some res, s'\<lparr>popping := Pop_first,
               g_popped := g_popped s @ (case fst res of None \<Rightarrow> [] | Some n \<Rightarrow> [n])\<rparr>))"

text \<open>A node that is pushed is not in the queue: it is newly allocated, or was popped before.\<close>

inductive mpsc_reach :: "mpsc \<Rightarrow> bool" where
  start: "mpsc_reach mpsc_new"
| exchange: "mpsc_reach s \<Longrightarrow> task_node k \<notin> set (g_order s) \<Longrightarrow> mpsc_reach (producer_exchange k s)"
| link: "mpsc_reach s \<Longrightarrow> p \<in> set (linking s) \<Longrightarrow> mpsc_reach (snd (producer_link p s))"
| pop: "mpsc_reach s \<Longrightarrow> mpsc_reach (snd (consumer_step s))"

section \<open>Shape of the list\<close>

text \<open>Pairs of a node and its predecessor.\<close>

definition consec :: "'a list \<Rightarrow> ('a \<times> 'a) set" where
  "consec xs = set (zip (tl xs) xs)"

lemma consec_Cons2 [simp]: "consec (a # b # xs) = insert (b, a) (consec (b # xs))"
  by (simp add: consec_def)

lemma consec_single [simp]: "consec [a] = {}"
  by (simp add: consec_def)

lemma consec_snoc: "xs \<noteq> [] \<Longrightarrow> consec (xs @ [n]) = insert (n, last xs) (consec xs)"
proof (induction xs rule: list_nonempty_induct)
  case (cons x xs)
  then show ?case by (cases xs) auto
qed simp

lemma consec_mem: "(b, a) \<in> consec xs \<Longrightarrow> a \<in> set xs \<and> b \<in> set (tl xs)"
  by (auto simp: consec_def dest: set_zip_leftD set_zip_rightD)

lemma consec_next: "distinct xs \<Longrightarrow> (b, a) \<in> consec xs \<Longrightarrow> (b', a) \<in> consec xs \<Longrightarrow> b = b'"
  by (auto simp: consec_def in_set_conv_nth nth_eq_iff_index_eq)

lemma consec_not_last: "distinct xs \<Longrightarrow> (b, a) \<in> consec xs \<Longrightarrow> a \<noteq> last xs"
proof (induction xs rule: induct_list012)
  case (3 x y xs)
  have "last (y # xs) \<noteq> x" using "3.prems"(1) by (metis distinct.simps(2) last_in_set list.discI)
  then show ?case using 3 by auto
qed (simp_all add: consec_def)

text \<open>
  \<open>xs\<close> are the nodes from \<open>old\<close> to \<open>new\<close>, each linked to its successor unless that link is one of
  the pending ones \<open>P\<close>.
\<close>

definition shape :: "(node \<Rightarrow> node option) \<Rightarrow> (node \<times> node) set \<Rightarrow> node list \<Rightarrow> bool" where
  "shape nx P xs \<longleftrightarrow> xs \<noteq> [] \<and> distinct xs \<and> nx (last xs) = None \<and> P \<subseteq> consec xs \<and>
     (\<forall>(b, a) \<in> consec xs. nx a = (if (b, a) \<in> P then None else Some b))"

lemma shape_append:
  assumes s: "shape nx P xs" and n: "n \<notin> set xs"
  shows "shape (nx(n := None)) (insert (n, last xs) P) (xs @ [n])"
proof -
  have "(b, a) \<noteq> (n, last xs) \<and> a \<noteq> n" if "(b, a) \<in> consec xs" for b a
    using consec_mem [OF that] n by (cases xs) auto
  moreover have "last xs \<noteq> n" "xs \<noteq> []" using s n by (auto simp: shape_def)
  ultimately show ?thesis using s n by (fastforce simp: shape_def consec_snoc)
qed

lemma shape_link:
  assumes s: "shape nx P xs" and n: "(n, prev) \<in> P"
  shows "shape (nx(prev \<mapsto> n)) (P - {(n, prev)}) xs"
proof -
  have c: "(n, prev) \<in> consec xs" and d: "distinct xs" using s n by (auto simp: shape_def)
  have "b = n" if "(b, prev) \<in> consec xs" for b using consec_next [OF d that c] .
  moreover have "prev \<noteq> last xs" by (rule consec_not_last [OF d c])
  ultimately show ?thesis using s by (auto simp: shape_def)
qed

lemma shape_drop:
  assumes s: "shape nx P xs" and nx: "nx (hd xs) = Some obj"
  obtains rest where "xs = hd xs # obj # rest" "shape nx P (obj # rest)" "hd xs \<noteq> obj"
proof -
  obtain t ys where xs: "xs = t # ys" using s by (cases xs) (auto simp: shape_def)
  then obtain b rest where ys: "ys = b # rest" using s nx by (cases ys) (auto simp: shape_def)
  have bt: "(b, t) \<notin> P" "b = obj" using s nx by (auto simp: shape_def xs ys split: if_splits)
  have "shape nx P (b # rest)" using s bt(1) by (auto simp: shape_def xs ys)
  then show ?thesis using that xs ys bt s by (auto simp: shape_def)
qed

section \<open>Invariant\<close>

definition pending :: "mpsc \<Rightarrow> (node \<times> node) set" where
  "pending s = set (linking s) \<union> (case popping s of Pop_link t prev \<Rightarrow> {(stub, prev)} | _ \<Rightarrow> {})"

fun pc_ok :: "pop_pc \<Rightarrow> node list \<Rightarrow> bool" where
  "pc_ok Pop_first xs \<longleftrightarrow> True"
| "pc_ok (Pop_next t) xs \<longleftrightarrow> t = hd xs \<and> t \<noteq> stub"
| "pc_ok (Pop_head t) xs \<longleftrightarrow> t = hd xs \<and> t \<noteq> stub"
| "pc_ok (Pop_push t) xs \<longleftrightarrow> t = hd xs \<and> t \<noteq> stub \<and> stub \<notin> set xs"
| "pc_ok (Pop_link t prev) xs \<longleftrightarrow> t = hd xs \<and> t \<noteq> stub"
| "pc_ok (Pop_last t) xs \<longleftrightarrow> t = hd xs \<and> t \<noteq> stub"

definition tasks :: "node list \<Rightarrow> node list" where
  "tasks xs = filter (\<lambda>n. n \<noteq> stub) xs"

lemma tasks_simps [simp]: "tasks (x # xs) = (if x = stub then tasks xs else x # tasks xs)" "tasks [] = []"
  "tasks (xs @ ys) = tasks xs @ tasks ys"
  by (simp_all add: tasks_def)

definition mpsc_inv :: "mpsc \<Rightarrow> bool" where
  "mpsc_inv s \<longleftrightarrow> shape (nxt (queue s)) (pending s) (g_order s) \<and>
     oldest (queue s) = hd (g_order s) \<and> newest (queue s) = last (g_order s) \<and> pc_ok (popping s) (g_order s) \<and>
     distinct (linking s) \<and> stub \<notin> fst ` set (linking s) \<and> g_pushed s = g_popped s @ tasks (g_order s)"

lemma pc_ok_append: "xs \<noteq> [] \<Longrightarrow> pc_ok pc xs \<Longrightarrow> pc_ok pc (xs @ [task_node k])"
  by (cases pc) auto

lemma mpsc_inv_exchange:
  assumes i: "mpsc_inv s" and k: "task_node k \<notin> set (g_order s)"
  shows "mpsc_inv (producer_exchange k s)"
proof -
  let ?xs = "g_order s"
  have ne: "?xs \<noteq> []" using i by (simp add: mpsc_inv_def shape_def)
  have p: "pending (producer_exchange k s) = insert (task_node k, last ?xs) (pending s)"
    using i by (auto simp: pending_def producer_exchange_def push_exchange_def mpsc_inv_def split: pop_pc.splits)
  have "pending s \<subseteq> consec ?xs" using i by (simp add: mpsc_inv_def shape_def)
  then have "(task_node k, a) \<notin> set (linking s)" for a
    using consec_mem [of "task_node k" a ?xs] k by (cases ?xs) (auto simp: pending_def)
  then show ?thesis
    unfolding mpsc_inv_def p
    using i k shape_append [of "nxt (queue s)" "pending s" ?xs "task_node k"] pc_ok_append [OF ne]
    by (auto simp: mpsc_inv_def producer_exchange_def push_exchange_def ne)
qed

lemma mpsc_inv_link:
  assumes i: "mpsc_inv s" and p: "p \<in> set (linking s)"
  shows "mpsc_inv (snd (producer_link p s))"
proof -
  obtain n prev where np: "p = (n, prev)" by fastforce
  have "n \<noteq> stub" using i p np by (auto simp: mpsc_inv_def rev_image_eqI)
  then have e: "pending (snd (producer_link p s)) = pending s - {(n, prev)}"
    using i np by (auto simp: pending_def producer_link_def push_link_def mpsc_inv_def split: pop_pc.splits)
  have "(n, prev) \<in> pending s" using p np by (simp add: pending_def)
  then show ?thesis
    unfolding mpsc_inv_def e using i shape_link [of "nxt (queue s)" "pending s" "g_order s" n prev]
    by (auto simp: mpsc_inv_def producer_link_def push_link_def np dest: notin_set_remove1)
qed

lemma mpsc_inv_drop:
  assumes i: "mpsc_inv s" and n: "nxt (queue s) (hd (g_order s)) = Some obj"
    and pc: "\<And>t p. popping s \<noteq> Pop_link t p" "\<And>t p. pc \<noteq> Pop_link t p" "\<And>rest. pc_ok pc (obj # rest) \<or> obj = stub \<and> hd (g_order s) = stub"
    and d: "ns = tasks [hd (g_order s)]"
  shows "mpsc_inv (s\<lparr>queue := (queue s)\<lparr>oldest := obj\<rparr>, g_order := tl (g_order s), popping := pc, g_popped := g_popped s @ ns\<rparr>)"
proof -
  have sh: "shape (nxt (queue s)) (pending s) (g_order s)" using i by (simp add: mpsc_inv_def)
  obtain rest where r: "g_order s = hd (g_order s) # obj # rest" "shape (nxt (queue s)) (pending s) (obj # rest)"
      "hd (g_order s) \<noteq> obj"
    by (rule shape_drop [OF sh n])
  have p: "pending (s\<lparr>queue := q, g_order := xs, popping := pc, g_popped := ps\<rparr>) = pending s" for q xs ps
    using pc(1,2) by (auto simp: pending_def split: pop_pc.splits)
  have "last (g_order s) = last (obj # rest)" using r(1) by (metis last_ConsR list.discI)
  moreover have "tasks (g_order s) = ns @ tasks (obj # rest)" by (subst r(1)) (simp add: d)
  moreover have "tl (g_order s) = obj # rest" by (metis r(1) list.sel(3))
  ultimately show ?thesis
    using i r(2,3) pc(3) [of rest] unfolding mpsc_inv_def p by auto
qed

lemma mpsc_inv_move:
  assumes "mpsc_inv s" "pc_ok pc (g_order s)" "\<And>t p. popping s \<noteq> Pop_link t p" "\<And>t p. pc \<noteq> Pop_link t p"
  shows "mpsc_inv (s\<lparr>popping := pc\<rparr>)"
  using assms by (auto simp: mpsc_inv_def pending_def split: pop_pc.splits)

text \<open>What a step of the consumer does: it drops the oldest node, or changes only its program counter, or pushes the stub.\<close>

lemma order_step_drop:
  "mpsc_inv s \<Longrightarrow> nxt (queue s) (hd (g_order s)) = Some obj \<Longrightarrow>
    order_step pc (queue s) ((queue s)\<lparr>oldest := obj\<rparr>) (g_order s) = tl (g_order s)"
  by (rule shape_drop [of "nxt (queue s)" "pending s" "g_order s" obj]) (auto simp: mpsc_inv_def order_step_def)

lemma order_step_same [simp]:
  "oldest q' = oldest q \<Longrightarrow> (\<And>t. pc \<noteq> Pop_push t) \<Longrightarrow> order_step pc q q' xs = xs"
  by (auto simp: order_step_def split: pop_pc.splits)

lemma mpsc_inv_take:
  assumes i: "mpsc_inv s" and n: "nxt (queue s) t = Some obj" and t: "t = hd (g_order s)" "t \<noteq> stub"
    and pc: "\<And>t p. popping s \<noteq> Pop_link t p"
  shows "mpsc_inv (s\<lparr>queue := (queue s)\<lparr>oldest := obj\<rparr>,
    g_order := order_step (popping s) (queue s) ((queue s)\<lparr>oldest := obj\<rparr>) (g_order s), popping := Pop_first, g_popped := g_popped s @ [t]\<rparr>)"
  unfolding order_step_drop [OF i n [unfolded t(1)]]
  by (rule mpsc_inv_drop [OF i]) (use n t pc in auto)

lemma mpsc_inv_pop:
  assumes i: "mpsc_inv s"
  shows "mpsc_inv (snd (consumer_step s))"
proof -
  have ok: "pc_ok (popping s) (g_order s)" "oldest (queue s) = hd (g_order s)" "newest (queue s) = last (g_order s)"
    and sh: "shape (nxt (queue s)) (pending s) (g_order s)"
    using i by (simp_all add: mpsc_inv_def)
  let ?t = "hd (g_order s)"
  have same: "s\<lparr>queue := queue s, g_order := g_order s, popping := pc\<rparr> = s\<lparr>popping := pc\<rparr>"
    "s\<lparr>queue := queue s, g_order := g_order s, popping := pc, g_popped := g_popped s @ []\<rparr> = s\<lparr>popping := pc\<rparr>" for pc
    by simp_all
  show ?thesis
  proof (cases "popping s")
    case Pop_first
    show ?thesis
    proof (cases "nxt (queue s) ?t")
      case None
      then show ?thesis
        using Pop_first ok mpsc_inv_move [OF i]
        by (simp add: consumer_step_def Let_def)
    next
      case (Some obj)
      show ?thesis
      proof (cases "?t = stub")
        case True
        have "obj \<noteq> stub" using shape_drop [OF sh Some] True by metis
        then have "mpsc_inv (s\<lparr>queue := (queue s)\<lparr>oldest := obj\<rparr>, g_order := tl (g_order s), popping := Pop_next obj, g_popped := g_popped s @ []\<rparr>)"
          by (intro mpsc_inv_drop [OF i Some]) (use Pop_first True in auto)
        then show ?thesis
          using Pop_first ok Some True order_step_drop [OF i Some] by (simp add: consumer_step_def Let_def)
      next
        case False
        then show ?thesis
          using mpsc_inv_take [OF i Some refl False] Pop_first ok Some by (simp add: consumer_step_def Let_def take_node_def)
      qed
    qed
  next
    case (Pop_next t)
    then show ?thesis
      using ok mpsc_inv_take [OF i, of t] mpsc_inv_move [OF i, of "Pop_head t"]
      by (auto simp: consumer_step_def Let_def take_node_def split: option.splits)
  next
    case (Pop_head t)
    have "stub \<notin> set (g_order s)" if "t = last (g_order s)"
    proof -
      have "g_order s = [t]"
        using sh that ok(1) Pop_head by (cases "g_order s") (auto simp: shape_def split: if_splits)
      then show ?thesis using ok(1) Pop_head by simp
    qed
    then show ?thesis
      using ok Pop_head mpsc_inv_move [OF i, of Pop_first] mpsc_inv_move [OF i, of "Pop_push t"]
      by (auto simp: consumer_step_def Let_def)
  next
    case (Pop_push t)
    have ne: "g_order s \<noteq> []" using sh by (simp add: shape_def)
    have st: "stub \<notin> set (g_order s)" using ok Pop_push by simp
    have pn: "pending (snd (consumer_step s)) = insert (stub, last (g_order s)) (pending s)"
      using ok Pop_push by (auto simp: pending_def consumer_step_def Let_def push_exchange_def)
    show ?thesis
      unfolding mpsc_inv_def pn
      using i ok ne st shape_append [OF sh st] Pop_push
      by (auto simp: mpsc_inv_def consumer_step_def Let_def push_exchange_def order_step_def)
  next
    case (Pop_link t prev)
    have mem: "(stub, prev) \<in> pending s" using Pop_link by (simp add: pending_def)
    have "(stub, prev) \<notin> set (linking s)" using i by (auto simp: mpsc_inv_def rev_image_eqI)
    then have pn: "pending (snd (consumer_step s)) = pending s - {(stub, prev)}"
      using Pop_link by (auto simp: pending_def consumer_step_def Let_def push_link_def)
    show ?thesis
      unfolding mpsc_inv_def pn
      using i ok shape_link [OF sh mem] Pop_link
      by (auto simp: mpsc_inv_def consumer_step_def Let_def push_link_def)
  next
    case (Pop_last t)
    then show ?thesis
      using ok mpsc_inv_take [OF i, of t] mpsc_inv_move [OF i, of Pop_first]
      by (auto simp: consumer_step_def Let_def take_node_def split: option.splits)
  qed
qed

lemma mpsc_inv_new: "mpsc_inv mpsc_new"
  by (simp add: mpsc_inv_def mpsc_new_def mpscq_new_def shape_def pending_def)

lemma mpsc_reach_inv: "mpsc_reach s \<Longrightarrow> mpsc_inv s"
  by (induction rule: mpsc_reach.induct) (simp_all add: mpsc_inv_new mpsc_inv_exchange mpsc_inv_link mpsc_inv_pop)

text \<open>The nodes that were pushed and not yet popped.\<close>

definition unpopped :: "mpsc \<Rightarrow> node list" where
  "unpopped s = drop (length (g_popped s)) (g_pushed s)"

lemma mpsc_inv_unpopped: "mpsc_inv s \<Longrightarrow> g_pushed s = g_popped s @ unpopped s \<and> unpopped s = tasks (g_order s)"
  by (simp add: mpsc_inv_def unpopped_def)

lemma consumer_result:
  assumes i: "mpsc_inv s" and r: "consumer_step s = (Some res, s')"
  shows "(\<exists>n. fst res = Some n \<and> unpopped s = n # unpopped s' \<and> g_popped s' = g_popped s @ [n]) \<or>
    fst res = None \<and> unpopped s' = unpopped s \<and> g_popped s' = g_popped s \<and>
    (snd res \<longrightarrow> unpopped s = [] \<or> (\<exists>n. (n, stub) \<in> set (linking s)))"
proof -
  have i': "mpsc_inv s'" using mpsc_inv_pop [OF i] r by simp
  have g: "g_pushed s' = g_pushed s" using r by (auto simp: consumer_step_def Let_def split: prod.splits sum.splits)
  show ?thesis
  proof (cases "fst res")
    case (Some n)
    then have "g_popped s' = g_popped s @ [n]"
      using r by (auto simp: consumer_step_def Let_def split: prod.splits sum.splits)
    then show ?thesis using Some g mpsc_inv_unpopped [OF i] mpsc_inv_unpopped [OF i'] by simp
  next
    case None
    then have "g_popped s' = g_popped s"
      using r by (auto simp: consumer_step_def Let_def split: prod.splits sum.splits)
    moreover have "unpopped s = [] \<or> (\<exists>n. (n, stub) \<in> set (linking s))" if "snd res"
    proof -
      have e: "popping s = Pop_first" "oldest (queue s) = stub" "nxt (queue s) stub = None"
        using r that None
        by (cases "popping s"; auto simp: consumer_step_def Let_def take_node_def split: prod.splits option.splits if_splits)+
      have sh: "shape (nxt (queue s)) (set (linking s)) (g_order s)" and h: "hd (g_order s) = stub"
        using i e by (simp_all add: mpsc_inv_def pending_def)
      show ?thesis
      proof (cases "tl (g_order s)")
        case Nil
        then have "g_order s = [stub]" using h sh by (cases "g_order s") (auto simp: shape_def)
        then show ?thesis using mpsc_inv_unpopped [OF i] by simp
      next
        case (Cons b rest)
        then have "g_order s = stub # b # rest" using h sh by (cases "g_order s") (auto simp: shape_def)
        then have "(b, stub) \<in> set (linking s)" using sh e(3) by (auto simp: shape_def split: if_splits)
        then show ?thesis by blast
      qed
    qed
    ultimately show ?thesis using None g by (simp add: unpopped_def)
  qed
qed

section \<open>Without interference\<close>

text \<open>The queue holds the task nodes \<open>ts\<close>, oldest first, and no push is in progress.\<close>

definition holds :: "mpscq \<Rightarrow> node list \<Rightarrow> bool" where
  "holds q ts \<longleftrightarrow> (\<exists>xs. shape (nxt q) {} xs \<and> oldest q = hd xs \<and> newest q = last xs \<and> tasks xs = ts)"

lemma holds_new: "holds mpscq_new []"
  unfolding holds_def by (rule exI [of _ "[stub]"]) (simp add: mpscq_new_def shape_def)

lemma shape_snoc_linked:
  assumes "shape nx {} xs" "n \<notin> set xs"
  shows "shape (nx(n := None, last xs \<mapsto> n)) {} (xs @ [n])"
  using shape_link [OF shape_append [OF assms], of n "last xs"] by simp

lemma holds_push:
  assumes h: "holds q ts" and k: "task_node k \<notin> set ts"
  shows "holds (snd (push (task_node k) q)) (ts @ [task_node k])"
proof -
  obtain xs where xs: "shape (nxt q) {} xs" "oldest q = hd xs" "newest q = last xs" "tasks xs = ts"
    using h by (auto simp: holds_def)
  have "task_node k \<notin> set xs" using k xs(4) by (auto simp: tasks_def)
  from shape_snoc_linked [OF xs(1) this] show ?thesis
    unfolding holds_def push_def
    by (intro exI [of _ "xs @ [task_node k]"]) (use xs in \<open>auto simp: push_exchange_def push_link_def shape_def\<close>)
qed

lemma pop_last_node:
  assumes sh: "shape (nxt q) {} [t]" and q: "oldest q = t" "newest q = t" and t: "t \<noteq> stub"
  shows "\<exists>q'. pop_from (Pop_head t) q = ((Some t, False), q') \<and> holds q' []"
proof -
  let ?q = "q\<lparr>oldest := stub, newest := stub, nxt := (nxt q)(stub := None, t \<mapsto> stub)\<rparr>"
  have "pop_from (Pop_head t) q = ((Some t, False), ?q)"
    using q t by (simp add: pop_from.simps push_exchange_def push_link_def take_node_def)
  moreover have "holds ?q []"
    unfolding holds_def by (rule exI [of _ "[stub]"]) (use t in \<open>simp add: shape_def\<close>)
  ultimately show ?thesis by blast
qed

lemma pop_task:
  assumes sh: "shape (nxt q) {} (t # rest)" and q: "oldest q = t" "newest q = last (t # rest)" and t: "t \<noteq> stub"
  shows "\<exists>q'. pop_from (Pop_next t) q = ((Some t, False), q') \<and> holds q' (tasks rest)"
proof (cases rest)
  case Nil
  then have "pop_from (Pop_next t) q = pop_from (Pop_head t) q"
    using sh by (subst pop_from.simps) (simp add: shape_def)
  then show ?thesis using pop_last_node [of q t] assms Nil by simp
next
  case (Cons b rest')
  have "nxt q t = Some b" using sh Cons by (simp add: shape_def)
  then have "pop_from (Pop_next t) q = ((Some t, False), q\<lparr>oldest := b\<rparr>)"
    by (subst pop_from.simps) (simp add: take_node_def)
  moreover have "holds (q\<lparr>oldest := b\<rparr>) (tasks rest)"
    unfolding holds_def by (rule exI [of _ rest]) (use sh q Cons in \<open>auto simp: shape_def\<close>)
  ultimately show ?thesis by blast
qed

lemma PopAndCheckEnd_holds:
  assumes h: "holds q ts"
  shows "\<exists>q'. PopAndCheckEnd q = ((case ts of [] \<Rightarrow> (None, True) | t # _ \<Rightarrow> (Some t, False)), q') \<and> holds q' (tl ts)"
proof -
  obtain xs where xs: "shape (nxt q) {} xs" "oldest q = hd xs" "newest q = last xs" "tasks xs = ts"
    using h by (auto simp: holds_def)
  obtain t rest where tr: "xs = t # rest" using xs(1) by (cases xs) (auto simp: shape_def)
  show ?thesis
  proof (cases "t = stub")
    case False
    have "pop_from Pop_first q = pop_from (Pop_next t) q"
      using xs tr False by (simp add: pop_from.simps [of Pop_first] pop_from.simps [of "Pop_next t"] split: option.splits)
    then show ?thesis using pop_task [of q t rest] xs tr False by (auto simp: PopAndCheckEnd_def)
  next
    case True
    show ?thesis
    proof (cases rest)
      case Nil
      then have "PopAndCheckEnd q = ((None, True), q)"
        using xs tr True by (simp add: PopAndCheckEnd_def pop_from.simps [of Pop_first] shape_def)
      then show ?thesis using h xs(4) tr True Nil by auto
    next
      case (Cons b rest')
      have b: "nxt q stub = Some b" "b \<noteq> stub" using xs(1) tr True Cons by (auto simp: shape_def)
      have "PopAndCheckEnd q = pop_from (Pop_next b) (q\<lparr>oldest := b\<rparr>)"
        using xs tr True b(1) by (simp add: PopAndCheckEnd_def pop_from.simps [of Pop_first])
      moreover have "shape (nxt q) {} (b # rest')" using xs(1) tr Cons by (simp add: shape_def)
      ultimately show ?thesis
        using pop_task [of "q\<lparr>oldest := b\<rparr>" b rest'] xs tr True Cons b(2) by auto
    qed
  qed
qed

section \<open>Interface\<close>

text \<open>
  What the users of the queue rely on while no push is in progress: it behaves like a list.
  The two loops that the worker pool and the connection run over it are treated here once:
  repeating a pop until it gives a node or reports the end, and discarding all nodes.
\<close>

locale fifo_queue =
  fixes repr :: "'q \<Rightarrow> 'n list \<Rightarrow> bool"
    and q_new :: 'q
    and q_push :: "'n \<Rightarrow> 'q \<Rightarrow> 'q"
    and q_pop :: "'q \<Rightarrow> ('n option \<times> bool) \<times> 'q"
    and node_ok :: "'n \<Rightarrow> bool"
  assumes repr_new: "repr q_new []"
    and repr_push: "repr q ts \<Longrightarrow> n \<notin> set ts \<Longrightarrow> node_ok n \<Longrightarrow> repr (q_push n q) (ts @ [n])"
    and repr_pop: "repr q ts \<Longrightarrow>
      \<exists>q'. q_pop q = ((case ts of [] \<Rightarrow> (None, True) | t # _ \<Rightarrow> (Some t, False)), q') \<and> repr q' (tl ts)"
begin

lemma repr_fold_push:
  "repr q ts \<Longrightarrow> distinct (ts @ ns) \<Longrightarrow> list_all node_ok ns \<Longrightarrow> repr (fold q_push ns q) (ts @ ns)"
proof (induction ns arbitrary: q ts)
  case (Cons n ns)
  have "repr (q_push n q) (ts @ [n])" using Cons.prems by (intro repr_push) auto
  then show ?case using Cons.IH [of "q_push n q" "ts @ [n]"] Cons.prems by simp
qed simp

lemma repr_retry:
  assumes loop: "\<And>q. retry q = (case q_pop q of ((n, e), q') \<Rightarrow> if n \<noteq> None \<or> e then Some (n, q') else retry q')"
    and q: "repr q ts"
  shows "\<exists>q'. retry q = Some (if ts = [] then None else Some (hd ts), q') \<and> repr q' (tl ts)"
  using repr_pop [OF q] by (cases ts) (auto simp: loop [of q])

lemma repr_discard:
  assumes loop: "\<And>q. retry q = (case q_pop q of ((n, e), q') \<Rightarrow> if n \<noteq> None \<or> e then Some (n, q') else retry q')"
    and discard: "\<And>q. discard q = (case retry q of None \<Rightarrow> None
      | Some (n, q') \<Rightarrow> if n = None then Some q' else discard q')"
  shows "repr q ts \<Longrightarrow> \<exists>q'. discard q = Some q' \<and> repr q' []"
proof (induction ts arbitrary: q)
  case Nil
  then show ?case using repr_retry [OF loop Nil] by (auto simp: discard [of q])
next
  case (Cons t ts)
  obtain q' where "retry q = Some (Some t, q')" "repr q' ts" using repr_retry [OF loop Cons.prems] by auto
  then show ?case using Cons.IH by (simp add: discard [of q])
qed

end

interpretation mpsc_fifo_queue: fifo_queue holds mpscq_new "\<lambda>n q. snd (push n q)" PopAndCheckEnd "\<lambda>n. n \<noteq> stub"
proof
  show "holds mpscq_new []" by (rule holds_new)
  show "holds (snd (push n q)) (ts @ [n])" if "holds q ts" "n \<notin> set ts" "n \<noteq> stub" for q ts n
    using that holds_push by (cases n) auto
  show "\<exists>q'. PopAndCheckEnd q = ((case ts of [] \<Rightarrow> (None, True) | t # _ \<Rightarrow> (Some t, False)), q') \<and> holds q' (tl ts)"
    if "holds q ts" for q ts
    using that by (rule PopAndCheckEnd_holds)
qed

section \<open>Properties\<close>

text \<open>
  C22: In every interleaving of any number of producers with the consumer, the queue delivers
  the pushed nodes in the order of their exchanges, each once: what was pushed is what was
  popped followed by what is still inside; a pop that gives a node gives the oldest one; a
  pop that gives none changes nothing; and when it reports the end of the queue, there is
  nothing inside, or a producer is still in the middle of a push that will report that it
  was the first, so that its caller wakes the consumer.
\<close>

theorem mpsc_fifo:
  assumes "mpsc_reach s"
  shows "g_pushed s = g_popped s @ unpopped s \<and>
    (\<forall>res s'. consumer_step s = (Some res, s') \<longrightarrow>
       (\<exists>n. fst res = Some n \<and> unpopped s = n # unpopped s' \<and> g_popped s' = g_popped s @ [n]) \<or>
       fst res = None \<and> unpopped s' = unpopped s \<and> g_popped s' = g_popped s \<and>
         (snd res \<longrightarrow> unpopped s = [] \<or> (\<exists>p \<in> set (linking s). fst (producer_link p s))))"
proof -
  have i: "mpsc_inv s" by (rule mpsc_reach_inv [OF assms])
  have "\<exists>p \<in> set (linking s). fst (producer_link p s)" if "(n, stub) \<in> set (linking s)" for n
    using that by (intro bexI [of _ "(n, stub)"]) (simp_all add: producer_link_def push_link_def)
  then show ?thesis using mpsc_inv_unpopped [OF i] consumer_result [OF i] by blast
qed

text \<open>Two producers have exchanged, the first has not linked yet: the consumer sees the end of the queue.\<close>

definition sample_mpsc :: mpsc where
  "sample_mpsc = snd (producer_link (task_node 2, task_node 1) (producer_exchange 2 (producer_exchange 1 mpsc_new)))"

lemmas sample_mpsc_eval = sample_mpsc_def mpsc_new_def mpscq_new_def producer_exchange_def push_exchange_def
  producer_link_def push_link_def consumer_step_def order_step_def

lemma sample_mpsc_reach: "mpsc_reach sample_mpsc"
  unfolding sample_mpsc_def
  by (intro mpsc_reach.intros) (simp_all add: producer_exchange_def push_exchange_def mpsc_new_def mpscq_new_def)

theorem mpsc_fifo_witness:
  "fst (consumer_step sample_mpsc) = Some (None, True) \<and> unpopped sample_mpsc = [task_node 1, task_node 2] \<and>
   (\<exists>p \<in> set (linking sample_mpsc). fst (producer_link p sample_mpsc))"
proof -
  have c: "fst (consumer_step sample_mpsc) = Some (None, True)" by (simp add: sample_mpsc_eval Let_def)
  then have "consumer_step sample_mpsc = (Some (None, True), snd (consumer_step sample_mpsc))"
    by (simp add: prod_eq_iff)
  moreover have "unpopped sample_mpsc = [task_node 1, task_node 2]" by (simp add: sample_mpsc_eval unpopped_def)
  ultimately show ?thesis using mpsc_fifo [OF sample_mpsc_reach] c by fastforce
qed

text \<open>
  A producer that is in the middle of a push writes to the stub or to a node that is
  still in the queue, never to a node that was handed to the consumer and may be freed; and
  no two producers write to the same node.
\<close>

lemma mpsc_no_write_to_popped:
  assumes "mpsc_reach s" "(n, prev) \<in> set (linking s)"
  shows "(prev = stub \<or> prev \<in> set (unpopped s)) \<and> n \<in> set (unpopped s) \<and>
    (\<forall>n'. (n', prev) \<in> set (linking s) \<longrightarrow> n' = n)"
proof -
  have i: "mpsc_inv s" by (rule mpsc_reach_inv [OF assms(1)])
  have sub: "pending s \<subseteq> consec (g_order s)" using i by (simp add: mpsc_inv_def shape_def)
  have c: "(n', prev') \<in> consec (g_order s)" if "(n', prev') \<in> set (linking s)" for n' prev'
    using sub that unfolding pending_def by blast
  have d: "distinct (g_order s)" and u: "unpopped s = tasks (g_order s)"
    using i mpsc_inv_unpopped [OF i] by (simp_all add: mpsc_inv_def shape_def)
  have "fst (n, prev) \<in> fst ` set (linking s)" using assms(2) by (rule imageI)
  then have st: "n \<noteq> stub" using i unfolding mpsc_inv_def by (metis fst_conv)
  have m: "prev \<in> set (g_order s)" "n \<in> set (tl (g_order s))"
    using consec_mem [OF c [OF assms(2)]] by simp_all
  then have "n \<in> set (g_order s)" by (cases "g_order s") simp_all
  then have "(prev = stub \<or> prev \<in> set (unpopped s)) \<and> n \<in> set (unpopped s)" using m st by (simp add: u tasks_def)
  moreover have "n' = n" if "(n', prev) \<in> set (linking s)" for n'
    by (rule consec_next [OF d c [OF that] c [OF assms(2)]])
  ultimately show ?thesis by blast
qed

lemma mpsc_no_write_to_popped_example:
  "(task_node 1, stub) \<in> set (linking sample_mpsc) \<and> task_node 1 \<in> set (unpopped sample_mpsc)"
proof -
  have "(task_node 1, stub) \<in> set (linking sample_mpsc)" by (simp add: sample_mpsc_eval)
  then show ?thesis using mpsc_no_write_to_popped [OF sample_mpsc_reach, of "task_node 1" stub] by blast
qed

end
