(* ===== verification/Worker_Pools.thy ===== *)
theory Worker_Pools
  imports Mpsc_Queues
begin

text \<open>
  The worker pool (src/net/worker_pool.h, src/net/worker_pool.cc). The first part is the pool
  as its callers see it: starting, stopping, choosing a worker. The second part is one
  worker with its queue: the interleaving of the threads that post tasks, of the worker
  thread in \<open>Run\<close> and of the thread in \<open>Stop\<close>, step by step. Waiting on the condition variable
  is a step that is enabled when its predicate holds: the predicate is changed under the
  mutex and followed by a notification. The number of a task node stands for its task.
\<close>

section \<open>Taking tasks from the queue\<close>

partial_function (option) PopTask :: "mpscq \<Rightarrow> (node option \<times> mpscq) option" where
  "PopTask q = (case PopAndCheckEnd q of ((n, e), q') \<Rightarrow>
     if n \<noteq> None \<or> e then Some (n, q') else PopTask q')"

partial_function (option) DrainQueue :: "mpscq \<Rightarrow> mpscq option" where
  "DrainQueue q = (case PopTask q of None \<Rightarrow> None
     | Some (n, q') \<Rightarrow> if n = None then Some q' else DrainQueue q')"

lemmas PopTask_holds = mpsc_fifo_queue.repr_retry [OF PopTask.simps]

lemmas DrainQueue_holds = mpsc_fifo_queue.repr_discard [OF PopTask.simps DrainQueue.simps]

section \<open>The pool\<close>

record WorkerPool =
  stopping :: bool
  generation :: u64
  next_worker :: u64
  workers :: "u64 list"

text \<open>A worker is represented by the generation its thread was started with.\<close>

definition WorkerPool_new :: WorkerPool where
  "WorkerPool_new = \<lparr>stopping = True, generation = 0, next_worker = 0, workers = []\<rparr>"

text \<open>\<open>created\<close> tells for the successive thread creations whether the system can do them.\<close>

definition Start :: "nat \<Rightarrow> (nat \<Rightarrow> bool) \<Rightarrow> WorkerPool \<Rightarrow> bool \<times> WorkerPool" where
  "Start threads created p =
     (let threads = (if threads = 0 then 1 else threads)
      in if \<not> stopping p then (True, p)
         else let g = generation p + 1
              in if list_all created [0..<threads]
                 then (True, p\<lparr>stopping := False, generation := g, workers := replicate threads g\<rparr>)
                 else (False, p\<lparr>stopping := True, generation := g + 1, workers := []\<rparr>))"

definition Stop :: "WorkerPool \<Rightarrow> WorkerPool" where
  "Stop p = (if stopping p then p else p\<lparr>stopping := True, generation := generation p + 1, workers := []\<rparr>)"

definition WorkerCount :: "WorkerPool \<Rightarrow> nat" where
  "WorkerCount p = length (workers p)"

definition PickWorker :: "WorkerPool \<Rightarrow> nat \<times> WorkerPool" where
  "PickWorker p =
     (let cnt = WorkerCount p
      in if cnt = 0 then (0, p)
         else (unat (next_worker p) mod cnt, p\<lparr>next_worker := next_worker p + 1\<rparr>))"

text \<open>The worker that \<open>PostToWorker\<close> selects; \<open>None\<close> when it refuses.\<close>

definition select_worker :: "nat \<Rightarrow> WorkerPool \<Rightarrow> nat option" where
  "select_worker worker_index p =
     (if stopping p then None
      else if workers p = [] then None
      else Some (worker_index mod length (workers p)))"

definition ShouldStop :: "u64 \<Rightarrow> WorkerPool \<Rightarrow> bool" where
  "ShouldStop g p \<longleftrightarrow> g \<noteq> generation p \<or> stopping p"

section \<open>One worker\<close>

text \<open>
  A thread in \<open>PostToWorker\<close>, by its next step: adding itself to \<open>active_posts\<close>, reading
  \<open>accepting\<close>, leaving again after a refusal, the exchange and the link of \<open>push\<close>, setting
  \<open>wake_pending\<close>, and leaving after the push.
\<close>

datatype poster = Post_enter nat | Post_check nat | Post_refused | Post_exchange nat
  | Post_link "node \<times> node" | Post_wake | Post_leave

text \<open>
  The worker thread in \<open>Run\<close>: waiting, the test before a pop, inside \<open>PopTask\<close>, the test after a
  pop, running a task, the test before the next wait, returned.
\<close>

datatype worker_pc = Run_wait | Run_test | Run_pop | Run_popped node | Run_task node | Run_empty | Run_done

text \<open>
  The thread in \<open>Stop\<close>: not stopping yet, setting \<open>accepting\<close>, setting \<open>wake_pending\<close>, joining the
  worker, waiting for \<open>active_posts\<close>, inside \<open>DrainQueue\<close>, returned.
\<close>

datatype stop_pc = Stop_idle | Stop_accepting | Stop_wake | Stop_join | Stop_posts | Stop_drain | Stop_done

record worker =
  mq :: mpsc
  accepting :: bool
  active_posts :: nat
  wake_pending :: bool
  posters :: "poster multiset"
  running :: worker_pc
  stopping_pc :: stop_pc
  g_ran :: "node list"
  g_deleted :: "node list"

definition worker_new :: worker where
  "worker_new = \<lparr>mq = mpsc_new, accepting = True, active_posts = 0, wake_pending = False, posters = {#},
     running = Run_wait, stopping_pc = Stop_idle, g_ran = [], g_deleted = []\<rparr>"

text \<open>\<open>stopping_\<close> and the generation have changed once \<open>Stop\<close> has started.\<close>

definition told_to_stop :: "worker \<Rightarrow> bool" where
  "told_to_stop w \<longleftrightarrow> stopping_pc w \<noteq> Stop_idle"

text \<open>A step of a posting thread: what it becomes, and the worker afterwards; no thread when it returns.\<close>

fun post_step :: "poster \<Rightarrow> worker \<Rightarrow> poster multiset \<times> worker" where
  "post_step (Post_enter k) w = ({#Post_check k#}, w\<lparr>active_posts := active_posts w + 1\<rparr>)"
| "post_step (Post_check k) w = ({#if accepting w then Post_exchange k else Post_refused#}, w)"
| "post_step Post_refused w = ({#}, w\<lparr>active_posts := active_posts w - 1\<rparr>)"
| "post_step (Post_exchange k) w =
     ({#Post_link (task_node k, newest (queue (mq w)))#}, w\<lparr>mq := producer_exchange k (mq w)\<rparr>)"
| "post_step (Post_link p) w =
     (case producer_link p (mq w) of (first, m) \<Rightarrow> ({#if first then Post_wake else Post_leave#}, w\<lparr>mq := m\<rparr>))"
| "post_step Post_wake w = ({#Post_leave#}, w\<lparr>wake_pending := True\<rparr>)"
| "post_step Post_leave w = ({#}, w\<lparr>active_posts := active_posts w - 1\<rparr>)"

text \<open>A step of the worker thread.\<close>

definition run_step :: "worker \<Rightarrow> worker" where
  "run_step w =
     (case running w of
        Run_wait \<Rightarrow> w\<lparr>wake_pending := False, running := Run_test\<rparr>
      | Run_test \<Rightarrow> w\<lparr>running := (if told_to_stop w then Run_done else Run_pop)\<rparr>
      | Run_pop \<Rightarrow>
          (case consumer_step (mq w) of (r, m) \<Rightarrow>
             w\<lparr>mq := m, running := (case r of
                 None \<Rightarrow> Run_pop
               | Some (Some n, e) \<Rightarrow> Run_popped n
               | Some (None, True) \<Rightarrow> Run_empty
               | Some (None, False) \<Rightarrow> Run_pop)\<rparr>)
      | Run_popped n \<Rightarrow>
          if told_to_stop w then w\<lparr>g_deleted := g_deleted w @ [n], running := Run_done\<rparr> else w\<lparr>running := Run_task n\<rparr>
      | Run_task n \<Rightarrow> w\<lparr>g_ran := g_ran w @ [n], running := Run_test\<rparr>
      | Run_empty \<Rightarrow> w\<lparr>running := (if told_to_stop w then Run_done else Run_wait)\<rparr>
      | Run_done \<Rightarrow> w)"

text \<open>A step of the thread in \<open>Stop\<close>.\<close>

definition stop_step :: "worker \<Rightarrow> worker" where
  "stop_step w =
     (case stopping_pc w of
        Stop_idle \<Rightarrow> w\<lparr>stopping_pc := Stop_accepting\<rparr>
      | Stop_accepting \<Rightarrow> w\<lparr>accepting := False, stopping_pc := Stop_wake\<rparr>
      | Stop_wake \<Rightarrow> w\<lparr>wake_pending := True, stopping_pc := Stop_join\<rparr>
      | Stop_join \<Rightarrow> w\<lparr>stopping_pc := Stop_posts\<rparr>
      | Stop_posts \<Rightarrow> w\<lparr>stopping_pc := Stop_drain\<rparr>
      | Stop_drain \<Rightarrow>
          (case consumer_step (mq w) of (r, m) \<Rightarrow>
             (case r of
                Some (Some n, e) \<Rightarrow> w\<lparr>mq := m, g_deleted := g_deleted w @ [n]\<rparr>
              | Some (None, True) \<Rightarrow> w\<lparr>mq := m, stopping_pc := Stop_done\<rparr>
              | _ \<Rightarrow> w\<lparr>mq := m\<rparr>))
      | Stop_done \<Rightarrow> w)"

text \<open>When a step can be taken: the waits are for \<open>wake_pending\<close>, for the end of the thread and for \<open>active_posts\<close>.\<close>

definition run_enabled :: "worker \<Rightarrow> bool" where
  "run_enabled w \<longleftrightarrow> running w \<noteq> Run_done \<and> (running w = Run_wait \<longrightarrow> wake_pending w)"

definition stop_enabled :: "worker \<Rightarrow> bool" where
  "stop_enabled w \<longleftrightarrow> stopping_pc w \<noteq> Stop_done \<and> (stopping_pc w = Stop_join \<longrightarrow> running w = Run_done) \<and>
     (stopping_pc w = Stop_posts \<longrightarrow> active_posts w = 0)"

inductive worker_reach :: "worker \<Rightarrow> bool" where
  start: "worker_reach worker_new"
| call: "worker_reach w \<Longrightarrow> worker_reach (w\<lparr>posters := add_mset (Post_enter k) (posters w)\<rparr>)"
| post: "worker_reach w \<Longrightarrow> p \<in># posters w \<Longrightarrow> (\<And>k. p = Post_exchange k \<Longrightarrow> task_node k \<notin> set (g_order (mq w))) \<Longrightarrow>
    post_step p w = (ps, w') \<Longrightarrow> worker_reach (w'\<lparr>posters := posters w - {#p#} + ps\<rparr>)"
| run: "worker_reach w \<Longrightarrow> run_enabled w \<Longrightarrow> worker_reach (run_step w)"
| stop: "worker_reach w \<Longrightarrow> stop_enabled w \<Longrightarrow> worker_reach (stop_step w)"

section \<open>Invariant\<close>

fun inside :: "poster \<Rightarrow> bool" where
  "inside (Post_enter k) \<longleftrightarrow> False"
| "inside p \<longleftrightarrow> True"

text \<open>Past the test of \<open>accepting\<close>.\<close>

fun admitted :: "poster \<Rightarrow> bool" where
  "admitted (Post_exchange k) \<longleftrightarrow> True"
| "admitted (Post_link p) \<longleftrightarrow> True"
| "admitted Post_wake \<longleftrightarrow> True"
| "admitted Post_leave \<longleftrightarrow> True"
| "admitted p \<longleftrightarrow> False"

fun link_of :: "poster \<Rightarrow> (node \<times> node) multiset" where
  "link_of (Post_link p) = {#p#}"
| "link_of p = {#}"

definition links_of :: "poster multiset \<Rightarrow> (node \<times> node) multiset" where
  "links_of M = (\<Sum>p \<in># M. link_of p)"

lemma links_of_simps [simp]: "links_of {#} = {#}" "links_of (add_mset p M) = link_of p + links_of M"
  "links_of (M + N) = links_of M + links_of N"
  by (simp_all add: links_of_def)

lemma links_of_member: "x \<in># links_of M \<Longrightarrow> Post_link x \<in># M"
proof (induction M)
  case (add p M)
  then show ?case by (cases p) auto
qed simp

lemma admitted_inside: "admitted p \<Longrightarrow> inside p"
  by (cases p) auto

fun in_hand :: "worker_pc \<Rightarrow> node list" where
  "in_hand (Run_popped n) = [n]"
| "in_hand (Run_task n) = [n]"
| "in_hand r = []"

definition counts_ok :: "worker \<Rightarrow> bool" where
  "counts_ok w \<longleftrightarrow> mpsc_inv (mq w) \<and> mset (linking (mq w)) = links_of (posters w) \<and>
     active_posts w = size (filter_mset inside (posters w))"

text \<open>A worker that sleeps, or is about to, has no tasks, or a thread is about to wake it.\<close>

definition wake_ok :: "worker \<Rightarrow> bool" where
  "wake_ok w \<longleftrightarrow> ((running w = Run_wait \<or> running w = Run_empty) \<and> \<not> wake_pending w \<and> unpopped (mq w) \<noteq> [] \<longrightarrow>
     Post_wake \<in># posters w \<or> (\<exists>n. (n, stub) \<in> set (linking (mq w))))"

definition hist_ok :: "worker \<Rightarrow> bool" where
  "hist_ok w \<longleftrightarrow> g_popped (mq w) = g_ran w @ in_hand (running w) @ g_deleted w \<and>
     (running w \<noteq> Run_done \<longrightarrow> g_deleted w = []) \<and> (running w = Run_done \<longrightarrow> told_to_stop w)"

definition stop_ok :: "worker \<Rightarrow> bool" where
  "stop_ok w \<longleftrightarrow>
     (accepting w \<longleftrightarrow> stopping_pc w = Stop_idle \<or> stopping_pc w = Stop_accepting) \<and>
     (stopping_pc w \<in> {Stop_posts, Stop_drain, Stop_done} \<longrightarrow> running w = Run_done) \<and>
     (stopping_pc w \<in> {Stop_drain, Stop_done} \<longrightarrow> filter_mset admitted (posters w) = {#}) \<and>
     (stopping_pc w = Stop_done \<longrightarrow> unpopped (mq w) = [])"

definition worker_inv :: "worker \<Rightarrow> bool" where
  "worker_inv w \<longleftrightarrow> counts_ok w \<and> wake_ok w \<and> hist_ok w \<and> stop_ok w"

lemma worker_inv_new: "worker_inv worker_new"
  by (simp add: worker_inv_def counts_ok_def wake_ok_def hist_ok_def stop_ok_def worker_new_def mpsc_inv_new)
    (simp add: mpsc_new_def unpopped_def)

lemma unpopped_exchange: "mpsc_inv m \<Longrightarrow> unpopped (producer_exchange k m) = unpopped m @ [task_node k]"
  by (auto simp: mpsc_inv_def unpopped_def producer_exchange_def push_exchange_def)

lemma unpopped_link [simp]: "unpopped (snd (producer_link p m)) = unpopped m" "g_popped (snd (producer_link p m)) = g_popped m"
  by (simp_all add: unpopped_def producer_link_def push_link_def)

lemma producer_fields [simp]:
  "g_popped (producer_exchange k m) = g_popped m"
  "linking (producer_exchange k m) = linking m @ [(task_node k, newest (queue m))]"
  "linking (snd (producer_link p m)) = remove1 p (linking m)" "fst (producer_link p m) \<longleftrightarrow> snd p = stub"
  by (simp_all add: producer_exchange_def push_exchange_def producer_link_def push_link_def)

lemma post_step_link [simp]:
  "post_step (Post_link p) w = ({#if snd p = stub then Post_wake else Post_leave#}, w\<lparr>mq := snd (producer_link p (mq w))\<rparr>)"
  using producer_fields(4) [of p "mq w"] by (cases "producer_link p (mq w)") simp

declare post_step.simps(5) [simp del]

lemma newest_task: "mpsc_inv m \<Longrightarrow> newest (queue m) \<noteq> stub \<Longrightarrow> unpopped m \<noteq> []"
proof -
  assume i: "mpsc_inv m" and n: "newest (queue m) \<noteq> stub"
  have "newest (queue m) \<in> set (g_order m)" using i by (auto simp: mpsc_inv_def shape_def)
  then have "newest (queue m) \<in> set (unpopped m)" using n mpsc_inv_unpopped [OF i] by (simp add: tasks_def)
  then show ?thesis by auto
qed

lemma consumer_linking [simp]: "consumer_step m = (r, m') \<Longrightarrow> linking m' = linking m"
  by (auto simp: consumer_step_def Let_def split: prod.splits sum.splits)

lemma consumer_unfinished: "consumer_step m = (None, m') \<Longrightarrow> unpopped m' = unpopped m \<and> g_popped m' = g_popped m"
  by (auto simp: consumer_step_def Let_def unpopped_def split: prod.splits sum.splits)

section \<open>Preservation\<close>

lemma post_counts:
  assumes c: "counts_ok w" and p: "p \<in># posters w" and f: "\<And>k. p = Post_exchange k \<Longrightarrow> task_node k \<notin> set (g_order (mq w))"
    and s: "post_step p w = (ps, w')"
  shows "counts_ok (w'\<lparr>posters := posters w - {#p#} + ps\<rparr>)"
proof -
  obtain M where M: "posters w = add_mset p M" using p by (metis multi_member_split)
  have m: "mpsc_inv (mq w)" using c by (simp add: counts_ok_def)
  have l: "mset (linking (mq w)) = link_of p + links_of M" using c M by (simp add: counts_ok_def)
  have "a \<in> set (linking (mq w))" if "p = Post_link a" for a
    using l that by (metis link_of.simps(1) set_mset_mset union_iff multi_member_this union_single_eq_member)
  then show ?thesis
    using c s m l M f mpsc_inv_exchange mpsc_inv_link by (cases p) (auto simp: counts_ok_def)
qed

lemma post_wake:
  assumes c: "counts_ok w" and v: "wake_ok w" and p: "p \<in># posters w" and s: "post_step p w = (ps, w')"
  shows "wake_ok (w'\<lparr>posters := posters w - {#p#} + ps\<rparr>)"
proof -
  obtain M where M: "posters w = add_mset p M" using p by (metis multi_member_split)
  have m: "mpsc_inv (mq w)" using c by (simp add: counts_ok_def)
  have "distinct (linking (mq w))" using m by (simp add: mpsc_inv_def)
  moreover have "unpopped (mq w) = [] \<Longrightarrow> newest (queue (mq w)) = stub" using newest_task [OF m] by blast
  ultimately show ?thesis
    using v s M unpopped_exchange [OF m] by (cases p) (auto simp: wake_ok_def)
qed

lemma post_hist:
  "hist_ok w \<Longrightarrow> post_step p w = (ps, w') \<Longrightarrow> hist_ok (w'\<lparr>posters := M\<rparr>)"
  by (cases p) (auto simp: hist_ok_def told_to_stop_def)

lemma post_stop:
  assumes c: "counts_ok w" and t: "stop_ok w" and p: "p \<in># posters w" and s: "post_step p w = (ps, w')"
  shows "stop_ok (w'\<lparr>posters := posters w - {#p#} + ps\<rparr>)"
proof -
  obtain M where M: "posters w = add_mset p M" using p by (metis multi_member_split)
  have m: "mpsc_inv (mq w)" using c by (simp add: counts_ok_def)
  show ?thesis
    using t s M by (cases p; cases "stopping_pc w") (auto simp: stop_ok_def)
qed

lemma worker_inv_post:
  assumes "worker_inv w" "p \<in># posters w" "\<And>k. p = Post_exchange k \<Longrightarrow> task_node k \<notin> set (g_order (mq w))"
    "post_step p w = (ps, w')"
  shows "worker_inv (w'\<lparr>posters := posters w - {#p#} + ps\<rparr>)"
  using assms unfolding worker_inv_def by (blast intro: post_counts post_wake post_hist post_stop)

lemma worker_inv_call: "worker_inv w \<Longrightarrow> worker_inv (w\<lparr>posters := add_mset (Post_enter k) (posters w)\<rparr>)"
  by (auto simp: worker_inv_def counts_ok_def wake_ok_def hist_ok_def told_to_stop_def stop_ok_def)

text \<open>The effect of a pop on the invariant, for the worker and for \<open>Stop\<close>.\<close>

lemma consumer_outcome:
  assumes m: "mpsc_inv m" and c: "consumer_step m = (r, m')"
  shows "mpsc_inv m'" "linking m' = linking m"
    "r = None \<or> r = Some (None, e) \<Longrightarrow> unpopped m' = unpopped m \<and> g_popped m' = g_popped m"
    "r = Some (Some n, e) \<Longrightarrow> unpopped m = n # unpopped m' \<and> g_popped m' = g_popped m @ [n]"
    "r = Some (None, True) \<Longrightarrow> unpopped m = [] \<or> (\<exists>n. (n, stub) \<in> set (linking m))"
  using mpsc_inv_pop [OF m] c consumer_linking [OF c] consumer_unfinished [of m m'] consumer_result [OF m, of _ m']
  by auto

lemma worker_inv_pop:
  assumes w: "worker_inv w" and r: "running w = Run_pop"
  shows "worker_inv (run_step w)"
proof -
  obtain res m where c: "consumer_step (mq w) = (res, m)" by fastforce
  have i: "mpsc_inv (mq w)" using w by (simp add: worker_inv_def counts_ok_def)
  have ns: "stopping_pc w \<notin> {Stop_posts, Stop_drain, Stop_done}" using w r by (auto simp: worker_inv_def stop_ok_def)
  note out = consumer_outcome [OF i c]
  show ?thesis
  proof (cases res)
    case None
    then show ?thesis using w r c ns out(1,2) out(3) [of True]
      by (auto simp: run_step_def worker_inv_def counts_ok_def wake_ok_def hist_ok_def stop_ok_def told_to_stop_def)
  next
    case (Some x)
    obtain n e where x: "x = (n, e)" by fastforce
    show ?thesis
    proof (cases n)
      case None
      then show ?thesis using w r c ns out(1,2) out(3) [of e] out(5) Some x
        by (cases e) (auto simp: run_step_def worker_inv_def counts_ok_def wake_ok_def hist_ok_def stop_ok_def told_to_stop_def)
    next
      case (Some t)
      then show ?thesis using w r c ns out(1,2) out(4) [of t e] \<open>res = Some x\<close> x
        by (auto simp: run_step_def worker_inv_def counts_ok_def wake_ok_def hist_ok_def stop_ok_def told_to_stop_def)
    qed
  qed
qed

lemma worker_inv_run:
  assumes w: "worker_inv w" and e: "run_enabled w"
  shows "worker_inv (run_step w)"
proof (cases "running w = Run_pop")
  case True
  then show ?thesis by (rule worker_inv_pop [OF w])
next
  case False
  then show ?thesis
    using w e by (cases "running w")
      (auto simp: run_step_def run_enabled_def worker_inv_def counts_ok_def wake_ok_def hist_ok_def stop_ok_def told_to_stop_def)
qed

lemma admitted_none: "filter_mset inside M = {#} \<Longrightarrow> filter_mset admitted M = {#}"
  by (induction M) (auto split: if_splits dest: admitted_inside)

lemma links_none: "filter_mset admitted M = {#} \<Longrightarrow> links_of M = {#}"
proof (induction M)
  case (add p M)
  then show ?case by (cases p) (auto split: if_splits)
qed simp

lemma worker_inv_stop:
  assumes w: "worker_inv w" and e: "stop_enabled w"
  shows "worker_inv (stop_step w)"
proof (cases "stopping_pc w = Stop_drain")
  case True
  obtain res m where c: "consumer_step (mq w) = (res, m)" by fastforce
  have i: "mpsc_inv (mq w)" using w by (simp add: worker_inv_def counts_ok_def)
  have d: "running w = Run_done" "links_of (posters w) = {#}"
    using w True links_none by (auto simp: worker_inv_def stop_ok_def)
  then have l: "linking (mq w) = []" using w by (simp add: worker_inv_def counts_ok_def)
  note out = consumer_outcome [OF i c]
  show ?thesis
  proof (cases res)
    case None
    then show ?thesis using w c d True out(1,2) out(3) [of True]
      by (auto simp: stop_step_def worker_inv_def counts_ok_def wake_ok_def hist_ok_def stop_ok_def told_to_stop_def)
  next
    case (Some x)
    obtain n e where x: "x = (n, e)" by fastforce
    show ?thesis
    proof (cases n)
      case None
      then show ?thesis using w c d l True out(1,2) out(3) [of e] out(5) Some x
        by (cases e) (auto simp: stop_step_def worker_inv_def counts_ok_def wake_ok_def hist_ok_def stop_ok_def told_to_stop_def)
    next
      case (Some t)
      then show ?thesis using w c d True out(1,2) out(4) [of t e] \<open>res = Some x\<close> x
        by (auto simp: stop_step_def worker_inv_def counts_ok_def wake_ok_def hist_ok_def stop_ok_def told_to_stop_def)
    qed
  qed
next
  case False
  then show ?thesis
    using w e admitted_none by (cases "stopping_pc w")
      (auto simp: stop_step_def stop_enabled_def worker_inv_def counts_ok_def wake_ok_def hist_ok_def stop_ok_def told_to_stop_def)
qed

lemma worker_reach_inv: "worker_reach w \<Longrightarrow> worker_inv w"
proof (induction rule: worker_reach.induct)
  case (post w p ps w')
  then show ?case by (intro worker_inv_post)
qed (simp_all add: worker_inv_new worker_inv_call worker_inv_run worker_inv_stop)

section \<open>Rounds and generations of the pool\<close>

lemma WorkerCount_pick [simp]: "WorkerCount (snd (PickWorker p)) = WorkerCount p"
  by (simp add: PickWorker_def WorkerCount_def Let_def)

fun pick_many :: "nat \<Rightarrow> WorkerPool \<Rightarrow> nat list" where
  "pick_many 0 p = []"
| "pick_many (Suc n) p = (case PickWorker p of (i, p') \<Rightarrow> i # pick_many n p')"

lemma pick_many_eq:
  assumes "WorkerCount p > 0" "unat (next_worker p) + n \<le> 2 ^ 64"
  shows "pick_many n p = map (\<lambda>i. (unat (next_worker p) + i) mod WorkerCount p) [0..<n]"
  using assms
proof (induction n arbitrary: p)
  case (Suc n)
  let ?p = "p\<lparr>next_worker := next_worker p + 1\<rparr>"
  have pick: "PickWorker p = (unat (next_worker p) mod WorkerCount p, ?p)"
    using Suc.prems(1) by (simp add: PickWorker_def)
  have c: "WorkerCount ?p = WorkerCount p" by (simp add: WorkerCount_def)
  show ?case
  proof (cases "n = 0")
    case False
    have u: "unat (next_worker ?p) = unat (next_worker p) + 1"
      using Suc.prems(2) False by (simp add: unat_word_ariths)
    have "pick_many n ?p = map (\<lambda>i. (unat (next_worker p) + 1 + i) mod WorkerCount p) [0..<n]"
      using Suc.IH [of ?p] Suc.prems c u by simp
    then show ?thesis by (simp add: pick upt_conv_Cons map_Suc_upt [symmetric] del: upt_Suc)
  qed (simp add: pick)
qed simp

lemma mod_shift_less:
  assumes "i \<le> j" "j < c" "(a + i) mod c = (a + j) mod (c :: nat)"
  shows "i = j"
proof -
  have "c dvd (a + j) - (a + i)"
    by (rule iffD1 [OF mod_eq_dvd_iff_nat]) (use assms in auto)
  then have "c dvd j - i" by simp
  moreover have "j - i < c" using assms(2) by simp
  ultimately have "j - i = 0" by (meson dvd_imp_le linorder_not_le neq0_conv)
  then show ?thesis using assms(1) by simp
qed

lemma mod_shift_bij: "distinct (map (\<lambda>i. (a + i) mod c) [0..<c :: nat])"
proof -
  have "inj_on (\<lambda>i. (a + i) mod c) (set [0..<c])"
  proof (rule inj_onI)
    fix i j assume ij: "i \<in> set [0..<c]" "j \<in> set [0..<c]" and eq: "(a + i) mod c = (a + j) mod c"
    have "i < c" "j < c" using ij by simp_all
    then show "i = j" using mod_shift_less [OF _ _ eq] mod_shift_less [OF _ _ eq [symmetric]] nat_le_linear by blast
  qed
  then show ?thesis by (simp only: distinct_map distinct_upt simp_thms)
qed

text \<open>Starting and stopping in any order.\<close>

datatype pool_op = OpStart nat "nat \<Rightarrow> bool" | OpStop

fun pool_step :: "pool_op \<Rightarrow> WorkerPool \<Rightarrow> WorkerPool" where
  "pool_step (OpStart threads created) p = snd (Start threads created p)"
| "pool_step OpStop p = Stop p"

lemma generation_grows:
  assumes "unat (generation p) + 2 < 2 ^ 64"
  shows "unat (generation p) \<le> unat (generation (pool_step q p))"
    "unat (generation (pool_step q p)) \<le> unat (generation p) + 2"
proof -
  have "unat (generation p + 1) = unat (generation p) + 1" "unat (generation p + 1 + 1) = unat (generation p) + 2"
    using assms by (simp_all add: unat_word_ariths)
  then show "unat (generation p) \<le> unat (generation (pool_step q p))"
    "unat (generation (pool_step q p)) \<le> unat (generation p) + 2"
    by (cases q; simp add: Start_def Stop_def Let_def)+
qed

lemma generation_run_grows:
  "unat (generation p) + 2 * length ops < 2 ^ 64 \<Longrightarrow>
    unat (generation p) \<le> unat (generation (fold pool_step ops p)) \<and>
    unat (generation (fold pool_step ops p)) \<le> unat (generation p) + 2 * length ops"
proof (induction ops arbitrary: p)
  case (Cons q ops)
  note g = generation_grows [of p q]
  show ?case using Cons.IH [of "pool_step q p"] Cons.prems g by simp
qed simp

definition pool_ok :: "WorkerPool \<Rightarrow> bool" where
  "pool_ok p \<longleftrightarrow> (if stopping p then workers p = [] else workers p \<noteq> [] \<and> set (workers p) = {generation p})"

lemma pool_ok_step: "pool_ok p \<Longrightarrow> pool_ok (pool_step q p)"
  by (cases q) (auto simp: pool_ok_def Start_def Stop_def Let_def)

lemma pool_ok_run: "pool_ok p \<Longrightarrow> pool_ok (fold pool_step ops p)"
  by (induction ops arbitrary: p) (simp_all add: pool_ok_step)

lemma pool_ok_new: "pool_ok WorkerPool_new"
  by (simp add: pool_ok_def WorkerPool_new_def)

section \<open>Properties\<close>

text \<open>
  C24: A worker never sleeps on a task: in every interleaving of posting threads, the worker
  thread and \<open>Stop\<close>, if the worker waits and no wake-up is pending, its queue is empty or a
  posting thread is still on its way to set \<open>wake_pending\<close>, although only the first of several
  posts does so.
\<close>

theorem worker_wakeup:
  assumes "worker_reach w" "running w = Run_wait" "\<not> wake_pending w" "unpopped (mq w) \<noteq> []"
  shows "\<exists>p \<in># posters w. p = Post_wake \<or> (\<exists>n. p = Post_link (n, stub))"
proof -
  have i: "worker_inv w" by (rule worker_reach_inv [OF assms(1)])
  have "mset (linking (mq w)) = links_of (posters w)" using i by (simp add: worker_inv_def counts_ok_def)
  then have "set (linking (mq w)) = set_mset (links_of (posters w))" by (metis set_mset_mset)
  moreover have "Post_wake \<in># posters w \<or> (\<exists>n. (n, stub) \<in> set (linking (mq w)))"
    using i assms(2-4) by (simp add: worker_inv_def wake_ok_def)
  ultimately show ?thesis using links_of_member by blast
qed


text \<open>A thread has put its task into the queue and not linked it yet, while the worker waits.\<close>

definition sample_worker :: worker where
  "sample_worker = worker_new\<lparr>active_posts := 1, mq := producer_exchange 5 mpsc_new,
     posters := {#Post_link (task_node 5, stub)#}\<rparr>"

lemma sample_worker_reach: "worker_reach sample_worker"
proof -
  have "worker_reach (worker_new\<lparr>posters := {#Post_enter 5#}\<rparr>)"
    using worker_reach.call [OF worker_reach.start, of 5] by (simp add: worker_new_def)
  from worker_reach.post [OF this, of "Post_enter 5"]
  have "worker_reach (worker_new\<lparr>active_posts := 1, posters := {#Post_check 5#}\<rparr>)" by (simp add: worker_new_def)
  from worker_reach.post [OF this, of "Post_check 5"]
  have "worker_reach (worker_new\<lparr>active_posts := 1, posters := {#Post_exchange 5#}\<rparr>)" by (simp add: worker_new_def)
  from worker_reach.post [OF this, of "Post_exchange 5"]
  show ?thesis by (simp add: sample_worker_def worker_new_def mpsc_new_def mpscq_new_def)
qed

theorem worker_wakeup_witness:
  "\<exists>p \<in># posters sample_worker. p = Post_wake \<or> (\<exists>n. p = Post_link (n, stub))"
proof (rule worker_wakeup [OF sample_worker_reach])
  show "unpopped (mq sample_worker) \<noteq> []"
    using unpopped_exchange [OF mpsc_inv_new, of 5] by (simp add: sample_worker_def)
qed (simp_all add: sample_worker_def worker_new_def)


text \<open>
  Choosing a worker is fair: as many successive choices as there are workers give every
  worker once, and a post with any index reaches an existing worker while the pool runs.
\<close>

lemma pick_worker_fair:
  assumes "0 < WorkerCount p" "unat (next_worker p) + WorkerCount p \<le> 2 ^ 64"
  shows "distinct (pick_many (WorkerCount p) p) \<and> set (pick_many (WorkerCount p) p) = {..<WorkerCount p} \<and>
    (\<not> stopping p \<longrightarrow> (\<forall>i. \<exists>j < WorkerCount p. select_worker i p = Some j))"
proof -
  note eq = pick_many_eq [OF assms]
  have d: "distinct (pick_many (WorkerCount p) p)" unfolding eq by (rule mod_shift_bij)
  have "set (pick_many (WorkerCount p) p) \<subseteq> {..<WorkerCount p}" unfolding eq using assms(1) by auto
  moreover have "card (set (pick_many (WorkerCount p) p)) = card {..<WorkerCount p}"
    using distinct_card [OF d] by (simp add: eq)
  ultimately have "set (pick_many (WorkerCount p) p) = {..<WorkerCount p}" by (simp add: card_subset_eq)
  then show ?thesis using d assms(1) by (auto simp: select_worker_def WorkerCount_def)
qed

lemma sample_pool:
  "snd (Start 3 (\<lambda>_. True) WorkerPool_new) = \<lparr>stopping = False, generation = 1, next_worker = 0, workers = [1, 1, 1]\<rparr>"
  by (simp add: Start_def WorkerPool_new_def list_all_iff numeral_3_eq_3)

lemma pick_worker_fair_example:
  "let p = snd (Start 3 (\<lambda>_. True) WorkerPool_new) in distinct (pick_many (WorkerCount p) p)"
proof -
  let ?p = "snd (Start 3 (\<lambda>_. True) WorkerPool_new)"
  have "0 < WorkerCount ?p" "unat (next_worker ?p) + WorkerCount ?p \<le> 2 ^ 64"
    by (simp_all add: sample_pool WorkerCount_def)
  from pick_worker_fair [OF this] show ?thesis unfolding Let_def by blast
qed

text \<open>
  A thread of an earlier start of the pool never runs tasks of a later one: once the pool
  was stopped, \<open>ShouldStop\<close> holds for its generation for ever, however often the pool is
  started and stopped again, until the 64-bit generation counter has gone around.
\<close>

lemma stale_workers_stop:
  assumes "p = fold pool_step ops WorkerPool_new" "g \<in> set (workers p)"
    and "2 * (length ops + length ops' + 1) < 2 ^ 64"
  shows "\<not> ShouldStop g p \<and> ShouldStop g (fold pool_step ops' (Stop p))"
proof -
  have p: "pool_ok p" unfolding assms(1) by (rule pool_ok_run [OF pool_ok_new])
  then have g: "\<not> stopping p" "g = generation p" using assms(2) by (auto simp: pool_ok_def split: if_splits)
  have b: "unat (generation p) \<le> 2 * length ops"
    using generation_run_grows [of WorkerPool_new ops] assms(1,3) by (simp add: WorkerPool_new_def)
  have s: "unat (generation (Stop p)) = unat g + 1"
    using g b assms(3) by (simp add: Stop_def unat_word_ariths)
  have "unat (generation (Stop p)) \<le> unat (generation (fold pool_step ops' (Stop p)))"
    using generation_run_grows [of "Stop p" ops'] s b g(2) assms(3) by simp
  then show ?thesis using g s by (auto simp: ShouldStop_def)
qed

lemma stale_workers_stop_example:
  "ShouldStop 1 (fold pool_step [OpStart 1 (\<lambda>_. True), OpStop] (Stop (fold pool_step [OpStart 3 (\<lambda>_. True)] WorkerPool_new)))"
  by (rule conjunct2 [OF stale_workers_stop [OF refl]]) (simp_all add: sample_pool)

text \<open>
  C27: Discarding a queue ends and frees every task: after any pushes, \<open>DrainQueue\<close> returns and
  the queue is empty, and before that \<open>PopTask\<close> returns the task that was pushed first.
\<close>

theorem drain_queue_ends:
  assumes "distinct ks" "q = fold (\<lambda>k q. snd (push (task_node k) q)) ks mpscq_new"
  shows "(\<exists>q'. DrainQueue q = Some q' \<and> fst (PopAndCheckEnd q') = (None, True)) \<and>
    (\<exists>q'. PopTask q = Some (if ks = [] then None else Some (task_node (hd ks)), q'))"
proof -
  have "holds (fold (\<lambda>n q. snd (push n q)) (map task_node ks) mpscq_new) ([] @ map task_node ks)"
    by (rule mpsc_fifo_queue.repr_fold_push [OF holds_new])
      (use assms(1) in \<open>auto simp: distinct_map inj_on_def list_all_iff\<close>)
  moreover have "fold (\<lambda>n q. snd (push n q)) (map task_node ks) mpscq_new = q"
    by (simp add: assms(2) fold_map comp_def)
  ultimately have h: "holds q (map task_node ks)" by simp
  obtain q' where "DrainQueue q = Some q'" "holds q' []" using DrainQueue_holds [OF h] by blast
  moreover from this have "fst (PopAndCheckEnd q') = (None, True)" using PopAndCheckEnd_holds [of q' "[]"] by auto
  ultimately show ?thesis using PopTask_holds [OF h] by (cases ks) auto
qed

theorem drain_queue_ends_witness:
  "\<exists>q'. DrainQueue (snd (push (task_node 4) (snd (push (task_node 7) mpscq_new)))) = Some q'"
  using drain_queue_ends [OF _ refl, of "[7, 4]"] by auto

end
