(* ===== verification/Runtime.thy ===== *)
theory Runtime
  imports Worker_Pools Connection_Runs
begin

text \<open>
  The runtime shared by all clients (src/net/runtime.h, src/net/runtime.cc) and the counted
  initialisation of the library (src/core/init.cc, src/core/library.h, src/core/library.cc):
  configuration of the worker threads, starting and stopping in their orders including
  every failure, and the loop of the poll thread, which connects the poller, the timers
  and the connection table to the connections. What the system answers is an argument.
\<close>

section \<open>Worker threads\<close>

definition kDefaultWorkerThreads :: nat where
  "kDefaultWorkerThreads = 2"

definition kDefaultMaxWorkerThreads :: nat where
  "kDefaultMaxWorkerThreads = 8"

definition DefaultWorkerThreads :: "nat \<Rightarrow> nat" where
  "DefaultWorkerThreads hardware_concurrency =
     (if hardware_concurrency = 0 then 2
      else if hardware_concurrency \<le> 2 then 1
      else min (max 2 (hardware_concurrency div 2)) kDefaultMaxWorkerThreads)"

datatype WorkerThreadMode = kWorkerThreadsDefault | kWorkerThreadsAuto | kWorkerThreadsFixed

record GlobalRuntime =
  rt_running :: bool
  rt_mode :: WorkerThreadMode
  rt_configured :: nat
  rt_poll_thread :: bool
  rt_poller :: bool
  rt_timers :: TimerQueue
  rt_workers :: WorkerPool
  rt_connections :: "nat ConnectionTable"

definition GlobalRuntime_new :: GlobalRuntime where
  "GlobalRuntime_new =
     \<lparr>rt_running = False, rt_mode = kWorkerThreadsDefault, rt_configured = kDefaultWorkerThreads,
      rt_poll_thread = False, rt_poller = False, rt_timers = [], rt_workers = WorkerPool_new,
      rt_connections = ConnectionTable_new\<rparr>"

definition SetWorkerThreads :: "nat \<Rightarrow> GlobalRuntime \<Rightarrow> bool \<times> GlobalRuntime" where
  "SetWorkerThreads worker_threads r =
     (if rt_running r then (False, r)
      else if worker_threads = 0
      then (True, r\<lparr>rt_configured := kDefaultWorkerThreads, rt_mode := kWorkerThreadsDefault\<rparr>)
      else (True, r\<lparr>rt_configured := worker_threads, rt_mode := kWorkerThreadsFixed\<rparr>))"

definition SetWorkerThreadsAuto :: "GlobalRuntime \<Rightarrow> bool \<times> GlobalRuntime" where
  "SetWorkerThreadsAuto r =
     (if rt_running r then (False, r) else (True, r\<lparr>rt_configured := 0, rt_mode := kWorkerThreadsAuto\<rparr>))"

definition IsWorkerThreadsAuto :: "GlobalRuntime \<Rightarrow> bool" where
  "IsWorkerThreadsAuto r \<longleftrightarrow> rt_mode r = kWorkerThreadsAuto"

definition GetWorkerThreads :: "GlobalRuntime \<Rightarrow> nat" where
  "GetWorkerThreads r = (if IsWorkerThreadsAuto r then 0 else rt_configured r)"

definition ResolveWorkerThreads :: "nat \<Rightarrow> GlobalRuntime \<Rightarrow> nat" where
  "ResolveWorkerThreads hardware_concurrency r =
     (if IsWorkerThreadsAuto r then DefaultWorkerThreads hardware_concurrency
      else if rt_configured r > 0 then rt_configured r else kDefaultWorkerThreads)"

section \<open>Starting and stopping\<close>

text \<open>
  The answers of the system during a start: the error of the poller, the number of
  processors, which worker threads can be created, and whether the poll thread can.
\<close>

record start_answers =
  poller_error :: "string option"
  processors :: nat
  worker_created :: "nat \<Rightarrow> bool"
  poll_thread_created :: bool

definition GlobalRuntime_Start :: "start_answers \<Rightarrow> GlobalRuntime \<Rightarrow> string option \<times> GlobalRuntime" where
  "GlobalRuntime_Start a r =
     (if rt_running r then (None, r)
      else case poller_error a of
        Some err \<Rightarrow> (Some err, r)
      | None \<Rightarrow>
          let r = r\<lparr>rt_poller := True\<rparr>
          in case Start (ResolveWorkerThreads (processors a) r) (worker_created a) (rt_workers r) of
               (False, w) \<Rightarrow> (Some ''failed to start worker pool'', r\<lparr>rt_workers := w, rt_poller := False\<rparr>)
             | (True, w) \<Rightarrow>
                 let r = r\<lparr>rt_workers := w, rt_running := True\<rparr>
                 in if poll_thread_created a then (None, r\<lparr>rt_poll_thread := True\<rparr>)
                    else (Some ''failed to start poll thread'',
                          r\<lparr>rt_running := False, rt_workers := Stop (rt_workers r), rt_poller := False\<rparr>))"

definition GlobalRuntime_Stop :: "GlobalRuntime \<Rightarrow> GlobalRuntime" where
  "GlobalRuntime_Stop r =
     (if \<not> rt_running r then r
      else r\<lparr>rt_running := False, rt_poll_thread := False, rt_workers := Stop (rt_workers r),
             rt_timers := TimerQueue_Clear (rt_timers r), rt_connections := ConnectionTable_Clear (rt_connections r),
             rt_poller := False\<rparr>)"

section \<open>The poll thread\<close>

definition kMaxPollTimeoutMs :: int where
  "kMaxPollTimeoutMs = 1000"

text \<open>
  One event or expired timer is looked up in the connection table as it is at that moment,
  since other threads change the table, and posted to the connection if there is one.
\<close>

definition post_poll :: "(nat \<Rightarrow> bool) \<Rightarrow> PollEvent \<times> nat ConnectionTable \<Rightarrow> (nat \<Rightarrow> ClientConnection) \<Rightarrow> (nat \<Rightarrow> ClientConnection)" where
  "post_poll alive p conns =
     (case Acquire alive (ev_id (fst p)) (snd p) of
        None \<Rightarrow> conns
      | Some k \<Rightarrow> conns(k := PostPollEvent (fst p) (conns k)))"

definition post_timer :: "(nat \<Rightarrow> bool) \<Rightarrow> TimerEvent \<times> nat ConnectionTable \<Rightarrow> (nat \<Rightarrow> ClientConnection) \<Rightarrow> (nat \<Rightarrow> ClientConnection)" where
  "post_timer alive p conns =
     (case Acquire alive (timer_id (fst p)) (snd p) of
        None \<Rightarrow> conns
      | Some k \<Rightarrow> conns(k := PostTimerEvent (fst p) (conns k)))"

text \<open>
  A round of the loop: the clock when it starts, the timer queue at that time, the events
  that the poller returns, the clock and the timer queue when the expired timers are taken,
  and the connection tables of the lookups.
\<close>

record poll_round =
  clock_before :: int
  timers_before :: TimerQueue
  returned :: "(PollEvent \<times> nat ConnectionTable) list"
  clock_after :: int
  timers_after :: TimerQueue
  timer_tables :: "nat \<Rightarrow> nat ConnectionTable"

definition poll_timeout :: "poll_round \<Rightarrow> int" where
  "poll_timeout p = NextTimeoutMs (clock_before p) kMaxPollTimeoutMs (timers_before p)"

definition expired :: "poll_round \<Rightarrow> TimerEvent list" where
  "expired p = (case snd (PopExpired (clock_after p) (timers_after p) (Some [])) of Some evs \<Rightarrow> evs | None \<Rightarrow> [])"

definition PollLoop_round :: "(nat \<Rightarrow> bool) \<Rightarrow> poll_round \<Rightarrow> (nat \<Rightarrow> ClientConnection) \<Rightarrow> (nat \<Rightarrow> ClientConnection)" where
  "PollLoop_round alive p conns =
     (let conns = fold (post_poll alive) (returned p) conns;
          evs = expired p
      in fold (post_timer alive) (zip evs (map (timer_tables p) [0..<length evs])) conns)"

text \<open>The loop runs as long as the runtime does; \<open>rounds\<close> are the rounds it runs until then.\<close>

definition PollLoop :: "(nat \<Rightarrow> bool) \<Rightarrow> poll_round list \<Rightarrow> (nat \<Rightarrow> ClientConnection) \<Rightarrow> (nat \<Rightarrow> ClientConnection)" where
  "PollLoop alive rounds conns = fold (PollLoop_round alive) rounds conns"

section \<open>The library\<close>

record library =
  initializations :: int
  runtime :: GlobalRuntime

definition library_new :: library where
  "library_new = \<lparr>initializations = 0, runtime = GlobalRuntime_new\<rparr>"

definition LibraryInit :: "start_answers \<Rightarrow> library \<Rightarrow> bool \<times> library" where
  "LibraryInit a l =
     (let l = l\<lparr>initializations := initializations l + 1\<rparr>
      in if initializations l = 1
         then case GlobalRuntime_Start a (runtime l) of
                (Some err, r) \<Rightarrow> (False, l\<lparr>initializations := initializations l - 1, runtime := r\<rparr>)
              | (None, r) \<Rightarrow> (True, l\<lparr>runtime := r\<rparr>)
         else (True, l))"

definition LibraryShutdown :: "library \<Rightarrow> library" where
  "LibraryShutdown l =
     (if initializations l \<le> 0 then l
      else let l = l\<lparr>initializations := initializations l - 1\<rparr>
           in if initializations l = 0 then l\<lparr>runtime := GlobalRuntime_Stop (runtime l)\<rparr> else l)"

text \<open>The guard object of a client: it initialises the library, and shuts it down if that succeeded.\<close>

definition LibraryInitService_new :: "bool \<Rightarrow> start_answers \<Rightarrow> library \<Rightarrow> bool \<times> library" where
  "LibraryInitService_new call_init a l = (if call_init then LibraryInit a l else (False, l))"

definition LibraryInitService_destroy :: "bool \<Rightarrow> library \<Rightarrow> library" where
  "LibraryInitService_destroy init_called l = (if init_called then LibraryShutdown l else l)"

section \<open>Facts\<close>

lemma DefaultWorkerThreads_bounds: "1 \<le> DefaultWorkerThreads n \<and> DefaultWorkerThreads n \<le> kDefaultMaxWorkerThreads"
  by (auto simp: DefaultWorkerThreads_def kDefaultMaxWorkerThreads_def)

lemma ResolveWorkerThreads_pos: "1 \<le> ResolveWorkerThreads n r"
  using DefaultWorkerThreads_bounds [of n] by (simp add: ResolveWorkerThreads_def kDefaultWorkerThreads_def)

text \<open>The parts of the runtime run together or not at all.\<close>

definition runtime_ok :: "GlobalRuntime \<Rightarrow> bool" where
  "runtime_ok r \<longleftrightarrow> rt_poller r = rt_running r \<and> rt_poll_thread r = rt_running r \<and>
     stopping (rt_workers r) = (\<not> rt_running r) \<and> pool_ok (rt_workers r) \<and>
     (\<not> rt_running r \<longrightarrow> rt_timers r = [] \<and> rt_connections r = ConnectionTable_new) \<and>
     (rt_mode r = kWorkerThreadsAuto \<or> 0 < rt_configured r)"

lemma runtime_ok_new: "runtime_ok GlobalRuntime_new"
  by (simp add: runtime_ok_def GlobalRuntime_new_def kDefaultWorkerThreads_def pool_ok_new) (simp add: WorkerPool_new_def)

lemma Start_result:
  "stopping w \<Longrightarrow> Start n f w = (ok, w') \<Longrightarrow> stopping w' = (\<not> ok) \<and> (ok \<longrightarrow> WorkerCount w' = (if n = 0 then 1 else n))"
  by (auto simp: Start_def Let_def WorkerCount_def split: if_splits)

lemma Stop_stopping [simp]: "stopping (Stop w)"
  by (simp add: Stop_def)

lemma runtime_ok_Start: "runtime_ok r \<Longrightarrow> runtime_ok (snd (GlobalRuntime_Start a r))"
proof -
  assume r: "runtime_ok r"
  show ?thesis
  proof (cases "rt_running r \<or> poller_error a \<noteq> None")
    case True
    then show ?thesis using r by (auto simp: GlobalRuntime_Start_def)
  next
    case False
    let ?n = "ResolveWorkerThreads (processors a) (r\<lparr>rt_poller := True\<rparr>)"
    obtain ok w where w: "Start ?n (worker_created a) (rt_workers r) = (ok, w)" by fastforce
    have "pool_ok w" using pool_ok_step [of "rt_workers r" "OpStart ?n (worker_created a)"] w r by (simp add: runtime_ok_def)
    moreover from this have "pool_ok (Stop w)" using pool_ok_step [of w OpStop] by simp
    moreover have "stopping w = (\<not> ok)" using Start_result [OF _ w] r False by (simp add: runtime_ok_def)
    ultimately show ?thesis
      using False r w by (cases ok) (auto simp: GlobalRuntime_Start_def runtime_ok_def Let_def)
  qed
qed

lemma runtime_ok_Stop: "runtime_ok r \<Longrightarrow> runtime_ok (GlobalRuntime_Stop r)"
  using pool_ok_step [of "rt_workers r" OpStop]
  by (auto simp: GlobalRuntime_Stop_def runtime_ok_def ConnectionTable_Clear_def ConnectionTable_new_def)

lemma runtime_ok_Set: "runtime_ok r \<Longrightarrow> runtime_ok (snd (SetWorkerThreads n r)) \<and> runtime_ok (snd (SetWorkerThreadsAuto r))"
  by (auto simp: SetWorkerThreads_def SetWorkerThreadsAuto_def runtime_ok_def kDefaultWorkerThreads_def)

section \<open>Sequences of library calls\<close>

datatype library_op = OpInit start_answers | OpShutdown | OpSetThreads nat | OpSetAuto

fun library_step :: "library_op \<Rightarrow> library \<Rightarrow> library" where
  "library_step (OpInit a) l = snd (LibraryInit a l)"
| "library_step OpShutdown l = LibraryShutdown l"
| "library_step (OpSetThreads n) l = l\<lparr>runtime := snd (SetWorkerThreads n (runtime l))\<rparr>"
| "library_step OpSetAuto l = l\<lparr>runtime := snd (SetWorkerThreadsAuto (runtime l))\<rparr>"

definition library_ok :: "library \<Rightarrow> bool" where
  "library_ok l \<longleftrightarrow> 0 \<le> initializations l \<and> runtime_ok (runtime l) \<and> rt_running (runtime l) = (0 < initializations l)"

lemma GlobalRuntime_Start_running:
  "GlobalRuntime_Start a r = (err, r') \<Longrightarrow> \<not> rt_running r \<Longrightarrow> rt_running r' = (err = None)"
  by (cases "poller_error a")
    (auto simp: GlobalRuntime_Start_def Let_def dest: sym [of "Some _"] split: prod.splits bool.splits if_splits)

lemma library_ok_step: "library_ok l \<Longrightarrow> library_ok (library_step q l)"
proof (cases q)
  case (OpInit a)
  assume l: "library_ok l"
  obtain err r where r: "GlobalRuntime_Start a (runtime l) = (err, r)" by fastforce
  have "runtime_ok r" using runtime_ok_Start [of "runtime l" a] l r by (simp add: library_ok_def)
  moreover have "rt_running r = (err = None)" if "initializations l = 0"
    using GlobalRuntime_Start_running [OF r] l that by (simp add: library_ok_def)
  ultimately show ?thesis
    using OpInit l r by (cases err) (auto simp: library_ok_def LibraryInit_def Let_def)
next
  case OpShutdown
  assume l: "library_ok l"
  have "\<not> rt_running (GlobalRuntime_Stop (runtime l))" by (simp add: GlobalRuntime_Stop_def)
  then show ?thesis
    using OpShutdown l runtime_ok_Stop [of "runtime l"] by (auto simp: library_ok_def LibraryShutdown_def Let_def)
next
  case (OpSetThreads n)
  assume l: "library_ok l"
  have "rt_running (snd (SetWorkerThreads n (runtime l))) = rt_running (runtime l)" by (simp add: SetWorkerThreads_def)
  then show ?thesis using OpSetThreads l runtime_ok_Set [of "runtime l" n] by (simp add: library_ok_def)
next
  case OpSetAuto
  assume l: "library_ok l"
  have "rt_running (snd (SetWorkerThreadsAuto (runtime l))) = rt_running (runtime l)" by (simp add: SetWorkerThreadsAuto_def)
  then show ?thesis using OpSetAuto l runtime_ok_Set [of "runtime l"] by (simp add: library_ok_def)
qed

lemma library_ok_run: "library_ok l \<Longrightarrow> library_ok (fold library_step ops l)"
  by (induction ops arbitrary: l) (simp_all add: library_ok_step)

lemma library_ok_new: "library_ok library_new"
  using runtime_ok_new by (simp add: library_ok_def library_new_def) (simp add: GlobalRuntime_new_def)

lemma LibraryInit_first:
  assumes "library_ok l" "initializations l = 0" "LibraryInit a l = (True, l')"
  shows "WorkerCount (rt_workers (runtime l')) = ResolveWorkerThreads (processors a) (runtime l)"
proof -
  let ?r = "(runtime l)\<lparr>rt_poller := True\<rparr>"
  let ?n = "ResolveWorkerThreads (processors a) ?r"
  have res: "?n = ResolveWorkerThreads (processors a) (runtime l)"
    by (simp add: ResolveWorkerThreads_def IsWorkerThreadsAuto_def)
  obtain ok w where w: "Start ?n (worker_created a) (rt_workers (runtime l)) = (ok, w)" by fastforce
  have st: "stopping (rt_workers (runtime l))" "\<not> rt_running (runtime l)"
    using assms(1,2) by (simp_all add: library_ok_def runtime_ok_def)
  have pos: "?n \<noteq> 0" using ResolveWorkerThreads_pos [of "processors a" ?r] by linarith
  have "ok \<Longrightarrow> WorkerCount w = ?n" using Start_result [OF st(1) w] pos by simp
  then show ?thesis
    using assms(2,3) st(2) w res
    by (auto simp: LibraryInit_def GlobalRuntime_Start_def Let_def split: option.splits bool.splits if_splits)
qed

section \<open>Dispatch\<close>

definition poll_inputs :: "(nat \<Rightarrow> bool) \<Rightarrow> nat \<Rightarrow> (PollEvent \<times> nat ConnectionTable) list \<Rightarrow> input list" where
  "poll_inputs alive k ps = [InPoll (fst p). p \<leftarrow> ps, Acquire alive (ev_id (fst p)) (snd p) = Some k]"

definition timer_inputs :: "(nat \<Rightarrow> bool) \<Rightarrow> nat \<Rightarrow> (TimerEvent \<times> nat ConnectionTable) list \<Rightarrow> input list" where
  "timer_inputs alive k ps = [InTimer (fst p). p \<leftarrow> ps, Acquire alive (timer_id (fst p)) (snd p) = Some k]"

definition round_inputs :: "(nat \<Rightarrow> bool) \<Rightarrow> nat \<Rightarrow> poll_round \<Rightarrow> input list" where
  "round_inputs alive k p = poll_inputs alive k (returned p) @
     timer_inputs alive k (zip (expired p) (map (timer_tables p) [0..<length (expired p)]))"

lemma run_append_inputs: "run e (is @ js) c = run e js (run e is c)"
  by (induction "is" arbitrary: c) simp_all

lemma fold_post_poll: "fold (post_poll alive) ps conns k = run e (poll_inputs alive k ps) (conns k)"
  by (induction ps arbitrary: conns) (auto simp: poll_inputs_def post_poll_def split: option.splits)

lemma fold_post_timer: "fold (post_timer alive) ps conns k = run e (timer_inputs alive k ps) (conns k)"
  by (induction ps arbitrary: conns) (auto simp: timer_inputs_def post_timer_def split: option.splits)

lemma PollLoop_round_run: "PollLoop_round alive p conns k = run e (round_inputs alive k p) (conns k)"
  by (simp add: PollLoop_round_def round_inputs_def Let_def run_append_inputs fold_post_timer [where e = e] fold_post_poll [where e = e])

lemma PollLoop_run: "PollLoop alive rounds conns k = run e (concat (map (round_inputs alive k) rounds)) (conns k)"
  unfolding PollLoop_def
  by (induction rounds arbitrary: conns) (simp_all add: run_append_inputs PollLoop_round_run [where e = e])

lemma Acquire_valid: "Acquire alive h t = Some k \<Longrightarrow> valid h"
  by (auto simp: Acquire_def split: if_splits)

text \<open>An input of the poll thread: an event or a timer with a valid id.\<close>

fun from_poll_thread :: "input \<Rightarrow> bool" where
  "from_poll_thread (InPoll ev) \<longleftrightarrow> valid (ev_id ev)"
| "from_poll_thread (InTimer ev) \<longleftrightarrow> valid (timer_id ev)"
| "from_poll_thread i \<longleftrightarrow> False"

lemma round_inputs_valid: "i \<in> set (round_inputs alive k p) \<Longrightarrow> from_poll_thread i"
  by (auto simp: round_inputs_def poll_inputs_def timer_inputs_def dest: Acquire_valid split: if_splits)

lemma from_poll_thread_input: "from_poll_thread i \<Longrightarrow> input_ok i c"
  by (cases i) (auto simp: input_ok_def)

lemma from_poll_thread_ok: "list_all from_poll_thread is \<Longrightarrow> inputs_ok e is c"
  by (induction "is" arbitrary: c) (simp_all add: from_poll_thread_input)

section \<open>Properties\<close>


text \<open>
  A round of the poll loop neither misses a timer nor sleeps through one: it waits at
  most a second and never past the earliest deadline, and the timers it posts are, in order
  of their deadlines, exactly those that are due when it looks.
\<close>

lemma poll_round_timers:
  assumes "timers_sorted (timers_before p)" "timers_sorted (timers_after p)"
  shows "0 \<le> poll_timeout p \<and> poll_timeout p \<le> kMaxPollTimeoutMs \<and>
    (\<forall>ev \<in> set (timers_before p). clock_before p \<le> deadline_ms ev \<longrightarrow> clock_before p + poll_timeout p \<le> deadline_ms ev) \<and>
    set (expired p) = {ev \<in> set (timers_after p). deadline_ms ev \<le> clock_after p} \<and> timers_sorted (expired p)"
proof -
  have "sorted (map deadline_ms (timers_before p))" using assms(1) .
  then have t: "0 \<le> poll_timeout p \<and> poll_timeout p \<le> kMaxPollTimeoutMs \<and>
    (\<forall>ev \<in> set (timers_before p). clock_before p \<le> deadline_ms ev \<longrightarrow> clock_before p + poll_timeout p \<le> deadline_ms ev)"
    by (cases "timers_before p") (auto simp: poll_timeout_def NextTimeoutMs_def kMaxPollTimeoutMs_def Let_def)
  obtain q evs where l: "pop_expired_loop (clock_after p) (timers_after p) [] = (q, evs)" by fastforce
  then have e: "expired p = evs" by (simp add: expired_def PopExpired_def)
  from pop_expired_loop_spec [OF assms(2) l] obtain due where
    d: "evs = [] @ due" "mset (timers_after p) = mset due + mset q" "timers_sorted due"
      "\<forall>ev \<in> set due. deadline_ms ev \<le> clock_after p" "\<forall>ev \<in> set q. clock_after p < deadline_ms ev"
    by blast
  have "set (timers_after p) = set due \<union> set q" using d(2) by (metis set_mset_mset set_mset_union)
  then show ?thesis using t d e by force
qed

definition sample_round :: poll_round where
  "sample_round = \<lparr>clock_before = 10, timers_before = [\<lparr>deadline_ms = 15, timer_id = \<lparr>slot = 0, generation = 1\<rparr>, kind = TimerKind_kConnectTimeout\<rparr>],
     returned = [], clock_after = 15, timers_after = [\<lparr>deadline_ms = 15, timer_id = \<lparr>slot = 0, generation = 1\<rparr>, kind = TimerKind_kConnectTimeout\<rparr>],
     timer_tables = (\<lambda>_. ConnectionTable_new)\<rparr>"

lemma poll_round_timers_example:
  "set (expired sample_round) = {ev \<in> set (timers_after sample_round). deadline_ms ev \<le> clock_after sample_round}"
  using poll_round_timers [of sample_round] by (simp add: sample_round_def)


definition sample_answers :: start_answers where
  "sample_answers = \<lparr>poller_error = None, processors = 4, worker_created = (\<lambda>_. True), poll_thread_created = True\<rparr>"


text \<open>
  The configured number of worker threads is the number that runs: after
  \<open>SetRuntimeWorkerThreads\<close> with a positive number the next start of the library has that many
  workers, with 0 it has the default of 2, and in automatic mode between 1 and 8 depending
  on the processors; while the runtime runs, the calls are refused and change nothing.
\<close>

lemma worker_threads_configured:
  assumes "library_ok l" "initializations l = 0" "LibraryInit a (library_step op l) = (True, l')"
  shows "(op = OpSetThreads n \<longrightarrow> WorkerCount (rt_workers (runtime l')) = (if n = 0 then 2 else n) \<and>
      GetWorkerThreads (runtime (library_step op l)) = (if n = 0 then 2 else n)) \<and>
    (op = OpSetAuto \<longrightarrow> 1 \<le> WorkerCount (rt_workers (runtime l')) \<and> WorkerCount (rt_workers (runtime l')) \<le> 8 \<and>
      GetWorkerThreads (runtime (library_step op l)) = 0) \<and>
    fst (SetWorkerThreads m (runtime l')) = False \<and> fst (SetWorkerThreadsAuto (runtime l')) = False"
proof -
  have ok: "library_ok (library_step op l)" by (rule library_ok_step [OF assms(1)])
  have nr: "\<not> rt_running (runtime l)" using assms(1,2) by (simp add: library_ok_def)
  have run: "rt_running (runtime l')"
    using library_ok_step [OF ok, of "OpInit a"] assms(3) ok by (auto simp: library_ok_def LibraryInit_def Let_def split: prod.splits option.splits if_splits)
  have wc: "WorkerCount (rt_workers (runtime l')) = ResolveWorkerThreads (processors a) (runtime (library_step op l))"
    if "op = OpSetThreads n \<or> op = OpSetAuto"
    by (rule LibraryInit_first [OF ok _ assms(3)]) (use that assms(2) in auto)
  show ?thesis
    using run wc nr DefaultWorkerThreads_bounds [of "processors a"]
    by (auto simp: SetWorkerThreads_def SetWorkerThreadsAuto_def ResolveWorkerThreads_def IsWorkerThreadsAuto_def GetWorkerThreads_def
        kDefaultWorkerThreads_def kDefaultMaxWorkerThreads_def)
qed

lemma worker_threads_configured_example:
  "WorkerCount (rt_workers (runtime (snd (LibraryInit sample_answers (library_step (OpSetThreads 3) library_new))))) = 3"
proof -
  let ?l = "library_step (OpSetThreads 3) library_new"
  have "LibraryInit sample_answers ?l = (True, snd (LibraryInit sample_answers ?l))"
    by (simp add: LibraryInit_def library_new_def GlobalRuntime_Start_def SetWorkerThreads_def GlobalRuntime_new_def sample_answers_def
        Start_def WorkerPool_new_def list_all_iff Let_def)
  from worker_threads_configured [OF library_ok_new _ this, of 3] show ?thesis by (simp add: library_new_def)
qed

end
