(* ===== verification/Texts.thy ===== *)
theory Texts
  imports Connx_Prelude
begin

text \<open>
  Formatted texts and errors (src/utils/string.h, src/utils/string.cc, src/utils/status.h,
  src/utils/status.cc, POSIX branches). The standard library's \<open>vsnprintf\<close> is modelled for the
  conversions that the sources use; whether an allocation succeeds is an argument \<open>alloc\<close>, and
  the buffer that \<open>strerror_r\<close> leaves is an argument too. C strings are \<open>string\<close>s without NUL.
\<close>

section \<open>The standard library\<close>

definition INT_MAX :: nat where
  "INT_MAX = 2147483647"

definition c_str :: "string \<Rightarrow> string" where
  "c_str s = takeWhile (\<lambda>c. c \<noteq> CHR 0x00) s"

definition digit :: "nat \<Rightarrow> char" where
  "digit d = char_of (48 + d)"

fun digits :: "nat \<Rightarrow> string" where
  "digits n = (if n < 10 then [digit n] else digits (n div 10) @ [digit (n mod 10)])"

declare digits.simps [simp del]

definition show_int :: "int \<Rightarrow> string" where
  "show_int i = (if i < 0 then CHR ''-'' # digits (nat (- i)) else digits (nat i))"

text \<open>Arguments of \<open>%s\<close> and \<open>%d\<close>. The format decides how many there are, the argument how it is written.\<close>

datatype fmt_arg = FStr string | FInt int

fun show_arg :: "fmt_arg \<Rightarrow> string" where
  "show_arg (FStr s) = c_str s"
| "show_arg (FInt i) = show_int i"

fun expand :: "string \<Rightarrow> fmt_arg list \<Rightarrow> string" where
  "expand [] as = []"
| "expand (c # f) as =
     (if c = CHR ''%'' then case as of [] \<Rightarrow> [] | a # as \<Rightarrow> show_arg a @ expand (tl f) as
      else c # expand f as)"

text \<open>The result, and the text that is in the buffer of \<open>n\<close> bytes up to the NUL.\<close>

definition vsnprintf :: "nat \<Rightarrow> string \<Rightarrow> int \<times> string" where
  "vsnprintf n text = (if length text > INT_MAX then (- 1, []) else (int (length text), take (n - 1) text))"

section \<open>Strings\<close>

text \<open>\<open>None\<close> where the source aborts.\<close>

definition connx_strdup :: "nat \<Rightarrow> bool \<Rightarrow> string \<Rightarrow> nat \<Rightarrow> string option" where
  "connx_strdup size_max alloc src n = (if n = size_max then None else if \<not> alloc then None else Some (take n src))"

definition connx_format :: "bool \<Rightarrow> string \<Rightarrow> fmt_arg list \<Rightarrow> int \<times> string option" where
  "connx_format alloc format args =
     (case vsnprintf 128 (expand format args) of (ret, buf) \<Rightarrow>
        if ret < 0 then (- 1, None)
        else let strp_buflen = nat ret + 1
             in if \<not> alloc then (- 1, None)
                else if strp_buflen \<le> 128 then (ret, Some (take strp_buflen buf))
                else case vsnprintf strp_buflen (expand format args) of (ret, buf) \<Rightarrow>
                       if ret = int strp_buflen - 1 then (ret, Some buf) else (- 1, None))"

text \<open>The text that the callers build from the result of \<open>connx_format\<close>.\<close>

definition text_of :: "int \<times> string option \<Rightarrow> string option" where
  "text_of r = map_option (\<lambda>message. if 0 < fst r then take (nat (fst r)) message else []) (snd r)"

definition FormatErrorMessage_text :: "bool \<Rightarrow> (int \<Rightarrow> string) \<Rightarrow> int \<Rightarrow> string" where
  "FormatErrorMessage_text alloc strerror_r err =
     (case text_of (connx_format alloc ''code: %d (%s)'' [FInt err, FStr (take 511 (strerror_r err))]) of
        None \<Rightarrow> [] | Some text \<Rightarrow> text)"

definition posix_error_message :: "nat \<Rightarrow> bool \<Rightarrow> (int \<Rightarrow> string) \<Rightarrow> int \<Rightarrow> string option" where
  "posix_error_message size_max alloc strerror_r err =
     (let buf = c_str (take 511 (strerror_r err)) in connx_strdup size_max alloc buf (length buf))"

section \<open>Status\<close>

record Status =
  err_code :: int
  desc :: string

text \<open>An error is a pointer to a status, \<open>None\<close> for \<open>CONNX_ERROR_NONE\<close>.\<close>

type_synonym connx_error = "Status option"

definition Status_none :: Status where
  "Status_none = \<lparr>err_code = 0, desc = []\<rparr>"

definition Status_msg :: "string \<Rightarrow> Status" where
  "Status_msg msg = \<lparr>err_code = - 1, desc = msg\<rparr>"

definition ErrorCode :: "Status \<Rightarrow> int" where
  "ErrorCode s = err_code s"

definition ToString :: "bool \<Rightarrow> Status \<Rightarrow> string" where
  "ToString alloc s =
     (if err_code s = 0 then ''No error''
      else case text_of (if desc s = [] then connx_format alloc ''code <%d>.'' [FInt (err_code s)]
                         else connx_format alloc ''code <%d>, %s.'' [FInt (err_code s), FStr (desc s)]) of
             None \<Rightarrow> [] | Some text \<Rightarrow> text)"

definition MakeStatusFromPosixError :: "bool \<Rightarrow> (int \<Rightarrow> string) \<Rightarrow> int \<Rightarrow> string \<Rightarrow> connx_error" where
  "MakeStatusFromPosixError alloc strerror_r err api =
     map_option (\<lambda>str. \<lparr>err_code = err, desc = str\<rparr>)
       (text_of (connx_format alloc (CHR 0x27 # ''%s'' @ CHR 0x27 # ''-[%s]'') [FStr api, FStr (take 255 (strerror_r err))]))"

definition MakeStatusFromFormat :: "bool \<Rightarrow> string \<Rightarrow> fmt_arg list \<Rightarrow> connx_error" where
  "MakeStatusFromFormat alloc format args = map_option Status_msg (text_of (connx_format alloc format args))"

section \<open>Facts\<close>

lemma c_str_id [simp]: "CHR 0x00 \<notin> set s \<Longrightarrow> c_str s = s"
  by (auto simp: c_str_def takeWhile_eq_all_conv)

lemma c_str_no_nul [simp]: "CHR 0x00 \<notin> set (c_str s)"
  by (auto simp: c_str_def dest: set_takeWhileD)

lemma connx_format_eq:
  "connx_format alloc format args =
     (let text = expand format args
      in if alloc \<and> length text \<le> INT_MAX then (int (length text), Some text) else (- 1, None))"
  by (auto simp: connx_format_def vsnprintf_def Let_def)

lemma text_of_format:
  "text_of (connx_format alloc format args) =
     (if alloc \<and> length (expand format args) \<le> INT_MAX then Some (expand format args) else None)"
  by (auto simp: connx_format_eq text_of_def Let_def)

lemma MakeStatusFromFormat_eq:
  "MakeStatusFromFormat alloc format args =
     (if alloc \<and> length (expand format args) \<le> INT_MAX then Some (Status_msg (expand format args)) else None)"
  by (simp add: MakeStatusFromFormat_def text_of_format)

lemma digits_nonempty [simp]: "digits n \<noteq> []"
  by (subst digits.simps) simp

lemma digit_char: "d < 10 \<Longrightarrow> of_char (digit d) = (48 + d :: nat)"
  by (simp add: digit_def)

lemma digits_range: "c \<in> set (digits n) \<Longrightarrow> 48 \<le> (of_char c :: nat) \<and> (of_char c :: nat) < 58"
proof (induction n rule: digits.induct)
  case (1 n)
  have "n mod 10 < 10" by simp
  with 1 show ?case by (subst (asm) (2) digits.simps) (auto simp: digit_char split: if_splits)
qed

lemma digits_plain [simp]: "CHR '':'' \<notin> set (digits n)" "CHR '']'' \<notin> set (digits n)" "CHR 0x00 \<notin> set (digits n)"
  by (auto dest: digits_range)

text \<open>Reading the digits back.\<close>

definition read_digits :: "string \<Rightarrow> nat" where
  "read_digits s = foldl (\<lambda>n c. n * 10 + (of_char c - 48)) 0 s"

lemma read_digits: "read_digits (digits n) = n"
proof (induction n rule: digits.induct)
  case (1 n)
  show ?case
  proof (cases "n < 10")
    case True
    then show ?thesis by (subst digits.simps) (simp add: read_digits_def digit_char)
  next
    case False
    then show ?thesis using 1 by (subst digits.simps) (simp add: read_digits_def digit_char)
  qed
qed

end
