(* ===== verification/Host_Ports.thy ===== *)
theory Host_Ports
  imports Texts
begin

text \<open>
  Host names, ports and socket addresses (src/net/resolve_address.h, src/net/resolve_address.cc,
  src/net/socket_util.cc, POSIX branches). The resolver and the address parser of the system
  (\<open>getaddrinfo\<close>, \<open>gai_strerror\<close>, \<open>inet_pton\<close>) are arguments, and so is which allocations succeed.
  Socket addresses are the bytes of \<open>sockaddr_in\<close> and \<open>sockaddr_in6\<close> in the layout of Linux.
\<close>

section \<open>Splitting and joining\<close>

text \<open>\<open>std::string::find\<close> and \<open>std::string::substr\<close>.\<close>

definition find_char :: "char \<Rightarrow> string \<Rightarrow> nat \<Rightarrow> nat option" where
  "find_char c s pos =
     (if c \<in> set (drop pos s) then Some (pos + length (takeWhile (\<lambda>d. d \<noteq> c) (drop pos s))) else None)"

definition substr :: "string \<Rightarrow> nat \<Rightarrow> nat \<Rightarrow> string" where
  "substr s pos n = take n (drop pos s)"

definition connx_join_host_port :: "bool \<Rightarrow> string \<Rightarrow> int \<Rightarrow> int \<times> string option" where
  "connx_join_host_port alloc host port =
     (if take 1 host \<noteq> ''['' \<and> CHR '':'' \<in> set host
      then connx_format alloc ''[%s]:%d'' [FStr host, FInt port]
      else connx_format alloc ''%s:%d'' [FStr host, FInt port])"

text \<open>The results are written to \<open>host\<close> and \<open>port\<close>, whose old contents are the last arguments.\<close>

definition connx_split_host_port :: "string \<Rightarrow> string \<Rightarrow> string \<Rightarrow> bool \<times> string \<times> string" where
  "connx_split_host_port name host port =
     (if take 1 name = ''['' then
        case find_char (CHR '']'') name 1 of
          None \<Rightarrow> (False, host, port)
        | Some rbracket \<Rightarrow>
            let port' = (if rbracket = length name - 1 then Some []
                         else if name ! (rbracket + 1) = CHR '':''
                         then Some (substr name (rbracket + 2) (length name - rbracket - 2))
                         else None)
            in case port' of
                 None \<Rightarrow> (False, host, port)
               | Some port \<Rightarrow>
                   let host = substr name 1 (rbracket - 1)
                   in if find_char (CHR '':'') host 0 = None then (False, [], port) else (True, host, port)
      else
        case find_char (CHR '':'') name 0 of
          None \<Rightarrow> (True, name, [])
        | Some colon \<Rightarrow>
            if find_char (CHR '':'') name (colon + 1) = None
            then (True, substr name 0 colon, substr name (colon + 1) (length name - colon - 1))
            else (True, name, []))"

section \<open>Resolving\<close>

record connx_resolved_address =
  ra_addr :: "byte list"
  ra_len :: nat

record resolver =
  getaddrinfo :: "string \<Rightarrow> string \<Rightarrow> int + byte list list"
  gai_strerror :: "int \<Rightarrow> string"

text \<open>The allocations of one call: an error text, the result, its array; and what fresh memory holds.\<close>

record resolve_memory =
  text_alloc :: bool
  list_alloc :: bool
  array_alloc :: bool
  fresh :: "nat \<Rightarrow> byte"

definition connx_getaddrinfo_error :: "resolver \<Rightarrow> resolve_memory \<Rightarrow> int \<Rightarrow> connx_error" where
  "connx_getaddrinfo_error r m err =
     map_option (\<lambda>str. \<lparr>err_code = err, desc = str\<rparr>)
       (text_of (connx_format (text_alloc m) (CHR 0x27 # ''getaddrinfo'' @ CHR 0x27 # ''-[%s]'') [FStr (gai_strerror r err)]))"

text \<open>Copying an address to the 128 bytes for it; \<open>None\<close> when it is longer.\<close>

definition copy_addr :: "resolve_memory \<Rightarrow> byte list \<Rightarrow> connx_resolved_address option" where
  "copy_addr m ai =
     (if length ai \<le> 128 then Some \<lparr>ra_addr = ai @ map (fresh m) [length ai..<128], ra_len = length ai\<rparr> else None)"

definition service_ports :: "(string \<times> string) list" where
  "service_ports = [(''http'', ''80''), (''https'', ''443'')]"

definition lookup_host :: "resolver \<Rightarrow> string \<Rightarrow> string \<Rightarrow> int + byte list list" where
  "lookup_host r host port =
     (case getaddrinfo r (c_str host) (c_str port) of
        Inr ais \<Rightarrow> Inr ais
      | Inl s \<Rightarrow>
          (case find (\<lambda>svc. port = fst svc) service_ports of
             None \<Rightarrow> Inl s
           | Some svc \<Rightarrow> getaddrinfo r (c_str host) (snd svc)))"

text \<open>
  The error and the list of addresses; \<open>None\<close> for a write behind an address buffer. The pointer
  to the list stays null unless a list is stored.
\<close>

definition connx_blocking_resolve_address ::
  "resolver \<Rightarrow> resolve_memory \<Rightarrow> string \<Rightarrow> string option \<Rightarrow> (connx_error \<times> connx_resolved_address list option) option" where
  "connx_blocking_resolve_address r m name default_port =
     (case connx_split_host_port name [] [] of (_, host, port) \<Rightarrow>
        if host = [] then Some (MakeStatusFromFormat (text_alloc m) ''unparseable host:port (%s)'' [FStr name], None)
        else if port = [] \<and> default_port = None
        then Some (MakeStatusFromFormat (text_alloc m) ''no port in name (%s)'' [FStr name], None)
        else case lookup_host r host (if port = [] then (case default_port of Some p \<Rightarrow> p | None \<Rightarrow> []) else port) of
               Inl s \<Rightarrow> Some (connx_getaddrinfo_error r m s, None)
             | Inr ais \<Rightarrow>
                 if \<not> list_alloc m
                 then Some (MakeStatusFromFormat (text_alloc m) ''malloc failed for resolved_addresses'' [], None)
                 else if \<not> array_alloc m
                 then Some (MakeStatusFromFormat (text_alloc m) ''malloc failed for resolved_address array'' [], None)
                 else map_option (\<lambda>addrs. (None, Some addrs)) (those (map (copy_addr m) ais)))"

text \<open>The bytes of an address that are given to \<open>connect\<close>.\<close>

definition raw_bytes :: "connx_resolved_address \<Rightarrow> byte list" where
  "raw_bytes a = take (ra_len a) (ra_addr a)"

section \<open>Socket addresses\<close>

definition AF_INET :: nat where
  "AF_INET = 2"

definition AF_INET6 :: nat where
  "AF_INET6 = 10"

definition set_bytes :: "nat \<Rightarrow> byte list \<Rightarrow> byte list \<Rightarrow> byte list" where
  "set_bytes pos bs a = take pos a @ bs @ drop (pos + length bs) a"

definition get_bytes :: "nat \<Rightarrow> nat \<Rightarrow> byte list \<Rightarrow> byte list" where
  "get_bytes pos n a = take n (drop pos a)"

text \<open>The family is stored in the order of a little-endian host, the port in network order by \<open>htons\<close>.\<close>

definition family_bytes :: "nat \<Rightarrow> byte list" where
  "family_bytes f = [word_of_nat (f mod 256), word_of_nat (f div 256)]"

definition sa_family :: "connx_resolved_address \<Rightarrow> nat" where
  "sa_family a = (case get_bytes 0 2 (ra_addr a) of [lo, hi] \<Rightarrow> unat lo + 256 * unat hi | _ \<Rightarrow> 0)"

definition htons :: "nat \<Rightarrow> byte list" where
  "htons p = [word_of_nat (p div 256), word_of_nat (p mod 256)]"

definition ntohs :: "byte list \<Rightarrow> nat" where
  "ntohs bs = (case bs of [hi, lo] \<Rightarrow> 256 * unat hi + unat lo | _ \<Rightarrow> 0)"

definition zero_address :: connx_resolved_address where
  "zero_address = \<lparr>ra_addr = replicate 128 0, ra_len = 0\<rparr>"

definition connx_sockaddr_get_port :: "connx_resolved_address \<Rightarrow> int" where
  "connx_sockaddr_get_port a =
     (if sa_family a = AF_INET then int (ntohs (get_bytes 2 2 (ra_addr a)))
      else if sa_family a = AF_INET6 then int (ntohs (get_bytes 2 2 (ra_addr a)))
      else 0)"

definition connx_sockaddr_set_port :: "connx_resolved_address \<Rightarrow> int \<Rightarrow> int \<times> connx_resolved_address" where
  "connx_sockaddr_set_port a port =
     (if \<not> (0 \<le> port \<and> port < 65536) then (0, a)
      else if sa_family a = AF_INET then (1, a\<lparr>ra_addr := set_bytes 2 (htons (nat port)) (ra_addr a)\<rparr>)
      else if sa_family a = AF_INET6 then (1, a\<lparr>ra_addr := set_bytes 2 (htons (nat port)) (ra_addr a)\<rparr>)
      else (0, a))"

text \<open>\<open>None\<close> where the assertion aborts.\<close>

definition connx_sockaddr_make_wildcard4 :: "int \<Rightarrow> connx_resolved_address option" where
  "connx_sockaddr_make_wildcard4 port =
     (if \<not> (0 \<le> port \<and> port < 65536) then None
      else Some (zero_address\<lparr>ra_addr := set_bytes 2 (htons (nat port)) (set_bytes 0 (family_bytes AF_INET) (ra_addr zero_address)),
                              ra_len := 16\<rparr>))"

record inet =
  pton6 :: "string \<Rightarrow> byte list option"
  pton4 :: "string \<Rightarrow> byte list option"

text \<open>\<open>None\<close> for the result 0. The result of \<open>connx_sockaddr_set_port\<close> is not looked at.\<close>

definition connx_string_to_sockaddr :: "inet \<Rightarrow> string \<Rightarrow> int \<Rightarrow> connx_resolved_address option" where
  "connx_string_to_sockaddr I s port =
     (case pton6 I s of
        Some sin6_addr \<Rightarrow>
          Some (snd (connx_sockaddr_set_port (zero_address\<lparr>ra_addr := set_bytes 0 (family_bytes AF_INET6)
            (set_bytes 8 sin6_addr (ra_addr zero_address)), ra_len := 28\<rparr>) port))
      | None \<Rightarrow>
          (case pton4 I s of
             Some sin_addr \<Rightarrow>
               Some (snd (connx_sockaddr_set_port (zero_address\<lparr>ra_addr := set_bytes 0 (family_bytes AF_INET)
                 (set_bytes 4 sin_addr (ra_addr zero_address)), ra_len := 16\<rparr>) port))
           | None \<Rightarrow> None))"

section \<open>Facts on splitting\<close>

lemma find_char_first [simp]:
  "pos \<le> length xs \<Longrightarrow> c \<notin> set (drop pos xs) \<Longrightarrow> find_char c (xs @ c # ys) pos = Some (length xs)"
  by (subst find_char_def, subst (2) drop_append, subst takeWhile_append2) auto

lemma find_char_none [simp]: "find_char c s pos = None \<longleftrightarrow> c \<notin> set (drop pos s)"
  by (simp add: find_char_def)

lemma split_bracketed:
  assumes "CHR '']'' \<notin> set h" "CHR '':'' \<in> set h"
  shows "connx_split_host_port (CHR ''['' # h @ CHR '']'' # CHR '':'' # p) x y = (True, h, p)"
proof -
  have f: "find_char (CHR '']'') ((CHR ''['' # h) @ CHR '']'' # CHR '':'' # p) 1 = Some (length (CHR ''['' # h))"
    by (rule find_char_first) (use assms(1) in simp_all)
  have n: "(CHR ''['' # h @ CHR '']'' # CHR '':'' # p) ! (Suc (Suc (length h))) = CHR '':''"
    by (simp add: nth_append)
  show ?thesis using f n assms(2) by (simp add: connx_split_host_port_def substr_def Let_def)
qed

lemma split_plain:
  assumes "take 1 h \<noteq> ''[''" "CHR '':'' \<notin> set h" "CHR '':'' \<notin> set p"
  shows "connx_split_host_port (h @ CHR '':'' # p) x y = (True, h, p)"
proof -
  have "take 1 (h @ CHR '':'' # p) \<noteq> ''[''" using assms(1) by (cases h) auto
  moreover have "find_char (CHR '':'') (h @ CHR '':'' # p) 0 = Some (length h)"
    by (rule find_char_first) (use assms(2) in simp_all)
  ultimately show ?thesis using assms(3) by (simp add: connx_split_host_port_def substr_def)
qed

lemma show_int_plain [simp]: "CHR '':'' \<notin> set (show_int i)" "CHR '']'' \<notin> set (show_int i)"
  by (simp_all add: show_int_def)

text \<open>The host without the brackets of an IPv6 literal.\<close>

definition bare_host :: "string \<Rightarrow> string" where
  "bare_host host = (if take 1 host = ''['' then butlast (tl host) else host)"

lemma set_bare_host: "set (bare_host host) \<subseteq> set host"
  by (cases host) (auto simp: bare_host_def dest: in_set_butlastD)

definition host_wf :: "string \<Rightarrow> bool" where
  "host_wf host \<longleftrightarrow> CHR 0x00 \<notin> set host \<and> CHR '']'' \<notin> set (bare_host host) \<and>
     (take 1 host = ''['' \<longrightarrow> host = ''['' @ bare_host host @ '']'' \<and> CHR '':'' \<in> set (bare_host host))"

lemma join_text:
  assumes "snd (connx_join_host_port alloc host port) = Some name"
  shows "name = (if take 1 host \<noteq> ''['' \<and> CHR '':'' \<in> set host then CHR ''['' # c_str host @ CHR '']'' # CHR '':'' # show_int port
     else c_str host @ CHR '':'' # show_int port)"
  using assms by (auto simp: connx_join_host_port_def connx_format_eq Let_def split: if_splits)

lemma split_joined:
  assumes "host_wf host" "snd (connx_join_host_port alloc host port) = Some name"
  shows "connx_split_host_port name h p = (True, bare_host host, show_int port)"
proof -
  have c: "c_str host = host" using assms(1) by (simp add: host_wf_def)
  show ?thesis
  proof (cases "take 1 host = ''[''")
    case True
    then have "host = CHR ''['' # bare_host host @ '']''" "CHR '':'' \<in> set (bare_host host)" "CHR '']'' \<notin> set (bare_host host)"
      using assms(1) by (simp_all add: host_wf_def)
    moreover from this have "name = CHR ''['' # bare_host host @ CHR '']'' # CHR '':'' # show_int port"
      using join_text [OF assms(2)] True c by (metis append.assoc append_Cons append_Nil)
    ultimately show ?thesis using split_bracketed by simp
  next
    case False
    then have b: "bare_host host = host" "CHR '']'' \<notin> set host" using assms(1) by (auto simp: host_wf_def bare_host_def)
    show ?thesis
      using join_text [OF assms(2)] False b c split_bracketed split_plain [OF False] by (cases "CHR '':'' \<in> set host") simp_all
  qed
qed

section \<open>Facts on resolving\<close>

lemma those_copy:
  "(\<forall>a \<in> set ais. length a \<le> 128) \<Longrightarrow> \<exists>as. those (map (copy_addr m) ais) = Some as \<and> map raw_bytes as = ais"
  by (induction ais) (auto simp: copy_addr_def raw_bytes_def)

lemma lookup_host_port:
  "lookup_host r host port = Inr ais \<Longrightarrow> \<exists>p. getaddrinfo r (c_str host) p = Inr ais \<and>
     (p = c_str port \<or> (port, p) \<in> set service_ports \<and> (\<exists>s. getaddrinfo r (c_str host) (c_str port) = Inl s))"
  by (auto simp: lookup_host_def service_ports_def split: sum.splits if_splits option.splits)

lemma those_copy_back: "those (map (copy_addr m) ais) = Some as \<Longrightarrow> map raw_bytes as = ais"
  by (induction ais arbitrary: as) (auto simp: copy_addr_def raw_bytes_def split: option.splits if_splits)

lemma resolve_addresses:
  assumes "connx_blocking_resolve_address r m name default_port = Some (err, Some as)"
    and "connx_split_host_port name [] [] = (ok, host, port)"
  shows "err = None \<and> host \<noteq> [] \<and> (\<exists>q. (if port = [] then default_port else Some port) = Some q \<and>
    lookup_host r host q = Inr (map raw_bytes as))"
  using assms those_copy_back
  by (fastforce simp: connx_blocking_resolve_address_def split: if_splits sum.splits option.splits)

lemma length_c_str: "length (c_str s) \<le> length s"
  by (simp add: c_str_def length_takeWhile_le)

section \<open>Facts on socket addresses\<close>

lemma length_set_bytes [simp]: "pos + length bs \<le> length a \<Longrightarrow> length (set_bytes pos bs a) = length a"
  by (simp add: set_bytes_def)

lemma get_set_same: "pos + length bs \<le> length a \<Longrightarrow> n = length bs \<Longrightarrow> get_bytes pos n (set_bytes pos bs a) = bs"
  by (simp add: get_bytes_def set_bytes_def)

lemma get_set_other:
  "pos + length bs \<le> length a \<Longrightarrow> q + n \<le> pos \<or> pos + length bs \<le> q \<Longrightarrow> get_bytes q n (set_bytes pos bs a) = get_bytes q n a"
  by (auto simp: get_bytes_def set_bytes_def drop_take min_def)

lemma ntohs_htons: "p < 65536 \<Longrightarrow> ntohs (htons p) = p"
  by (simp add: ntohs_def htons_def unat_of_nat) 

lemma length_bytes [simp]: "length (htons p) = 2" "length (family_bytes f) = 2"
  by (simp_all add: htons_def family_bytes_def)

lemma sa_family_bytes: "f < 65536 \<Longrightarrow> get_bytes 0 2 (ra_addr a) = family_bytes f \<Longrightarrow> sa_family a = f"
  by (simp add: sa_family_def family_bytes_def unat_of_nat)

definition inet_family :: "connx_resolved_address \<Rightarrow> bool" where
  "inet_family a \<longleftrightarrow> length (ra_addr a) = 128 \<and> (sa_family a = AF_INET \<or> sa_family a = AF_INET6)"

lemma sa_family_cong: "get_bytes 0 2 (ra_addr a) = get_bytes 0 2 (ra_addr b) \<Longrightarrow> sa_family a = sa_family b"
  by (simp add: sa_family_def)

lemma set_port_ok:
  assumes "inet_family a" "0 \<le> p" "p < 65536" "connx_sockaddr_set_port a p = (ok, a')"
  shows "ok = 1 \<and> inet_family a' \<and> connx_sockaddr_get_port a' = p \<and> sa_family a' = sa_family a \<and> ra_len a' = ra_len a \<and>
    (\<forall>q n. 4 \<le> q \<longrightarrow> get_bytes q n (ra_addr a') = get_bytes q n (ra_addr a))"
proof -
  have a: "ok = 1" "a' = a\<lparr>ra_addr := set_bytes 2 (htons (nat p)) (ra_addr a)\<rparr>"
    using assms by (auto simp: connx_sockaddr_set_port_def inet_family_def split: if_splits)
  have l: "2 + length (htons (nat p)) \<le> length (ra_addr a)" using assms(1) by (simp add: inet_family_def)
  have f: "sa_family a' = sa_family a" unfolding a(2) by (rule sa_family_cong) (use l in \<open>simp add: get_set_other\<close>)
  have "get_bytes 2 2 (ra_addr a') = htons (nat p)" using l by (simp add: a(2) get_set_same)
  then have "connx_sockaddr_get_port a' = p"
    using assms(1-3) f by (auto simp: connx_sockaddr_get_port_def inet_family_def ntohs_htons)
  then show ?thesis using a f l assms(1) by (simp add: inet_family_def get_set_other)
qed

lemma set_port_bad: "\<not> (0 \<le> p \<and> p < 65536) \<Longrightarrow> connx_sockaddr_set_port a p = (0, a)"
  by (simp add: connx_sockaddr_set_port_def)

text \<open>An address of either family before the port is set.\<close>

definition unported :: "nat \<Rightarrow> nat \<Rightarrow> byte list \<Rightarrow> nat \<Rightarrow> connx_resolved_address" where
  "unported f pos bs n = zero_address\<lparr>ra_addr := set_bytes 0 (family_bytes f) (set_bytes pos bs (ra_addr zero_address)), ra_len := n\<rparr>"

lemma unported_ok:
  assumes "f = AF_INET \<or> f = AF_INET6" "4 \<le> pos" "pos + length bs \<le> 128"
  shows "inet_family (unported f pos bs n) \<and> sa_family (unported f pos bs n) = f \<and> connx_sockaddr_get_port (unported f pos bs n) = 0 \<and>
    get_bytes pos (length bs) (ra_addr (unported f pos bs n)) = bs \<and> ra_len (unported f pos bs n) = n"
proof -
  let ?z = "replicate 128 (0 :: byte)" and ?a = "unported f pos bs n"
  have a: "ra_addr ?a = set_bytes 0 (family_bytes f) (set_bytes pos bs ?z)" "ra_len ?a = n"
    by (simp_all add: unported_def zero_address_def)
  have f: "f < 65536" using assms(1) by (auto simp: AF_INET_def AF_INET6_def)
  have "get_bytes 0 2 (ra_addr ?a) = family_bytes f" using assms(2,3) by (simp add: a get_set_same)
  then have s: "sa_family ?a = f" using sa_family_bytes f by blast
  have "get_bytes 2 2 (ra_addr ?a) = get_bytes 2 2 ?z" using assms(2,3) by (simp add: a get_set_other)
  also have "\<dots> = [0, 0]" by (simp add: get_bytes_def numeral_eq_Suc)
  finally have "connx_sockaddr_get_port ?a = 0" by (simp add: connx_sockaddr_get_port_def ntohs_def)
  moreover have "get_bytes pos (length bs) (ra_addr ?a) = bs" using assms(2,3) by (simp add: a get_set_other get_set_same)
  ultimately show ?thesis using s a assms by (auto simp: inet_family_def)
qed

lemma string_to_sockaddr_eq:
  "connx_string_to_sockaddr I s port =
     (case pton6 I s of Some b \<Rightarrow> Some (snd (connx_sockaddr_set_port (unported AF_INET6 8 b 28) port))
      | None \<Rightarrow> map_option (\<lambda>b. snd (connx_sockaddr_set_port (unported AF_INET 4 b 16) port)) (pton4 I s))"
  by (simp add: connx_string_to_sockaddr_def unported_def split: option.splits)

lemma ported_ok:
  assumes "f = AF_INET \<or> f = AF_INET6" "4 \<le> pos" "pos + length bs \<le> 128"
    and "a = snd (connx_sockaddr_set_port (unported f pos bs n) port)"
  shows "inet_family a \<and> sa_family a = f \<and> ra_len a = n \<and> get_bytes pos (length bs) (ra_addr a) = bs \<and>
    connx_sockaddr_get_port a = (if 0 \<le> port \<and> port < 65536 then port else 0)"
proof (cases "0 \<le> port \<and> port < 65536")
  case True
  then show ?thesis
    using unported_ok [OF assms(1-3), of n] set_port_ok [of "unported f pos bs n" port] assms(2,4)
    by (cases "connx_sockaddr_set_port (unported f pos bs n) port") auto
next
  case False
  then show ?thesis using unported_ok [OF assms(1-3), of n] assms(4) by (auto simp: set_port_bad)
qed

section \<open>Properties\<close>

text \<open>
  C33: Splitting undoes joining: the text that \<open>connx_join_host_port\<close> builds from a host and a
  port, for a host name, an IPv4 address, or an IPv6 literal with or without brackets, is
  split by \<open>connx_split_host_port\<close> into the host without brackets and the decimal digits of
  the port, and they denote the port.
\<close>

theorem join_split_roundtrip:
  assumes "host_wf host" "snd (connx_join_host_port alloc host port) = Some name"
  shows "connx_split_host_port name h p = (True, bare_host host, show_int port) \<and>
    (0 \<le> port \<longrightarrow> int (read_digits (show_int port)) = port)"
  using split_joined [OF assms] by (simp add: show_int_def read_digits)

theorem join_split_roundtrip_witness:
  "connx_split_host_port (''[::1]:'' @ digits 8080) [] [] = (True, ''::1'', digits 8080)"
proof -
  have d: "length (digits 8080) = 4" by (simp add: digits.simps)
  have "snd (connx_join_host_port True ''::1'' 8080) = Some (''[::1]:'' @ digits 8080)"
    by (simp add: connx_join_host_port_def connx_format_eq show_int_def d INT_MAX_def c_str_def)
  moreover have "host_wf ''::1''" by (simp add: host_wf_def bare_host_def)
  ultimately show ?thesis
    using join_split_roundtrip [of "''::1''" True 8080 _ "[]" "[]"] by (simp add: bare_host_def show_int_def)
qed

text \<open>
  C32: Resolving asks the system for exactly the host and the port of the name, or, when that
  fails for a service name \<open>http\<close> or \<open>https\<close>, for the port number of the service. It ends with
  the addresses of the answer, all of them and in order, or with an error and no addresses,
  and never writes behind an address buffer, as long as no address of the system is longer
  than the buffer.
\<close>

theorem resolve_exact:
  assumes "\<forall>h p ais. getaddrinfo r h p = Inr ais \<longrightarrow> (\<forall>a \<in> set ais. length a \<le> 128)"
    and "\<forall>e. length (gai_strerror r e) \<le> 1000" "length name \<le> 1000" "text_alloc m"
  shows "\<exists>err addrs. connx_blocking_resolve_address r m name default_port = Some (err, addrs) \<and> (err = None) = (addrs \<noteq> None) \<and>
    (case connx_split_host_port name [] [] of (ok, host, port) \<Rightarrow>
       let port = (if port = [] then default_port else Some port)
       in (\<forall>as. addrs = Some as \<longrightarrow> host \<noteq> [] \<and>
             (\<exists>q p. port = Some q \<and> getaddrinfo r (c_str host) p = Inr (map raw_bytes as) \<and>
               (p = c_str q \<or> (q, p) \<in> set service_ports \<and> (\<exists>s. getaddrinfo r (c_str host) (c_str q) = Inl s)))) \<and>
          (\<forall>q ais. list_alloc m \<and> array_alloc m \<and> host \<noteq> [] \<and> port = Some q \<and>
             getaddrinfo r (c_str host) (c_str q) = Inr ais \<longrightarrow> addrs \<noteq> None))"
proof -
  obtain ok host port where s: "connx_split_host_port name [] [] = (ok, host, port)" by (metis prod_cases3)
  let ?port = "if port = [] then default_port else Some port"
  let ?res = "connx_blocking_resolve_address r m name default_port"
  show ?thesis
  proof (cases "host = [] \<or> ?port = None")
    case True
    then have "\<exists>st. ?res = Some (Some st, None)"
      using s assms(3,4) length_c_str [of name]
      by (auto simp: connx_blocking_resolve_address_def MakeStatusFromFormat_eq INT_MAX_def split: if_splits)
    then show ?thesis using s True by (auto simp: Let_def)
  next
    case False
    then obtain q where q: "?port = Some q" and h: "host \<noteq> []" by auto
    have l: "?res = (case lookup_host r host q of Inl e \<Rightarrow> Some (connx_getaddrinfo_error r m e, None)
       | Inr ais \<Rightarrow> if \<not> list_alloc m then Some (MakeStatusFromFormat (text_alloc m) ''malloc failed for resolved_addresses'' [], None)
           else if \<not> array_alloc m then Some (MakeStatusFromFormat (text_alloc m) ''malloc failed for resolved_address array'' [], None)
           else map_option (\<lambda>addrs. (None, Some addrs)) (those (map (copy_addr m) ais)))"
      using s q h by (auto simp: connx_blocking_resolve_address_def split: if_splits)
    show ?thesis
    proof (cases "lookup_host r host q")
      case (Inl e)
      have "length (c_str (gai_strerror r e)) \<le> 1000" using length_c_str assms(2) le_trans by blast
      then have "\<exists>st. ?res = Some (Some st, None)"
        using l Inl assms(4) by (auto simp: connx_getaddrinfo_error_def text_of_format INT_MAX_def)
      moreover have "getaddrinfo r (c_str host) (c_str q) \<noteq> Inr ais" for ais
        using Inl by (auto simp: lookup_host_def)
      ultimately show ?thesis using s q by (auto simp: Let_def)
    next
      case (Inr ais)
      obtain p where p: "getaddrinfo r (c_str host) p = Inr ais" 
        "p = c_str q \<or> (q, p) \<in> set service_ports \<and> (\<exists>s. getaddrinfo r (c_str host) (c_str q) = Inl s)"
        using lookup_host_port [OF Inr] by blast
      obtain as where as: "those (map (copy_addr m) ais) = Some as" "map raw_bytes as = ais"
        using those_copy [of ais m] assms(1) p(1) by blast
      show ?thesis
      proof (cases "list_alloc m \<and> array_alloc m")
        case True
        then have "?res = Some (None, Some as)" using l Inr as by simp
        then show ?thesis using s q h p as(2) by (auto simp: Let_def)
      next
        case False
        then have "\<exists>st. ?res = Some (Some st, None)" using l Inr assms(4) by (auto simp: MakeStatusFromFormat_eq INT_MAX_def)
        then show ?thesis using s q False by (auto simp: Let_def)
      qed
    qed
  qed
qed

definition sample_resolver :: resolver where
  "sample_resolver = \<lparr>getaddrinfo = (\<lambda>h p. if h = ''localhost'' \<and> p = ''80'' then Inr [[2, 0, 0, 80, 127, 0, 0, 1]] else Inl (- 2)),
     gai_strerror = (\<lambda>_. ''Name or service not known'')\<rparr>"

definition sample_memory :: resolve_memory where
  "sample_memory = \<lparr>text_alloc = True, list_alloc = True, array_alloc = True, fresh = (\<lambda>_. 0)\<rparr>"

theorem resolve_exact_witness:
  "\<exists>err addrs. connx_blocking_resolve_address sample_resolver sample_memory ''localhost:80'' None = Some (err, addrs) \<and> addrs \<noteq> None"
proof -
  have sp: "connx_split_host_port ''localhost:80'' [] [] = (True, ''localhost'', ''80'')"
    using split_plain [of "''localhost''" "''80''" "[]" "[]"] by simp
  have "\<forall>h p ais. getaddrinfo sample_resolver h p = Inr ais \<longrightarrow> (\<forall>a \<in> set ais. length a \<le> 128)"
    by (auto simp: sample_resolver_def)
  moreover have "getaddrinfo sample_resolver (c_str ''localhost'') (c_str ''80'') = Inr [[2, 0, 0, 80, 127, 0, 0, 1]]"
    by (simp add: sample_resolver_def c_str_def)
  ultimately show ?thesis
    using resolve_exact [of sample_resolver "''localhost:80''" sample_memory None]
    by (simp add: sp Let_def) (auto simp: sample_resolver_def sample_memory_def)
qed

text \<open>
  A parsed address carries what was parsed: \<open>connx_string_to_sockaddr\<close> yields an IPv6
  address if the system reads the text as one, and otherwise an IPv4 address, of the length
  of its structure and holding the bytes that were read; \<open>connx_sockaddr_get_port\<close> gives back
  the port that was set, by this call or by a later \<open>connx_sockaddr_set_port\<close>; a port outside
  the 16 bits is not stored and leaves port 0.
\<close>

lemma sockaddr_roundtrip:
  assumes "\<forall>s b. pton6 I s = Some b \<longrightarrow> length b = 16" "\<forall>s b. pton4 I s = Some b \<longrightarrow> length b = 4"
    and "connx_string_to_sockaddr I s port = Some a"
  shows "connx_sockaddr_get_port a = (if 0 \<le> port \<and> port < 65536 then port else 0) \<and>
    (case pton6 I s of
       Some b \<Rightarrow> sa_family a = AF_INET6 \<and> ra_len a = 28 \<and> get_bytes 8 16 (ra_addr a) = b
     | None \<Rightarrow> sa_family a = AF_INET \<and> ra_len a = 16 \<and> pton4 I s = Some (get_bytes 4 4 (ra_addr a))) \<and>
    (\<forall>p. 0 \<le> p \<and> p < 65536 \<longrightarrow> fst (connx_sockaddr_set_port a p) = 1 \<and>
       connx_sockaddr_get_port (snd (connx_sockaddr_set_port a p)) = p)"
proof -
  have *: "inet_family a \<and> connx_sockaddr_get_port a = (if 0 \<le> port \<and> port < 65536 then port else 0) \<and>
    (case pton6 I s of
       Some b \<Rightarrow> sa_family a = AF_INET6 \<and> ra_len a = 28 \<and> get_bytes 8 16 (ra_addr a) = b
     | None \<Rightarrow> sa_family a = AF_INET \<and> ra_len a = 16 \<and> pton4 I s = Some (get_bytes 4 4 (ra_addr a)))"
  proof (cases "pton6 I s")
    case None
    then obtain b where "pton4 I s = Some b" "a = snd (connx_sockaddr_set_port (unported AF_INET 4 b 16) port)"
      using assms(3) by (auto simp: string_to_sockaddr_eq)
    then show ?thesis using None ported_ok [of AF_INET 4 b a 16 port] assms(2) by simp
  next
    case (Some b)
    then show ?thesis using ported_ok [of AF_INET6 8 b a 28 port] assms(1,3) by (simp add: string_to_sockaddr_eq)
  qed
  have "fst (connx_sockaddr_set_port a p) = 1 \<and> connx_sockaddr_get_port (snd (connx_sockaddr_set_port a p)) = p"
    if "0 \<le> p \<and> p < 65536" for p
    using set_port_ok [of a p] * that by (cases "connx_sockaddr_set_port a p") auto
  with * show ?thesis by blast
qed

definition sample_inet :: inet where
  "sample_inet = \<lparr>pton6 = (\<lambda>s. if s = ''::1'' then Some (replicate 15 0 @ [1]) else None),
     pton4 = (\<lambda>s. if s = ''127.0.0.1'' then Some [127, 0, 0, 1] else None)\<rparr>"

lemma sockaddr_roundtrip_example:
  "\<exists>a. connx_string_to_sockaddr sample_inet ''127.0.0.1'' 8080 = Some a \<and> connx_sockaddr_get_port a = 8080 \<and>
     get_bytes 4 4 (ra_addr a) = [127, 0, 0, 1]"
proof -
  obtain a where a: "connx_string_to_sockaddr sample_inet ''127.0.0.1'' 8080 = Some a"
    by (simp add: connx_string_to_sockaddr_def sample_inet_def)
  have "\<forall>s b. pton6 sample_inet s = Some b \<longrightarrow> length b = 16" "\<forall>s b. pton4 sample_inet s = Some b \<longrightarrow> length b = 4"
    by (simp_all add: sample_inet_def)
  from sockaddr_roundtrip [OF this a] show ?thesis using a by (simp add: sample_inet_def)
qed

end
