(* ===== verification/Client_Api.thy ===== *)
theory Client_Api
  imports Runtime Host_Ports
begin

text \<open>
  The client of the C++ interface (src/net/clientimpl.cc, src/bridge/client.cc,
  include/connx/client.h) on top of the connection and the runtime: its metrics, its
  lifecycle with the counted library initialisation, and connecting to a host and port,
  which joins the text, splits it again, resolves it and hands the first address to the
  connection. The resolver of the system and the allocations of a call are arguments.
\<close>

section \<open>Metrics and the end of a connection\<close>

datatype ConnectionState = kStateDisconnected | kStateConnected

record Metrics =
  m_state :: ConnectionState
  m_bytes_sent :: u64
  m_bytes_received :: u64
  m_pending_bytes :: u64

definition Metrics_new :: Metrics where
  "Metrics_new = \<lparr>m_state = kStateDisconnected, m_bytes_sent = 0, m_bytes_received = 0, m_pending_bytes = 0\<rparr>"

definition ClientConnection_GetMetrics :: "ClientConnection \<Rightarrow> Metrics" where
  "ClientConnection_GetMetrics c =
     \<lparr>m_state = (if IsConnected c then kStateConnected else kStateDisconnected),
      m_bytes_sent = bytes_sent c, m_bytes_received = bytes_received c, m_pending_bytes = pending_bytes c\<rparr>"

text \<open>The destructor; the codec is deleted with the connection.\<close>

definition ClientConnection_destroy :: "ClientConnection \<Rightarrow> ClientConnection" where
  "ClientConnection_destroy c =
     (let c = (if valid (conn_id c)
               then c\<lparr>rt := (Poller_Remove (fd c) (rt c))\<lparr>connections := Unregister (conn_id c) (connections (rt c))\<rparr>,
                      conn_id := ConnectionId_none\<rparr>
               else c);
          c = CloseFd c
      in c\<lparr>opts := (opts c)\<lparr>codec := None\<rparr>\<rparr>)"

section \<open>The client implementation\<close>

record ClientImpl =
  im_opts :: ClientOptions
  im_handler :: bool
  im_connection :: "ClientConnection option"

definition TcpOptions_new :: TcpOptions where
  "TcpOptions_new = \<lparr>tcp_nodelay = 1, tcp_quickack = 0, send_buffer_size = 0, recv_buffer_size = 0, linger_sec = - 1,
     connect_timeout_ms = 0\<rparr>"

definition ClientOptions_new :: ClientOptions where
  "ClientOptions_new = \<lparr>codec = None, tcp = TcpOptions_new, local_address = None\<rparr>"

definition ClientImpl_new :: ClientImpl where
  "ClientImpl_new = \<lparr>im_opts = ClientOptions_new, im_handler = False, im_connection = None\<rparr>"

definition SetOptions :: "ClientOptions \<Rightarrow> ClientImpl \<Rightarrow> ClientImpl" where
  "SetOptions copts im = im\<lparr>im_opts := copts\<rparr>"

text \<open>The new connection is number \<open>me\<close> of the connections, in a runtime whose state is \<open>n\<close>.\<close>

definition ClientImpl_Start :: "nat \<Rightarrow> net \<Rightarrow> bool \<Rightarrow> ClientImpl \<Rightarrow> ClientImpl" where
  "ClientImpl_Start me n handler im =
     (let im = im\<lparr>im_handler := handler\<rparr>
      in case im_connection im of
           Some c \<Rightarrow> im
         | None \<Rightarrow> im\<lparr>im_connection := Some (ClientConnection_new me (im_handler im) (im_opts im) n),
                      im_opts := (im_opts im)\<lparr>codec := None\<rparr>\<rparr>)"

definition CloseFromOwner :: "bool \<Rightarrow> ClientConnection \<Rightarrow> ClientConnection" where
  "CloseFromOwner in_callback c = (if in_callback then CloseFromOwner_draining c else CloseFromOwner_other c)"

text \<open>The connection that \<open>Stop\<close> lets go is kept by its drain job until that has run; it is the first result.\<close>

definition ClientImpl_Stop :: "bool \<Rightarrow> ClientImpl \<Rightarrow> ClientConnection option \<times> ClientImpl" where
  "ClientImpl_Stop in_callback im =
     (case im_connection im of
        None \<Rightarrow> (None, im)
      | Some c \<Rightarrow> (Some (CloseFromOwner in_callback c), im\<lparr>im_connection := None\<rparr>))"

definition ClientImpl_Connect ::
  "string option \<Rightarrow> string option \<times> raw_addr list option \<Rightarrow> ClientImpl \<Rightarrow> bool \<times> ClientImpl" where
  "ClientImpl_Connect hosts answer im =
     (case im_connection im of
        None \<Rightarrow> (False, im)
      | Some c \<Rightarrow>
          if hosts = None then (False, im)
          else case Connect hosts answer c of (ok, c) \<Rightarrow> (ok, im\<lparr>im_connection := Some c\<rparr>))"

definition ClientImpl_Disconnect :: "ClientImpl \<Rightarrow> ClientImpl" where
  "ClientImpl_Disconnect im =
     (case im_connection im of None \<Rightarrow> im | Some c \<Rightarrow> im\<lparr>im_connection := Some (Disconnect c)\<rparr>)"

definition ClientImpl_SendMsg :: "byte list \<Rightarrow> ClientImpl \<Rightarrow> bool \<times> ClientImpl" where
  "ClientImpl_SendMsg msg im =
     (case im_connection im of
        None \<Rightarrow> (False, im)
      | Some c \<Rightarrow>
          if msg = [] then (False, im)
          else case ClientConnection_SendBuffer (Some msg) c of (ok, c) \<Rightarrow> (ok, im\<lparr>im_connection := Some c\<rparr>))"

definition ClientImpl_IsConnected :: "ClientImpl \<Rightarrow> bool" where
  "ClientImpl_IsConnected im \<longleftrightarrow> (case im_connection im of None \<Rightarrow> False | Some c \<Rightarrow> IsConnected c)"

definition ClientImpl_IsConnecting :: "ClientImpl \<Rightarrow> bool" where
  "ClientImpl_IsConnecting im \<longleftrightarrow> (case im_connection im of None \<Rightarrow> False | Some c \<Rightarrow> IsConnecting c)"

definition ClientImpl_GetMetrics :: "ClientImpl \<Rightarrow> Metrics" where
  "ClientImpl_GetMetrics im =
     (case im_connection im of None \<Rightarrow> Metrics_new | Some c \<Rightarrow> ClientConnection_GetMetrics c)"

section \<open>The adaptor\<close>

record ClientAdaptor =
  library_init_called :: bool
  ad_impl :: "ClientImpl option"

definition ClientAdaptor_new :: "start_answers \<Rightarrow> library \<Rightarrow> ClientAdaptor \<times> library" where
  "ClientAdaptor_new a l =
     (case LibraryInitService_new True a l of (init_called, l) \<Rightarrow>
        (\<lparr>library_init_called = init_called, ad_impl = (if init_called then Some ClientImpl_new else None)\<rparr>, l))"

definition ad_initialized :: "ClientAdaptor \<Rightarrow> bool" where
  "ad_initialized ad \<longleftrightarrow> ad_impl ad \<noteq> None"

text \<open>The destructor: stopping the implementation, then, with the member \<open>library_\<close>, the library.\<close>

definition ClientAdaptor_destroy :: "bool \<Rightarrow> ClientAdaptor \<Rightarrow> library \<Rightarrow> ClientConnection option \<times> library" where
  "ClientAdaptor_destroy in_callback ad l =
     (let released = (case ad_impl ad of None \<Rightarrow> None | Some im \<Rightarrow> fst (ClientImpl_Stop in_callback im))
      in (released, LibraryInitService_destroy (library_init_called ad) l))"

text \<open>A call on the implementation, which every client that is handed out has.\<close>

definition on_impl :: "(ClientImpl \<Rightarrow> 'r \<times> ClientImpl) \<Rightarrow> 'r \<Rightarrow> ClientAdaptor \<Rightarrow> 'r \<times> ClientAdaptor" where
  "on_impl f none ad =
     (case ad_impl ad of None \<Rightarrow> (none, ad) | Some im \<Rightarrow> (case f im of (r, im) \<Rightarrow> (r, ad\<lparr>ad_impl := Some im\<rparr>)))"

definition ClientAdaptor_Init :: "nat \<Rightarrow> net \<Rightarrow> bool \<Rightarrow> ClientOptions \<Rightarrow> ClientAdaptor \<Rightarrow> ClientAdaptor" where
  "ClientAdaptor_Init me n handler copts ad =
     snd (on_impl (\<lambda>im. ((), ClientImpl_Start me n handler (SetOptions copts im))) () ad)"

text \<open>What the connection sees of the resolver's answer: the text of the error and the addresses.\<close>

definition resolve_answer :: "resolver \<Rightarrow> resolve_memory \<Rightarrow> string \<Rightarrow> string option \<times> raw_addr list option" where
  "resolve_answer R m hosts =
     (case connx_blocking_resolve_address R m hosts None of
        None \<Rightarrow> (None, None)
      | Some (err, addrs) \<Rightarrow> (map_option (ToString (text_alloc m)) err, map_option (map raw_bytes) addrs))"

definition ClientAdaptor_Connect :: "resolver \<Rightarrow> resolve_memory \<Rightarrow> string option \<Rightarrow> ClientAdaptor \<Rightarrow> bool \<times> ClientAdaptor" where
  "ClientAdaptor_Connect R m hosts ad =
     (case hosts of
        None \<Rightarrow> (False, ad)
      | Some h \<Rightarrow> on_impl (ClientImpl_Connect (Some h) (resolve_answer R m h)) False ad)"

definition ClientAdaptor_Connect_ip_port ::
  "resolver \<Rightarrow> resolve_memory \<Rightarrow> bool \<Rightarrow> string option \<Rightarrow> int \<Rightarrow> ClientAdaptor \<Rightarrow> bool \<times> ClientAdaptor" where
  "ClientAdaptor_Connect_ip_port R m alloc ip port ad =
     (case ip of
        None \<Rightarrow> (False, ad)
      | Some ip \<Rightarrow>
          if port \<le> 0 \<or> port > 65535 then (False, ad)
          else case snd (connx_join_host_port alloc ip port) of
                 None \<Rightarrow> (False, ad)
               | Some addr \<Rightarrow> on_impl (ClientImpl_Connect (Some addr) (resolve_answer R m addr)) False ad)"

definition ClientAdaptor_Disconnect :: "ClientAdaptor \<Rightarrow> ClientAdaptor" where
  "ClientAdaptor_Disconnect ad = snd (on_impl (\<lambda>im. ((), ClientImpl_Disconnect im)) () ad)"

definition ClientAdaptor_IsConnected :: "ClientAdaptor \<Rightarrow> bool" where
  "ClientAdaptor_IsConnected ad = (case ad_impl ad of None \<Rightarrow> False | Some im \<Rightarrow> ClientImpl_IsConnected im)"

definition ClientAdaptor_SendBuffer :: "byte list option \<Rightarrow> ClientAdaptor \<Rightarrow> bool \<times> ClientAdaptor" where
  "ClientAdaptor_SendBuffer data ad =
     (case data of
        None \<Rightarrow> (False, ad)
      | Some bs \<Rightarrow> if bs = [] then (False, ad) else on_impl (ClientImpl_SendMsg bs) False ad)"

definition ClientAdaptor_GetMetrics :: "ClientAdaptor \<Rightarrow> Metrics" where
  "ClientAdaptor_GetMetrics ad = (case ad_impl ad of None \<Rightarrow> Metrics_new | Some im \<Rightarrow> ClientImpl_GetMetrics im)"

section \<open>Creating and releasing clients\<close>

text \<open>A client that fails to initialise the library is deleted again at once.\<close>

definition CreateClient :: "start_answers \<Rightarrow> nat \<Rightarrow> net \<Rightarrow> bool \<Rightarrow> ClientOptions \<Rightarrow> library \<Rightarrow> ClientAdaptor option \<times> library" where
  "CreateClient a me n handler copts l =
     (if \<not> handler \<or> codec copts = None then (None, l)
      else case ClientAdaptor_new a l of (p, l) \<Rightarrow>
             if \<not> ad_initialized p then (None, snd (ClientAdaptor_destroy False p l))
             else (Some (ClientAdaptor_Init me n handler copts p), l))"

definition ReleaseClient :: "bool \<Rightarrow> ClientAdaptor option \<Rightarrow> library \<Rightarrow> ClientConnection option \<times> library" where
  "ReleaseClient in_callback cli l =
     (case cli of None \<Rightarrow> (None, l) | Some ad \<Rightarrow> ClientAdaptor_destroy in_callback ad l)"

section \<open>Facts\<close>

lemma LibraryInit_count:
  assumes "library_ok l" "LibraryInit a l = (ok, l')"
  shows "library_ok l' \<and> initializations l' = initializations l + (if ok then 1 else 0)"
proof -
  have "library_ok (snd (LibraryInit a l))" using library_ok_step [OF assms(1), of "OpInit a"] by simp
  then show ?thesis using assms(2) by (auto simp: LibraryInit_def Let_def split: prod.splits option.splits if_splits)
qed

lemma LibraryShutdown_count:
  assumes "library_ok l" "0 < initializations l"
  shows "library_ok (LibraryShutdown l) \<and> initializations (LibraryShutdown l) = initializations l - 1"
  using library_ok_step [OF assms(1), of OpShutdown] assms(2) by (simp add: LibraryShutdown_def Let_def)

lemma digits_no_service: "(digits n, p) \<notin> set service_ports"
proof
  assume "(digits n, p) \<in> set service_ports"
  then have "CHR ''h'' \<in> set (digits n)" by (auto simp: service_ports_def)
  then show False using digits_range by fastforce
qed

lemma Connect_accepted:
  assumes "Connect (Some h) (err, addrs) c = (True, c')"
  shows "state c = kIdle \<and> err = None \<and> (\<exists>addr more. addrs = Some (addr # more) \<and>
    c' = Post (TaskConnectResolved addr) (c\<lparr>state := kConnecting, connected := False,
           g_race := g_race c \<or> TaskDisconnect \<in> set (task_queue c)\<rparr>))"
  using assms by (auto simp: Connect_def Let_def split: if_splits option.splits list.splits)

section \<open>Properties\<close>

text \<open>
  C30: Connecting to an address and port reaches that address and port: when the call
  succeeds, the port is between 1 and 65535, the system was asked for exactly this host,
  without the brackets of an IPv6 literal, and the decimal digits of this port, and the
  connection, which was idle, is connecting with a task for the first address of the answer.
\<close>

theorem connect_ip_port_target:
  assumes "host_wf ip" "ClientAdaptor_Connect_ip_port R m alloc (Some ip) port ad = (True, ad')"
  shows "\<exists>im c addr more. ad_impl ad = Some im \<and> im_connection im = Some c \<and> state c = kIdle \<and> 0 < port \<and> port \<le> 65535 \<and>
    getaddrinfo R (bare_host ip) (digits (nat port)) = Inr (addr # more) \<and>
    ad_impl ad' = Some (im\<lparr>im_connection := Some (Post (TaskConnectResolved addr)
      (c\<lparr>state := kConnecting, connected := False, g_race := g_race c \<or> TaskDisconnect \<in> set (task_queue c)\<rparr>))\<rparr>)"
proof -
  obtain name where p: "0 < port" "port \<le> 65535" and name: "snd (connx_join_host_port alloc ip port) = Some name"
    and on: "on_impl (ClientImpl_Connect (Some name) (resolve_answer R m name)) False ad = (True, ad')"
    using assms(2) by (auto simp: ClientAdaptor_Connect_ip_port_def split: if_splits option.splits)
  obtain im c c' where im: "ad_impl ad = Some im" "im_connection im = Some c"
    and con: "Connect (Some name) (resolve_answer R m name) c = (True, c')"
    and ad': "ad_impl ad' = Some (im\<lparr>im_connection := Some c'\<rparr>)"
    using on by (auto simp: on_impl_def ClientImpl_Connect_def split: option.splits prod.splits)
  obtain err addrs where ans: "resolve_answer R m name = (err, addrs)" by fastforce
  note acc = Connect_accepted [OF con [unfolded ans]]
  then obtain addr more where addr: "addrs = Some (addr # more)" by blast
  obtain e as where r: "connx_blocking_resolve_address R m name None = Some (e, Some as)" "map raw_bytes as = addr # more"
    using ans addr by (auto simp: resolve_answer_def split: option.splits)
  have sp: "connx_split_host_port name [] [] = (True, bare_host ip, show_int port)" by (rule split_joined [OF assms(1) name])
  have lk: "lookup_host R (bare_host ip) (digits (nat port)) = Inr (addr # more)"
    using resolve_addresses [OF r(1) sp] r(2) p by (simp add: show_int_def)
  have "CHR 0x00 \<notin> set (bare_host ip)" using assms(1) set_bare_host by (auto simp: host_wf_def)
  then have "getaddrinfo R (bare_host ip) (digits (nat port)) = Inr (addr # more)"
    using lookup_host_port [OF lk] digits_no_service by auto
  then show ?thesis using im p acc addr ad' by auto
qed

lemma sample_digits: "digits 80 = ''80''"
  by (simp add: digits.simps digit_def) code_simp

definition client_net :: net where
  "client_net = \<lparr>connections = ConnectionTable_new, timers = [], poll_regs = (\<lambda>_. None), wakes = 0, now_ms = 0,
     open_fds = [], os_socket = [], os_option = [], os_connect = [], os_soerror = [], os_poller = [], os_recv = [], os_send = []\<rparr>"

definition client_options :: ClientOptions where
  "client_options = ClientOptions_new\<lparr>codec := Some (Delimiter \<lparr>delimiter = 10\<rparr>)\<rparr>"

definition sample_client :: ClientAdaptor where
  "sample_client = ClientAdaptor_Init 0 client_net True client_options \<lparr>library_init_called = True, ad_impl = Some ClientImpl_new\<rparr>"

theorem connect_ip_port_target_witness:
  "\<exists>addr more. getaddrinfo sample_resolver (bare_host ''localhost'') (digits (nat 80)) = Inr (addr # more)"
proof -
  have j: "snd (connx_join_host_port True ''localhost'' 80) = Some ''localhost:80''"
    by (simp add: connx_join_host_port_def connx_format_eq show_int_def sample_digits INT_MAX_def c_str_def)
  have "connx_split_host_port ''localhost:80'' [] [] = (True, ''localhost'', ''80'')"
    using split_plain [of "''localhost''" "''80''" "[]" "[]"] by simp
  moreover have "getaddrinfo sample_resolver (c_str ''localhost'') (c_str ''80'') = Inr [[2, 0, 0, 80, 127, 0, 0, 1]]"
    by (simp add: sample_resolver_def)
  moreover obtain as where "those (map (copy_addr sample_memory) [[2, 0, 0, 80, 127, 0, 0, 1]]) = Some as"
    "map raw_bytes as = [[2, 0, 0, 80, 127, 0, 0, 1]]"
    using those_copy [of "[[2, 0, 0, 80, 127, 0, 0, 1]]" sample_memory] by auto
  ultimately have r: "resolve_answer sample_resolver sample_memory ''localhost:80'' = (None, Some [[2, 0, 0, 80, 127, 0, 0, 1]])"
    by (simp add: resolve_answer_def connx_blocking_resolve_address_def lookup_host_def sample_memory_def)
  have "fst (ClientAdaptor_Connect_ip_port sample_resolver sample_memory True (Some ''localhost'') 80 sample_client) = True"
    by (simp add: ClientAdaptor_Connect_ip_port_def j r sample_client_def ClientAdaptor_Init_def on_impl_def ClientImpl_Connect_def
        ClientImpl_Start_def SetOptions_def ClientImpl_new_def Connect_def ClientConnection_new_def Let_def)
  then obtain ad' where "ClientAdaptor_Connect_ip_port sample_resolver sample_memory True (Some ''localhost'') 80 sample_client = (True, ad')"
    by (metis prod.collapse)
  moreover have "host_wf ''localhost''" by (simp add: host_wf_def bare_host_def)
  ultimately show ?thesis using connect_ip_port_target [of "''localhost''"] by blast
qed

text \<open>
  Clients keep the library running: a client that is created holds one initialisation of
  the library, whose runtime runs, and has a new idle connection with the handler and the
  options that were given; when creation fails, because the handler or the codec is missing
  or the runtime cannot start, the library is as initialised as before. Releasing the client
  gives the initialisation back, and stops the runtime exactly when it was the last one.
\<close>

lemma client_lifecycle:
  assumes "library_ok l" "CreateClient a me n handler copts l = (cli, l')"
  shows "library_ok l' \<and>
    (case cli of
       None \<Rightarrow> initializations l' = initializations l
     | Some ad \<Rightarrow> handler \<and> codec copts \<noteq> None \<and> initializations l' = initializations l + 1 \<and> rt_running (runtime l') \<and>
         (\<exists>im. ad_impl ad = Some im \<and> im_connection im = Some (ClientConnection_new me True copts n) \<and> codec (im_opts im) = None) \<and>
         (let (released, l'') = ReleaseClient cb (Some ad) l'
          in released = Some (CloseFromOwner cb (ClientConnection_new me True copts n)) \<and> library_ok l'' \<and>
             initializations l'' = initializations l \<and> (rt_running (runtime l'') \<longleftrightarrow> 0 < initializations l)))"
proof (cases "handler \<and> codec copts \<noteq> None")
  case False
  then show ?thesis using assms by (auto simp: CreateClient_def)
next
  case True
  obtain ok l1 where i: "LibraryInit a l = (ok, l1)" by fastforce
  note c = LibraryInit_count [OF assms(1) i]
  show ?thesis
  proof (cases ok)
    case False
    then show ?thesis
      using True assms(2) i c
      by (auto simp: CreateClient_def ClientAdaptor_new_def LibraryInitService_new_def ad_initialized_def ClientAdaptor_destroy_def
          LibraryInitService_destroy_def)
  next
    case okay: True
    let ?c = "ClientConnection_new me True copts n"
    let ?ad = "\<lparr>library_init_called = True, ad_impl = Some \<lparr>im_opts = copts\<lparr>codec := None\<rparr>, im_handler = True, im_connection = Some ?c\<rparr>\<rparr>"
    have "cli = Some ?ad" "l' = l1"
      using True okay assms(2) i
      by (auto simp: CreateClient_def ClientAdaptor_new_def LibraryInitService_new_def ad_initialized_def ClientAdaptor_Init_def on_impl_def
          SetOptions_def ClientImpl_Start_def ClientImpl_new_def Let_def)
    moreover have "0 \<le> initializations l" using assms(1) by (simp add: library_ok_def)
    moreover have "0 < initializations l1" using c okay calculation(3) by simp
    moreover have "ReleaseClient cb (Some ?ad) l1 = (Some (CloseFromOwner cb ?c), LibraryShutdown l1)"
      by (simp add: ReleaseClient_def ClientAdaptor_destroy_def ClientImpl_Stop_def LibraryInitService_destroy_def)
    ultimately show ?thesis
      using LibraryShutdown_count [of l1] c okay True by (auto simp: library_ok_def)
  qed
qed

lemma client_lifecycle_example:
  "\<exists>ad l. CreateClient sample_answers 0 client_net True client_options library_new = (Some ad, l) \<and>
     initializations l = 1 \<and> rt_running (runtime l) \<and> \<not> rt_running (runtime (snd (ReleaseClient False (Some ad) l)))"
proof -
  have "fst (LibraryInit sample_answers library_new)"
    by (simp add: LibraryInit_def library_new_def GlobalRuntime_Start_def GlobalRuntime_new_def sample_answers_def
        Start_def WorkerPool_new_def list_all_iff Let_def)
  then have "fst (CreateClient sample_answers 0 client_net True client_options library_new) \<noteq> None"
    by (auto simp: CreateClient_def client_options_def ClientAdaptor_new_def LibraryInitService_new_def ad_initialized_def split: prod.splits)
  then obtain ad l where c: "CreateClient sample_answers 0 client_net True client_options library_new = (Some ad, l)"
    by (metis option.exhaust prod.collapse)
  from client_lifecycle [OF library_ok_new c, of False] c show ?thesis by (simp add: library_new_def Let_def split: prod.splits)
qed

end
