(* ===== verification/C_Interface.thy ===== *)
theory C_Interface
  imports Client_Api
begin

text \<open>
  The C interface (src/bridge/c.cc, include/connx/c.h): handlers, codecs, options and clients
  as objects on a heap, with the pointers between them, so that who owns a codec or a copied
  text, and what is freed when, can be stated. A handle is the number of an object, or \<open>None\<close>
  for a null pointer. A call on a freed object, and freeing twice, are faults; so is the
  abort of a failed assertion or allocation. Calls come from outside the callbacks; what the
  application calls from inside its callbacks is part of the connection model, and so are
  the threads of the library, which act on a connection between the calls.
\<close>

section \<open>Objects\<close>

datatype api_fault = Use_freed | Free_freed | Aborts

text \<open>Which callbacks of a handler are not null.\<close>

record connx_client_handler =
  has_on_connected :: bool
  has_on_connect_failed :: bool
  has_on_closed :: bool
  has_on_message :: bool

fun handler_forwards :: "connx_client_handler \<Rightarrow> callback \<Rightarrow> bool" where
  "handler_forwards h OnConnected \<longleftrightarrow> has_on_connected h"
| "handler_forwards h (OnConnectFailed reason) \<longleftrightarrow> has_on_connect_failed h"
| "handler_forwards h OnClosed \<longleftrightarrow> has_on_closed h"
| "handler_forwards h (OnMessage data) \<longleftrightarrow> has_on_message h"

record connx_client_options =
  o_codec :: "nat option"
  o_tcp :: TcpOptions
  o_local_address :: "nat option"
  local_address_copy :: "nat option"

text \<open>
  A client with its implementation. \<open>cl_codec\<close> and \<open>cl_local_address\<close> are the pointers \<open>opts_.codec\<close> and
  \<open>opts_.local_address\<close> of its connection.
\<close>

record connx_client =
  cl_impl :: ClientAdaptor
  cl_handler :: nat
  cl_codec :: "nat option"
  cl_local_address :: "nat option"

record released =
  re_connection :: ClientConnection
  re_codec :: "nat option"

record c_api =
  h_next :: nat
  h_codecs :: "nat \<Rightarrow> Codec option"
  h_strings :: "nat \<Rightarrow> string option"
  h_wrappers :: "nat \<Rightarrow> nat option option"
  h_options :: "nat \<Rightarrow> connx_client_options option"
  h_handlers :: "nat \<Rightarrow> connx_client_handler option"
  h_clients :: "nat \<Rightarrow> connx_client option"
  h_released :: "nat \<Rightarrow> released option"
  h_library :: library

definition c_api_new :: c_api where
  "c_api_new = \<lparr>h_next = 0, h_codecs = (\<lambda>_. None), h_strings = (\<lambda>_. None), h_wrappers = (\<lambda>_. None), h_options = (\<lambda>_. None),
     h_handlers = (\<lambda>_. None), h_clients = (\<lambda>_. None), h_released = (\<lambda>_. None), h_library = library_new\<rparr>"

definition deref :: "(nat \<Rightarrow> 'a option) \<Rightarrow> nat \<Rightarrow> api_fault + 'a" where
  "deref f p = (case f p of None \<Rightarrow> Inl Use_freed | Some x \<Rightarrow> Inr x)"

definition delete_codec :: "nat option \<Rightarrow> c_api \<Rightarrow> api_fault + c_api" where
  "delete_codec cod s =
     (case cod of
        None \<Rightarrow> Inr s
      | Some p \<Rightarrow> (case h_codecs s p of None \<Rightarrow> Inl Free_freed | Some c \<Rightarrow> Inr (s\<lparr>h_codecs := (h_codecs s)(p := None)\<rparr>)))"

definition free_string :: "nat option \<Rightarrow> c_api \<Rightarrow> api_fault + c_api" where
  "free_string text s =
     (case text of
        None \<Rightarrow> Inr s
      | Some p \<Rightarrow> (case h_strings s p of None \<Rightarrow> Inl Free_freed | Some t \<Rightarrow> Inr (s\<lparr>h_strings := (h_strings s)(p := None)\<rparr>)))"

section \<open>Handlers and codecs\<close>

definition connx_client_handler_new :: "connx_client_handler \<Rightarrow> c_api \<Rightarrow> nat \<times> c_api" where
  "connx_client_handler_new h s =
     (h_next s, s\<lparr>h_next := h_next s + 1, h_handlers := (h_handlers s)(h_next s \<mapsto> h)\<rparr>)"

definition connx_client_handler_destroy :: "nat option \<Rightarrow> c_api \<Rightarrow> api_fault + c_api" where
  "connx_client_handler_destroy handler s =
     (case handler of
        None \<Rightarrow> Inr s
      | Some h \<Rightarrow> try_bind (deref (h_handlers s) h) (\<lambda>_. Inr (s\<lparr>h_handlers := (h_handlers s)(h := None)\<rparr>)))"

definition new_codec :: "Codec \<Rightarrow> c_api \<Rightarrow> nat option \<times> c_api" where
  "new_codec c s =
     (let w = h_next s; p = h_next s + 1
      in (Some w, s\<lparr>h_next := h_next s + 2, h_codecs := (h_codecs s)(p \<mapsto> c), h_wrappers := (h_wrappers s)(w \<mapsto> Some p)\<rparr>))"

definition connx_codec_new_delimiter :: "byte \<Rightarrow> c_api \<Rightarrow> nat option \<times> c_api" where
  "connx_codec_new_delimiter d s = new_codec (Delimiter \<lparr>delimiter = d\<rparr>) s"

definition connx_codec_new_fixed_length :: "nat \<Rightarrow> c_api \<Rightarrow> nat option \<times> c_api" where
  "connx_codec_new_fixed_length frame_length s = new_codec (FixedLength (FixedLengthCodec_new frame_length)) s"

definition connx_codec_new_length_field :: "u32 \<Rightarrow> u32 \<Rightarrow> u32 \<Rightarrow> u32 \<Rightarrow> c_api \<Rightarrow> api_fault + (nat option \<times> c_api)" where
  "connx_codec_new_length_field off len hdr n2h s =
     (case LengthFieldCodec_new off len hdr (n2h \<noteq> 0) of
        None \<Rightarrow> Inl Aborts
      | Some c \<Rightarrow> Inr (new_codec (LengthField c) s))"

definition connx_codec_new_callback :: "(byte list \<Rightarrow> DecodeResult \<times> nat) option \<Rightarrow> c_api \<Rightarrow> nat option \<times> c_api" where
  "connx_codec_new_callback callback s =
     (if callback = None then (None, s) else new_codec (Callback callback) s)"

definition connx_codec_destroy :: "nat option \<Rightarrow> c_api \<Rightarrow> api_fault + c_api" where
  "connx_codec_destroy cod s =
     (case cod of
        None \<Rightarrow> Inr s
      | Some w \<Rightarrow>
          try_bind (deref (h_wrappers s) w) (\<lambda>cp.
            try_bind (delete_codec cp s) (\<lambda>s.
              Inr (s\<lparr>h_wrappers := (h_wrappers s)(w := None)\<rparr>))))"

section \<open>Options\<close>

definition connx_client_options_new :: "c_api \<Rightarrow> nat \<times> c_api" where
  "connx_client_options_new s =
     (h_next s, s\<lparr>h_next := h_next s + 1, h_options := (h_options s)(h_next s \<mapsto>
        \<lparr>o_codec = None, o_tcp = TcpOptions_new, o_local_address = None, local_address_copy = None\<rparr>)\<rparr>)"

definition connx_client_options_destroy :: "nat option \<Rightarrow> c_api \<Rightarrow> api_fault + c_api" where
  "connx_client_options_destroy options s =
     (case options of
        None \<Rightarrow> Inr s
      | Some i \<Rightarrow>
          try_bind (deref (h_options s) i) (\<lambda>x.
            try_bind (free_string (local_address_copy x) s) (\<lambda>s.
              try_bind (delete_codec (o_codec x) s) (\<lambda>s.
                Inr (s\<lparr>h_options := (h_options s)(i := None)\<rparr>)))))"

definition connx_client_options_set_codec :: "nat option \<Rightarrow> nat option \<Rightarrow> c_api \<Rightarrow> api_fault + c_api" where
  "connx_client_options_set_codec options cod s =
     (case (options, cod) of
        (Some i, Some w) \<Rightarrow>
          try_bind (deref (h_options s) i) (\<lambda>x.
            try_bind (deref (h_wrappers s) w) (\<lambda>cp.
              try_bind (delete_codec (o_codec x) s) (\<lambda>s.
                Inr (s\<lparr>h_options := (h_options s)(i \<mapsto> x\<lparr>o_codec := cp\<rparr>),
                       h_wrappers := (h_wrappers s)(w \<mapsto> None)\<rparr>))))
      | _ \<Rightarrow> Inr s)"

definition connx_client_options_set_local_address ::
  "nat \<Rightarrow> bool \<Rightarrow> nat option \<Rightarrow> string option \<Rightarrow> c_api \<Rightarrow> api_fault + c_api" where
  "connx_client_options_set_local_address sm alloc options addr s =
     (case options of
        None \<Rightarrow> Inr s
      | Some i \<Rightarrow>
          try_bind (deref (h_options s) i) (\<lambda>x.
            try_bind (free_string (local_address_copy x) s) (\<lambda>s.
              case addr of
                None \<Rightarrow> Inr (s\<lparr>h_options := (h_options s)(i \<mapsto> x\<lparr>local_address_copy := None, o_local_address := None\<rparr>)\<rparr>)
              | Some a \<Rightarrow>
                  (case connx_strdup sm alloc a (length a) of
                     None \<Rightarrow> Inl Aborts
                   | Some t \<Rightarrow>
                       let p = h_next s
                       in Inr (s\<lparr>h_next := p + 1, h_strings := (h_strings s)(p \<mapsto> t),
                                 h_options := (h_options s)(i \<mapsto> x\<lparr>local_address_copy := Some p, o_local_address := Some p\<rparr>)\<rparr>)))))"

text \<open>The setters of single TCP options.\<close>

definition set_tcp :: "(TcpOptions \<Rightarrow> TcpOptions) \<Rightarrow> nat option \<Rightarrow> c_api \<Rightarrow> api_fault + c_api" where
  "set_tcp f options s =
     (case options of
        None \<Rightarrow> Inr s
      | Some i \<Rightarrow> try_bind (deref (h_options s) i) (\<lambda>x. Inr (s\<lparr>h_options := (h_options s)(i \<mapsto> x\<lparr>o_tcp := f (o_tcp x)\<rparr>)\<rparr>)))"

definition connx_client_options_set_tcp_nodelay :: "nat option \<Rightarrow> int \<Rightarrow> c_api \<Rightarrow> api_fault + c_api" where
  "connx_client_options_set_tcp_nodelay options enabled = set_tcp (\<lambda>t. t\<lparr>tcp_nodelay := (if enabled \<noteq> 0 then 1 else 0)\<rparr>) options"

definition connx_client_options_set_send_buffer_size :: "nat option \<Rightarrow> int \<Rightarrow> c_api \<Rightarrow> api_fault + c_api" where
  "connx_client_options_set_send_buffer_size options n = set_tcp (\<lambda>t. t\<lparr>send_buffer_size := n\<rparr>) options"

definition connx_client_options_set_recv_buffer_size :: "nat option \<Rightarrow> int \<Rightarrow> c_api \<Rightarrow> api_fault + c_api" where
  "connx_client_options_set_recv_buffer_size options n = set_tcp (\<lambda>t. t\<lparr>recv_buffer_size := n\<rparr>) options"

definition connx_client_options_set_linger :: "nat option \<Rightarrow> int \<Rightarrow> c_api \<Rightarrow> api_fault + c_api" where
  "connx_client_options_set_linger options sec = set_tcp (\<lambda>t. t\<lparr>linger_sec := sec\<rparr>) options"

definition connx_client_options_set_connect_timeout :: "nat option \<Rightarrow> int \<Rightarrow> c_api \<Rightarrow> api_fault + c_api" where
  "connx_client_options_set_connect_timeout options ms = set_tcp (\<lambda>t. t\<lparr>connect_timeout_ms := ms\<rparr>) options"

section \<open>Clients\<close>

text \<open>
  \<open>a\<close> and \<open>n\<close> are the answers to a start of the runtime and the state of the runtime. The
  connection of the client gets the options by value; the pointers in them stay the same.
\<close>

definition connx_client_new :: "start_answers \<Rightarrow> net \<Rightarrow> nat option \<Rightarrow> nat option \<Rightarrow> c_api \<Rightarrow> api_fault + (nat option \<times> c_api)" where
  "connx_client_new a n handler options s =
     (case (handler, options) of
        (Some h, Some i) \<Rightarrow>
          try_bind (deref (h_options s) i) (\<lambda>x.
            case o_codec x of
              None \<Rightarrow> Inr (None, s)
            | Some p \<Rightarrow>
                try_bind (deref (h_codecs s) p) (\<lambda>c.
                  try_bind (case o_local_address x of None \<Rightarrow> Inr None
                            | Some q \<Rightarrow> try_bind (deref (h_strings s) q) (\<lambda>t. Inr (Some t))) (\<lambda>addr.
                    let k = h_next s
                    in case CreateClient a k n True \<lparr>codec = Some c, tcp = o_tcp x, local_address = addr\<rparr> (h_library s) of
                         (None, l) \<Rightarrow> Inr (None, s\<lparr>h_library := l\<rparr>)
                       | (Some ad, l) \<Rightarrow>
                           Inr (Some k, s\<lparr>h_next := k + 1, h_library := l,
                             h_clients := (h_clients s)(k \<mapsto> \<lparr>cl_impl = ad, cl_handler = h, cl_codec = Some p,
                                                              cl_local_address = o_local_address x\<rparr>),
                             h_options := (h_options s)(i \<mapsto> x\<lparr>o_codec := None\<rparr>)\<rparr>))))
      | _ \<Rightarrow> Inr (None, s))"

text \<open>The connection that is let go stays until nothing refers to it any more.\<close>

definition connx_client_destroy :: "nat option \<Rightarrow> c_api \<Rightarrow> api_fault + c_api" where
  "connx_client_destroy client s =
     (case client of
        None \<Rightarrow> Inr s
      | Some k \<Rightarrow>
          try_bind (deref (h_clients s) k) (\<lambda>cl.
            case ReleaseClient False (Some (cl_impl cl)) (h_library s) of (gone, l) \<Rightarrow>
              Inr (s\<lparr>h_library := l, h_clients := (h_clients s)(k := None),
                     h_released := (h_released s)(k := map_option (\<lambda>c. \<lparr>re_connection = c, re_codec = cl_codec cl\<rparr>) gone)\<rparr>)))"

text \<open>
  The end of a released connection, when no drain job and no task refers to it: its
  destructor deletes the codec.
\<close>

definition connection_gone :: "nat \<Rightarrow> c_api \<Rightarrow> api_fault + c_api" where
  "connection_gone k s =
     (case h_released s k of
        None \<Rightarrow> Inr s
      | Some re \<Rightarrow>
          if draining (re_connection re) \<or> drain_jobs (re_connection re) \<noteq> 0 \<or> task_queue (re_connection re) \<noteq> [] then Inr s
          else try_bind (delete_codec (re_codec re) s) (\<lambda>s. Inr (s\<lparr>h_released := (h_released s)(k := None)\<rparr>)))"

text \<open>A call on a client: the result for a null pointer, and what it does to the implementation.\<close>

definition on_client :: "'r \<Rightarrow> (ClientAdaptor \<Rightarrow> 'r \<times> ClientAdaptor) \<Rightarrow> nat option \<Rightarrow> c_api \<Rightarrow> api_fault + ('r \<times> c_api)" where
  "on_client null f client s =
     (case client of
        None \<Rightarrow> Inr (null, s)
      | Some k \<Rightarrow>
          try_bind (deref (h_clients s) k) (\<lambda>cl.
            case f (cl_impl cl) of (r, ad) \<Rightarrow> Inr (r, s\<lparr>h_clients := (h_clients s)(k \<mapsto> cl\<lparr>cl_impl := ad\<rparr>)\<rparr>)))"

definition status :: "bool \<times> ClientAdaptor \<Rightarrow> int \<times> ClientAdaptor" where
  "status r = (if fst r then 0 else - 1, snd r)"

definition connx_client_connect :: "resolver \<Rightarrow> resolve_memory \<Rightarrow> nat option \<Rightarrow> string option \<Rightarrow> c_api \<Rightarrow> api_fault + (int \<times> c_api)" where
  "connx_client_connect R m client host s =
     (if host = None then Inr (- 1, s) else on_client (- 1) (\<lambda>ad. status (ClientAdaptor_Connect R m host ad)) client s)"

definition connx_client_connect_ip_port ::
  "resolver \<Rightarrow> resolve_memory \<Rightarrow> bool \<Rightarrow> nat option \<Rightarrow> string option \<Rightarrow> int \<Rightarrow> c_api \<Rightarrow> api_fault + (int \<times> c_api)" where
  "connx_client_connect_ip_port R m alloc client ip port s =
     (if ip = None then Inr (- 1, s)
      else on_client (- 1) (\<lambda>ad. status (ClientAdaptor_Connect_ip_port R m alloc ip port ad)) client s)"

definition connx_client_disconnect :: "nat option \<Rightarrow> c_api \<Rightarrow> api_fault + (unit \<times> c_api)" where
  "connx_client_disconnect = on_client () (\<lambda>ad. ((), ClientAdaptor_Disconnect ad))"

definition connx_client_is_connected :: "nat option \<Rightarrow> c_api \<Rightarrow> api_fault + (int \<times> c_api)" where
  "connx_client_is_connected = on_client 0 (\<lambda>ad. (if ClientAdaptor_IsConnected ad then 1 else 0, ad))"

definition connx_client_send_buffer :: "nat option \<Rightarrow> byte list option \<Rightarrow> c_api \<Rightarrow> api_fault + (int \<times> c_api)" where
  "connx_client_send_buffer client data s =
     (if data = None \<or> data = Some [] then Inr (- 1, s)
      else on_client (- 1) (\<lambda>ad. status (ClientAdaptor_SendBuffer data ad)) client s)"

text \<open>The metrics stay as they are for a null pointer.\<close>

definition connx_client_get_metrics :: "nat option \<Rightarrow> Metrics \<Rightarrow> c_api \<Rightarrow> api_fault + (Metrics \<times> c_api)" where
  "connx_client_get_metrics client metrics = on_client metrics (\<lambda>ad. (ClientAdaptor_GetMetrics ad, ad)) client"

section \<open>The library\<close>

definition connx_library_init :: "start_answers \<Rightarrow> c_api \<Rightarrow> int \<times> c_api" where
  "connx_library_init a s = (case LibraryInit a (h_library s) of (ok, l) \<Rightarrow> (if ok then 0 else - 1, s\<lparr>h_library := l\<rparr>))"

definition connx_library_shutdown :: "c_api \<Rightarrow> c_api" where
  "connx_library_shutdown s = s\<lparr>h_library := LibraryShutdown (h_library s)\<rparr>"

definition on_runtime :: "(GlobalRuntime \<Rightarrow> bool \<times> GlobalRuntime) \<Rightarrow> c_api \<Rightarrow> int \<times> c_api" where
  "on_runtime f s =
     (case f (runtime (h_library s)) of (ok, r) \<Rightarrow> (if ok then 0 else - 1, s\<lparr>h_library := (h_library s)\<lparr>runtime := r\<rparr>\<rparr>))"

definition connx_runtime_set_worker_threads :: "nat \<Rightarrow> c_api \<Rightarrow> int \<times> c_api" where
  "connx_runtime_set_worker_threads worker_threads = on_runtime (SetWorkerThreads worker_threads)"

definition connx_runtime_set_worker_threads_auto :: "c_api \<Rightarrow> int \<times> c_api" where
  "connx_runtime_set_worker_threads_auto = on_runtime SetWorkerThreadsAuto"

definition connx_runtime_get_worker_threads :: "c_api \<Rightarrow> nat" where
  "connx_runtime_get_worker_threads s = GetWorkerThreads (runtime (h_library s))"

definition connx_runtime_is_worker_threads_auto :: "c_api \<Rightarrow> int" where
  "connx_runtime_is_worker_threads_auto s = (if IsWorkerThreadsAuto (runtime (h_library s)) then 1 else 0)"

end
