(* ===== verification/C_Ownership.thy ===== *)
theory C_Ownership
  imports C_Interface
begin

text \<open>
  Sequences of calls of the C interface: who owns which codec and text at every moment, and
  that the connections behind the clients only ever make steps of the connection model.
\<close>

section \<open>Calls\<close>

datatype codec_kind = K_delimiter byte | K_fixed_length nat | K_length_field u32 u32 u32 u32
  | K_callback "(byte list \<Rightarrow> DecodeResult \<times> nat) option"

datatype api_call =
    C_handler_new connx_client_handler
  | C_handler_destroy "nat option"
  | C_codec_new codec_kind
  | C_codec_destroy "nat option"
  | C_options_new
  | C_options_destroy "nat option"
  | C_set_codec "nat option" "nat option"
  | C_set_local_address nat bool "nat option" "string option"
  | C_set_tcp "TcpOptions \<Rightarrow> TcpOptions" "nat option"
  | C_client_new start_answers net "nat option" "nat option"
  | C_client_destroy "nat option"
  | C_connect resolver resolve_memory "nat option" "string option"
  | C_connect_ip_port resolver resolve_memory bool "nat option" "string option" int
  | C_disconnect "nat option"
  | C_send "nat option" "byte list option"
  | C_library library_op
  | Lib_step nat input
  | Lib_gone nat

fun codec_new :: "codec_kind \<Rightarrow> c_api \<Rightarrow> api_fault + (nat option \<times> c_api)" where
  "codec_new (K_delimiter d) s = Inr (connx_codec_new_delimiter d s)"
| "codec_new (K_fixed_length n) s = Inr (connx_codec_new_fixed_length n s)"
| "codec_new (K_length_field off len hdr n2h) s = connx_codec_new_length_field off len hdr n2h s"
| "codec_new (K_callback f) s = Inr (connx_codec_new_callback f s)"

text \<open>The connection of a client or of a released client.\<close>

definition impl_connection :: "ClientAdaptor \<Rightarrow> ClientConnection option" where
  "impl_connection ad = (case ad_impl ad of None \<Rightarrow> None | Some im \<Rightarrow> im_connection im)"

definition conn_of :: "c_api \<Rightarrow> nat \<Rightarrow> ClientConnection option" where
  "conn_of s k =
     (case h_clients s k of Some cl \<Rightarrow> impl_connection (cl_impl cl) | None \<Rightarrow> map_option re_connection (h_released s k))"

definition lib_step :: "env \<Rightarrow> nat \<Rightarrow> input \<Rightarrow> c_api \<Rightarrow> c_api" where
  "lib_step e k i s =
     (case h_clients s k of
        Some cl \<Rightarrow>
          s\<lparr>h_clients := (h_clients s)(k \<mapsto> cl\<lparr>cl_impl := (cl_impl cl)\<lparr>ad_impl :=
             map_option (\<lambda>im. im\<lparr>im_connection := map_option (step e i) (im_connection im)\<rparr>) (ad_impl (cl_impl cl))\<rparr>\<rparr>)\<rparr>
      | None \<Rightarrow>
          s\<lparr>h_released := (h_released s)(k := map_option (\<lambda>re. re\<lparr>re_connection := step e i (re_connection re)\<rparr>) (h_released s k))\<rparr>)"

definition drop_result :: "api_fault + ('r \<times> c_api) \<Rightarrow> api_fault + c_api" where
  "drop_result r = try_bind r (\<lambda>(_, s). Inr s)"

fun api_exec :: "env \<Rightarrow> api_call \<Rightarrow> c_api \<Rightarrow> api_fault + c_api" where
  "api_exec e (C_handler_new h) s = Inr (snd (connx_client_handler_new h s))"
| "api_exec e (C_handler_destroy h) s = connx_client_handler_destroy h s"
| "api_exec e (C_codec_new k) s = drop_result (codec_new k s)"
| "api_exec e (C_codec_destroy w) s = connx_codec_destroy w s"
| "api_exec e C_options_new s = Inr (snd (connx_client_options_new s))"
| "api_exec e (C_options_destroy i) s = connx_client_options_destroy i s"
| "api_exec e (C_set_codec i w) s = connx_client_options_set_codec i w s"
| "api_exec e (C_set_local_address sm alloc i a) s = connx_client_options_set_local_address sm alloc i a s"
| "api_exec e (C_set_tcp f i) s = set_tcp f i s"
| "api_exec e (C_client_new a n h i) s = drop_result (connx_client_new a n h i s)"
| "api_exec e (C_client_destroy k) s = connx_client_destroy k s"
| "api_exec e (C_connect R m k h) s = drop_result (connx_client_connect R m k h s)"
| "api_exec e (C_connect_ip_port R m alloc k ip port) s = drop_result (connx_client_connect_ip_port R m alloc k ip port s)"
| "api_exec e (C_disconnect k) s = drop_result (connx_client_disconnect k s)"
| "api_exec e (C_send k data) s = drop_result (connx_client_send_buffer k data s)"
| "api_exec e (C_library q) s = Inr (s\<lparr>h_library := library_step q (h_library s)\<rparr>)"
| "api_exec e (Lib_step k i) s = Inr (lib_step e k i s)"
| "api_exec e (Lib_gone k) s = connection_gone k s"

text \<open>
  What a correct caller does: it passes null or objects it has not destroyed, and does not
  use a client that it released from inside a callback. The library's threads do not make
  calls, and what they deliver satisfies the conditions of the connection model.
\<close>

definition alive :: "(nat \<Rightarrow> 'a option) \<Rightarrow> nat option \<Rightarrow> bool" where
  "alive f h \<longleftrightarrow> (case h of None \<Rightarrow> True | Some p \<Rightarrow> f p \<noteq> None)"

definition client_ok :: "c_api \<Rightarrow> nat option \<Rightarrow> bool" where
  "client_ok s k \<longleftrightarrow> alive (h_clients s) k \<and>
     (case k of None \<Rightarrow> True | Some k \<Rightarrow> (case conn_of s k of None \<Rightarrow> True | Some c \<Rightarrow> \<not> owner_closing c))"

fun call_ok :: "api_call \<Rightarrow> c_api \<Rightarrow> bool" where
  "call_ok (C_handler_destroy h) s \<longleftrightarrow> alive (h_handlers s) h"
| "call_ok (C_codec_destroy w) s \<longleftrightarrow> alive (h_wrappers s) w"
| "call_ok (C_options_destroy i) s \<longleftrightarrow> alive (h_options s) i"
| "call_ok (C_set_codec i w) s \<longleftrightarrow> alive (h_options s) i \<and> alive (h_wrappers s) w"
| "call_ok (C_set_local_address sm alloc i a) s \<longleftrightarrow> alive (h_options s) i"
| "call_ok (C_set_tcp f i) s \<longleftrightarrow> alive (h_options s) i"
| "call_ok (C_client_new a n h i) s \<longleftrightarrow> alive (h_handlers s) h \<and> alive (h_options s) i"
| "call_ok (C_client_destroy k) s \<longleftrightarrow> client_ok s k"
| "call_ok (C_connect R m k h) s \<longleftrightarrow> client_ok s k"
| "call_ok (C_connect_ip_port R m alloc k ip port) s \<longleftrightarrow> client_ok s k"
| "call_ok (C_disconnect k) s \<longleftrightarrow> client_ok s k"
| "call_ok (C_send k data) s \<longleftrightarrow> client_ok s k"
| "call_ok (Lib_step k i) s \<longleftrightarrow> (\<forall>a. i \<noteq> InCall a) \<and> (case conn_of s k of None \<Rightarrow> True | Some c \<Rightarrow> input_ok i c)"
| "call_ok c s \<longleftrightarrow> True"

fun run_api :: "env \<Rightarrow> api_call list \<Rightarrow> c_api \<Rightarrow> api_fault + c_api" where
  "run_api e [] s = Inr s"
| "run_api e (c # cs) s = try_bind (api_exec e c s) (run_api e cs)"

fun calls_ok :: "env \<Rightarrow> api_call list \<Rightarrow> c_api \<Rightarrow> bool" where
  "calls_ok e [] s \<longleftrightarrow> True"
| "calls_ok e (c # cs) s \<longleftrightarrow> call_ok c s \<and> (case api_exec e c s of Inl f \<Rightarrow> True | Inr s \<Rightarrow> calls_ok e cs s)"

section \<open>Ownership\<close>

text \<open>Every live object has exactly one owner, and owners only hold live objects.\<close>

definition exclusive :: "('p \<Rightarrow> bool) \<Rightarrow> ('o \<Rightarrow> 'p option) \<Rightarrow> bool" where
  "exclusive L own \<longleftrightarrow> (\<forall>p. L p \<longleftrightarrow> (\<exists>w. own w = Some p)) \<and> (\<forall>v w p. own v = Some p \<longrightarrow> own w = Some p \<longrightarrow> v = w)"

lemma ex_upd: "(\<exists>v. (own(w := x)) v = Some q) \<longleftrightarrow> x = Some q \<or> (\<exists>v. v \<noteq> w \<and> own v = Some q)"
  by (auto split: if_splits)

lemma ex_other: "own w \<noteq> Some q \<Longrightarrow> (\<exists>v. v \<noteq> w \<and> own v = Some q) \<longleftrightarrow> (\<exists>v. own v = Some q)"
  by metis

lemma exclusiveI:
  "(\<And>p. L p \<longleftrightarrow> (\<exists>w. own w = Some p)) \<Longrightarrow> (\<And>v w p. own v = Some p \<Longrightarrow> own w = Some p \<Longrightarrow> v = w) \<Longrightarrow> exclusive L own"
  unfolding exclusive_def by blast

lemma exclusive_new:
  assumes "exclusive L own" "own w = None" "\<not> L p"
  shows "exclusive (L(p := True)) (own(w := Some p))"
proof (rule exclusiveI)
  have n: "own v \<noteq> Some p" for v using assms(1,3) unfolding exclusive_def by blast
  show "(L(p := True)) q \<longleftrightarrow> (\<exists>v. (own(w := Some p)) v = Some q)" for q
    unfolding ex_upd using assms(1,2) ex_other [of own w q] by (cases "q = p") (simp_all add: exclusive_def)
  show "u = v" if "(own(w := Some p)) u = Some q" "(own(w := Some p)) v = Some q" for u v q
    using that n assms(1) unfolding exclusive_def by (auto split: if_splits)
qed

lemma exclusive_drop:
  assumes "exclusive L own" "own w = Some p"
  shows "exclusive (L(p := False)) (own(w := None))"
proof (rule exclusiveI)
  have n: "v = w" if "own v = Some p" for v using assms that unfolding exclusive_def by blast
  show "(L(p := False)) q \<longleftrightarrow> (\<exists>v. (own(w := None)) v = Some q)" for q
    unfolding ex_upd using assms n ex_other [of own w q] by (cases "q = p") (auto simp: exclusive_def)
  show "u = v" if "(own(w := None)) u = Some q" "(own(w := None)) v = Some q" for u v q
    using that assms(1) unfolding exclusive_def by (auto split: if_splits)
qed

lemma exclusive_move:
  assumes "exclusive L own" "own v = None" "v \<noteq> w"
  shows "exclusive L (own(w := None, v := own w))"
proof (rule exclusiveI)
  show "L q \<longleftrightarrow> (\<exists>u. (own(w := None, v := own w)) u = Some q)" for q
  proof -
    have "(\<exists>u. (own(w := None, v := own w)) u = Some q) \<longleftrightarrow> own w = Some q \<or> (\<exists>u. u \<noteq> v \<and> u \<noteq> w \<and> own u = Some q)"
      unfolding ex_upd by auto
    also have "\<dots> \<longleftrightarrow> (\<exists>u. own u = Some q)" using assms(2) by (metis option.distinct(1))
    finally show ?thesis using assms(1) by (simp add: exclusive_def)
  qed
  show "u = x" if "(own(w := None, v := own w)) u = Some q" "(own(w := None, v := own w)) x = Some q" for u x q
    using that assms(1) unfolding exclusive_def by (auto split: if_splits)
qed

datatype owner = By_wrapper nat | By_options nat | By_client nat | By_released nat

definition owns :: "c_api \<Rightarrow> owner \<Rightarrow> nat option" where
  "owns s w =
     (case w of
        By_wrapper i \<Rightarrow> (case h_wrappers s i of None \<Rightarrow> None | Some c \<Rightarrow> c)
      | By_options i \<Rightarrow> (case h_options s i of None \<Rightarrow> None | Some x \<Rightarrow> o_codec x)
      | By_client k \<Rightarrow> (case h_clients s k of None \<Rightarrow> None | Some cl \<Rightarrow> cl_codec cl)
      | By_released k \<Rightarrow> (case h_released s k of None \<Rightarrow> None | Some re \<Rightarrow> re_codec re))"

definition owns_text :: "c_api \<Rightarrow> nat \<Rightarrow> nat option" where
  "owns_text s i = (case h_options s i of None \<Rightarrow> None | Some x \<Rightarrow> local_address_copy x)"

definition codecs_owned :: "c_api \<Rightarrow> bool" where
  "codecs_owned s \<longleftrightarrow> exclusive (\<lambda>p. h_codecs s p \<noteq> None) (owns s)"

definition texts_owned :: "c_api \<Rightarrow> bool" where
  "texts_owned s \<longleftrightarrow> exclusive (\<lambda>p. h_strings s p \<noteq> None) (owns_text s) \<and>
     (\<forall>i x. h_options s i = Some x \<longrightarrow> o_local_address x = local_address_copy x)"

definition numbered :: "c_api \<Rightarrow> bool" where
  "numbered s \<longleftrightarrow> (\<forall>p \<ge> h_next s. h_codecs s p = None \<and> h_strings s p = None \<and> h_wrappers s p = None \<and> h_options s p = None \<and>
     h_clients s p = None \<and> h_released s p = None) \<and> (\<forall>k. h_clients s k = None \<or> h_released s k = None)"

text \<open>A connection whose history is a run of the connection model.\<close>

definition is_run :: "env \<Rightarrow> nat \<Rightarrow> ClientConnection \<Rightarrow> bool" where
  "is_run e k c \<longleftrightarrow> (\<exists>is copts n. codec copts \<noteq> None \<and> inputs_ok e is (ClientConnection_new k True copts n) \<and>
     c = run e is (ClientConnection_new k True copts n))"

definition connections_run :: "env \<Rightarrow> c_api \<Rightarrow> bool" where
  "connections_run e s \<longleftrightarrow> (\<forall>k c. conn_of s k = Some c \<longrightarrow> is_run e k c) \<and> (\<forall>k. h_clients s k \<noteq> None \<longrightarrow> conn_of s k \<noteq> None)"

definition api_inv :: "env \<Rightarrow> c_api \<Rightarrow> bool" where
  "api_inv e s \<longleftrightarrow> codecs_owned s \<and> texts_owned s \<and> numbered s \<and> connections_run e s \<and> library_ok (h_library s)"

section \<open>Deleting what is owned\<close>

lemma delete_codec_owned:
  assumes "codecs_owned s" "owns s w = c"
  obtains f where "delete_codec c s = Inr (s\<lparr>h_codecs := f\<rparr>)" "exclusive (\<lambda>p. f p \<noteq> None) ((owns s)(w := None))"
    "\<forall>p. h_codecs s p = None \<longrightarrow> f p = None"
proof (cases c)
  case None
  then have "(owns s)(w := None) = owns s" using assms(2) by auto
  then show ?thesis using that [of "h_codecs s"] None assms(1) by (simp add: delete_codec_def codecs_owned_def)
next
  case (Some p)
  then have "h_codecs s p \<noteq> None" using assms by (auto simp: codecs_owned_def exclusive_def)
  moreover have "(\<lambda>q. ((h_codecs s)(p := None)) q \<noteq> None) = (\<lambda>q. h_codecs s q \<noteq> None)(p := False)" by auto
  ultimately show ?thesis
    using that [of "(h_codecs s)(p := None)"] exclusive_drop [of _ "owns s" w p] assms Some
    by (auto simp: delete_codec_def codecs_owned_def)
qed

lemma free_string_owned:
  assumes "exclusive (\<lambda>p. h_strings s p \<noteq> None) (owns_text s)" "owns_text s i = t"
  obtains f where "free_string t s = Inr (s\<lparr>h_strings := f\<rparr>)" "exclusive (\<lambda>p. f p \<noteq> None) ((owns_text s)(i := None))"
    "\<forall>p. h_strings s p = None \<longrightarrow> f p = None" "\<forall>p. t = Some p \<longrightarrow> f p = None"
proof (cases t)
  case None
  then have "(owns_text s)(i := None) = owns_text s" using assms(2) by auto
  then show ?thesis using that [of "h_strings s"] None assms(1) by (simp add: free_string_def)
next
  case (Some p)
  then have "h_strings s p \<noteq> None" using assms by (auto simp: exclusive_def)
  moreover have "(\<lambda>q. ((h_strings s)(p := None)) q \<noteq> None) = (\<lambda>q. h_strings s q \<noteq> None)(p := False)" by auto
  ultimately show ?thesis
    using that [of "(h_strings s)(p := None)"] exclusive_drop [of _ "owns_text s" i p] assms Some
    by (auto simp: free_string_def)
qed

section \<open>Each call keeps the invariant\<close>

definition ok_result :: "env \<Rightarrow> api_fault + c_api \<Rightarrow> bool" where
  "ok_result e r \<longleftrightarrow> (case r of Inl f \<Rightarrow> f = Aborts | Inr s \<Rightarrow> api_inv e s)"

lemma ok_result_simps [simp]: "ok_result e (Inl f) \<longleftrightarrow> f = Aborts" "ok_result e (Inr s) \<longleftrightarrow> api_inv e s"
  by (simp_all add: ok_result_def)

lemma drop_result_simps [simp]: "drop_result (Inl f) = Inl f" "drop_result (Inr (r, s)) = Inr s" "drop_result (Inr p) = Inr (snd p)"
  by (simp_all add: drop_result_def split: prod.splits)

lemma alive_Some: "alive f (Some p) \<Longrightarrow> \<exists>x. f p = Some x"
  by (auto simp: alive_def)

lemma deref_Some [simp]: "f p = Some x \<Longrightarrow> deref f p = Inr x"
  by (simp add: deref_def)

text \<open>Calls that leave the clients alone leave their connections alone.\<close>

lemma conn_of_cong: "h_clients s' = h_clients s \<Longrightarrow> h_released s' = h_released s \<Longrightarrow> conn_of s' = conn_of s"
  by (simp add: fun_eq_iff conn_of_def split: option.split)

lemma api_inv_same_clients:
  assumes "api_inv e s" "h_clients s' = h_clients s" "h_released s' = h_released s" "h_library s' = h_library s"
    and "codecs_owned s'" "texts_owned s'" "numbered s'"
  shows "api_inv e s'"
  using assms conn_of_cong [OF assms(2,3)] by (simp add: api_inv_def connections_run_def)

lemma owns_eqI:
  assumes "\<And>i. owns s' (By_wrapper i) = f (By_wrapper i)" "\<And>i. owns s' (By_options i) = f (By_options i)"
    "\<And>i. owns s' (By_client i) = f (By_client i)" "\<And>i. owns s' (By_released i) = f (By_released i)"
  shows "owns s' = f"
proof
  show "owns s' w = f w" for w using assms by (cases w) simp_all
qed

lemma owns_simps:
  "owns s (By_wrapper i) = (case h_wrappers s i of None \<Rightarrow> None | Some c \<Rightarrow> c)"
  "owns s (By_options i) = (case h_options s i of None \<Rightarrow> None | Some x \<Rightarrow> o_codec x)"
  "owns s (By_client i) = (case h_clients s i of None \<Rightarrow> None | Some cl \<Rightarrow> cl_codec cl)"
  "owns s (By_released i) = (case h_released s i of None \<Rightarrow> None | Some re \<Rightarrow> re_codec re)"
  by (simp_all add: owns_def)

lemma api_inv_owned: "api_inv e s \<Longrightarrow> codecs_owned s" "api_inv e s \<Longrightarrow> texts_owned s" "api_inv e s \<Longrightarrow> numbered s"
  by (simp_all add: api_inv_def)

text \<open>Numbers that are not in use.\<close>

lemma numberedD:
  assumes "numbered s" "h_next s \<le> p"
  shows "h_codecs s p = None" "h_strings s p = None" "h_wrappers s p = None" "h_options s p = None" "h_clients s p = None"
    "h_released s p = None"
  using assms by (auto simp: numbered_def)

lemma numbered_released: "numbered s \<Longrightarrow> h_clients s k = Some cl \<Longrightarrow> h_released s k = None"
  unfolding numbered_def by (metis option.distinct(1))

lemma texts_owned_cong: "h_strings s' = h_strings s \<Longrightarrow> h_options s' = h_options s \<Longrightarrow> texts_owned s' = texts_owned s"
  by (simp add: texts_owned_def owns_text_def [abs_def])

lemma codecs_owned_cong: "h_codecs s' = h_codecs s \<Longrightarrow> owns s' = owns s \<Longrightarrow> codecs_owned s' = codecs_owned s"
  by (simp add: codecs_owned_def)

lemma api_inv_handlers: "api_inv e s \<Longrightarrow> h_next s \<le> n \<Longrightarrow> api_inv e (s\<lparr>h_next := n, h_handlers := f\<rparr>)"
proof (rule api_inv_same_clients)
  assume i: "api_inv e s" and n: "h_next s \<le> n"
  let ?s = "s\<lparr>h_next := n, h_handlers := f\<rparr>"
  have "owns ?s = owns s" by (rule owns_eqI) (simp_all add: owns_simps)
  then show "codecs_owned ?s" using codecs_owned_cong [of ?s s] api_inv_owned(1) [OF i] by simp
  show "texts_owned ?s" using texts_owned_cong [of ?s s] api_inv_owned(2) [OF i] by simp
  show "numbered ?s" using api_inv_owned(3) [OF i] n by (simp add: numbered_def)
qed simp_all

lemma api_inv_new_codec: "api_inv e s \<Longrightarrow> api_inv e (snd (new_codec c s))"
proof (rule api_inv_same_clients)
  assume i: "api_inv e s"
  note num = numberedD [OF api_inv_owned(3) [OF i]]
  let ?w = "h_next s" and ?p = "h_next s + 1" and ?s = "snd (new_codec c s)"
  have f: "owns s (By_wrapper ?w) = None" "h_codecs s ?p = None" using num by (simp_all add: owns_simps)
  have "owns ?s = (owns s)(By_wrapper ?w := Some ?p)"
    by (rule owns_eqI) (simp_all add: owns_simps new_codec_def Let_def)
  moreover have "(\<lambda>q. h_codecs ?s q \<noteq> None) = (\<lambda>q. h_codecs s q \<noteq> None)(?p := True)"
    by (auto simp: new_codec_def Let_def)
  ultimately show "codecs_owned ?s"
    using exclusive_new [of "\<lambda>q. h_codecs s q \<noteq> None" "owns s"] f api_inv_owned(1) [OF i] by (simp add: codecs_owned_def)
  show "texts_owned ?s" using texts_owned_cong [of ?s s] api_inv_owned(2) [OF i] by (simp add: new_codec_def Let_def)
  show "numbered ?s" using api_inv_owned(3) [OF i] by (simp add: numbered_def new_codec_def Let_def)
qed (simp_all add: new_codec_def Let_def)

lemma api_inv_codec_destroy:
  assumes i: "api_inv e s" and w: "h_wrappers s w = Some c"
  shows "ok_result e (connx_codec_destroy (Some w) s)"
proof -
  have "owns s (By_wrapper w) = c" using w by (simp add: owns_simps)
  with api_inv_owned(1) [OF i] obtain f where
    f: "delete_codec c s = Inr (s\<lparr>h_codecs := f\<rparr>)" "exclusive (\<lambda>p. f p \<noteq> None) ((owns s)(By_wrapper w := None))"
      "\<forall>p. h_codecs s p = None \<longrightarrow> f p = None"
    by (rule delete_codec_owned)
  let ?s = "s\<lparr>h_codecs := f, h_wrappers := (h_wrappers s)(w := None)\<rparr>"
  have "owns ?s = (owns s)(By_wrapper w := None)" by (rule owns_eqI) (simp_all add: owns_simps)
  then have "codecs_owned ?s" using f(2) by (simp add: codecs_owned_def)
  moreover have "texts_owned ?s" using texts_owned_cong [of ?s s] api_inv_owned(2) [OF i] by simp
  moreover have "numbered ?s" using api_inv_owned(3) [OF i] f(3) by (simp add: numbered_def)
  ultimately have "api_inv e ?s" by (intro api_inv_same_clients [OF i]) simp_all
  then show ?thesis using f(1) w by (simp add: connx_codec_destroy_def)
qed

text \<open>A change of one options object that keeps its pointers.\<close>

lemma api_inv_options:
  assumes i: "api_inv e s" and n: "h_next s \<le> n" "j < n"
    and x: "o_codec x = owns s (By_options j)" "local_address_copy x = owns_text s j" "o_local_address x = local_address_copy x"
  shows "api_inv e (s\<lparr>h_next := n, h_options := (h_options s)(j \<mapsto> x)\<rparr>)"
proof (rule api_inv_same_clients [OF i])
  let ?s = "s\<lparr>h_next := n, h_options := (h_options s)(j \<mapsto> x)\<rparr>"
  have "owns ?s = owns s" by (rule owns_eqI) (use x(1) in \<open>simp_all add: owns_simps\<close>)
  then show "codecs_owned ?s" using codecs_owned_cong [of ?s s] api_inv_owned(1) [OF i] by simp
  have "owns_text ?s = owns_text s" using x(2) by (auto simp: owns_text_def fun_eq_iff)
  then show "texts_owned ?s" using api_inv_owned(2) [OF i] x(3) by (simp add: texts_owned_def)
  show "numbered ?s" using api_inv_owned(3) [OF i] n by (simp add: numbered_def)
qed simp_all

lemma api_inv_options_new: "api_inv e s \<Longrightarrow> api_inv e (snd (connx_client_options_new s))"
  unfolding connx_client_options_new_def snd_conv
  by (rule api_inv_options) (simp_all add: owns_simps owns_text_def numberedD [OF api_inv_owned(3)])

lemma api_inv_set_tcp:
  assumes "api_inv e s" "h_options s j = Some x"
  shows "ok_result e (set_tcp f (Some j) s)"
proof -
  have "j < h_next s" using numberedD(4) [OF api_inv_owned(3) [OF assms(1)], of j] assms(2) by (cases "j < h_next s") auto
  moreover have "o_local_address x = local_address_copy x" using api_inv_owned(2) [OF assms(1)] assms(2) by (simp add: texts_owned_def)
  ultimately have "api_inv e (s\<lparr>h_next := h_next s, h_options := (h_options s)(j \<mapsto> x\<lparr>o_tcp := f (o_tcp x)\<rparr>)\<rparr>)"
    by (intro api_inv_options [OF assms(1)]) (simp_all add: owns_simps owns_text_def assms(2))
  then show ?thesis by (simp add: set_tcp_def assms(2))
qed

lemma api_inv_options_destroy:
  assumes i: "api_inv e s" and x: "h_options s j = Some x"
  shows "ok_result e (connx_client_options_destroy (Some j) s)"
proof -
  have t: "exclusive (\<lambda>p. h_strings s p \<noteq> None) (owns_text s)" using api_inv_owned(2) [OF i] by (simp add: texts_owned_def)
  have "owns_text s j = local_address_copy x" using x by (simp add: owns_text_def)
  with t obtain g where g: "free_string (local_address_copy x) s = Inr (s\<lparr>h_strings := g\<rparr>)"
      "exclusive (\<lambda>p. g p \<noteq> None) ((owns_text s)(j := None))" "\<forall>p. h_strings s p = None \<longrightarrow> g p = None"
      "\<forall>p. local_address_copy x = Some p \<longrightarrow> g p = None"
    by (rule free_string_owned)
  let ?t = "s\<lparr>h_strings := g\<rparr>"
  have o: "owns ?t = owns s" by (rule owns_eqI) (simp_all add: owns_simps)
  have "codecs_owned ?t" using codecs_owned_cong [OF _ o] api_inv_owned(1) [OF i] by simp
  moreover have "owns ?t (By_options j) = o_codec x" using x by (simp add: owns_simps)
  ultimately obtain f where f: "delete_codec (o_codec x) ?t = Inr (?t\<lparr>h_codecs := f\<rparr>)"
      "exclusive (\<lambda>p. f p \<noteq> None) ((owns ?t)(By_options j := None))" "\<forall>p. h_codecs ?t p = None \<longrightarrow> f p = None"
    by (rule delete_codec_owned)
  let ?s = "?t\<lparr>h_codecs := f, h_options := (h_options s)(j := None)\<rparr>"
  have "owns ?s = (owns s)(By_options j := None)" by (rule owns_eqI) (simp_all add: owns_simps)
  then have "codecs_owned ?s" using f(2) o by (simp add: codecs_owned_def)
  moreover have "owns_text ?s = (owns_text s)(j := None)" by (auto simp: owns_text_def fun_eq_iff)
  then have "texts_owned ?s" using g(2) api_inv_owned(2) [OF i] by (simp add: texts_owned_def)
  moreover have "numbered ?s" using api_inv_owned(3) [OF i] f(3) g(3) by (simp add: numbered_def)
  ultimately have "api_inv e ?s" by (intro api_inv_same_clients [OF i]) simp_all
  then show ?thesis using f(1) g(1) x by (simp add: connx_client_options_destroy_def)
qed

lemma api_inv_set_codec:
  assumes i: "api_inv e s" and x: "h_options s j = Some x" and w: "h_wrappers s w = Some c"
  shows "ok_result e (connx_client_options_set_codec (Some j) (Some w) s)"
proof -
  have "owns s (By_options j) = o_codec x" using x by (simp add: owns_simps)
  with api_inv_owned(1) [OF i] obtain f where f: "delete_codec (o_codec x) s = Inr (s\<lparr>h_codecs := f\<rparr>)"
      "exclusive (\<lambda>p. f p \<noteq> None) ((owns s)(By_options j := None))" "\<forall>p. h_codecs s p = None \<longrightarrow> f p = None"
    by (rule delete_codec_owned)
  let ?s = "s\<lparr>h_codecs := f, h_options := (h_options s)(j \<mapsto> x\<lparr>o_codec := c\<rparr>), h_wrappers := (h_wrappers s)(w \<mapsto> None)\<rparr>"
  let ?o = "(owns s)(By_options j := None)"
  have "owns ?s = ?o(By_wrapper w := None, By_options j := ?o (By_wrapper w))"
    by (rule owns_eqI) (use w in \<open>simp_all add: owns_simps\<close>)
  then have "codecs_owned ?s" using exclusive_move [OF f(2), of "By_options j" "By_wrapper w"] by (simp add: codecs_owned_def)
  moreover have "owns_text ?s = owns_text s" using x by (auto simp: owns_text_def fun_eq_iff)
  then have "texts_owned ?s" using x api_inv_owned(2) [OF i] by (simp add: texts_owned_def)
  moreover have "numbered ?s" using api_inv_owned(3) [OF i] f(3) x w by (auto simp: numbered_def)
  ultimately have "api_inv e ?s" by (intro api_inv_same_clients [OF i]) simp_all
  then show ?thesis using f(1) x w by (simp add: connx_client_options_set_codec_def)
qed

lemma api_inv_set_local_address:
  assumes i: "api_inv e s" and x: "h_options s j = Some x"
  shows "ok_result e (connx_client_options_set_local_address sm alloc (Some j) a s)"
proof -
  have t: "exclusive (\<lambda>p. h_strings s p \<noteq> None) (owns_text s)" using api_inv_owned(2) [OF i] by (simp add: texts_owned_def)
  have "owns_text s j = local_address_copy x" using x by (simp add: owns_text_def)
  with t obtain g where g: "free_string (local_address_copy x) s = Inr (s\<lparr>h_strings := g\<rparr>)"
      "exclusive (\<lambda>p. g p \<noteq> None) ((owns_text s)(j := None))" "\<forall>p. h_strings s p = None \<longrightarrow> g p = None"
      "\<forall>p. local_address_copy x = Some p \<longrightarrow> g p = None"
    by (rule free_string_owned)
  have j: "j < h_next s" using numberedD(4) [OF api_inv_owned(3) [OF i], of j] x by (cases "j < h_next s") auto
  have new: "api_inv e (s\<lparr>h_next := n, h_strings := h, h_options := (h_options s)(j \<mapsto> x\<lparr>local_address_copy := p, o_local_address := p\<rparr>)\<rparr>)"
    if n: "h_next s \<le> n" and h: "exclusive (\<lambda>p. h p \<noteq> None) ((owns_text s)(j := p))" "\<forall>p \<ge> n. h p = None" for n h p
  proof (rule api_inv_same_clients [OF i])
    let ?s = "s\<lparr>h_next := n, h_strings := h, h_options := (h_options s)(j \<mapsto> x\<lparr>local_address_copy := p, o_local_address := p\<rparr>)\<rparr>"
    have "owns ?s = owns s" by (rule owns_eqI) (use x in \<open>simp_all add: owns_simps\<close>)
    then show "codecs_owned ?s" using codecs_owned_cong [of ?s s] api_inv_owned(1) [OF i] by simp
    have "owns_text ?s = (owns_text s)(j := p)" by (auto simp: owns_text_def fun_eq_iff)
    then show "texts_owned ?s" using h(1) api_inv_owned(2) [OF i] by (simp add: texts_owned_def)
    show "numbered ?s" using api_inv_owned(3) [OF i] n h(2) j by (simp add: numbered_def)
  qed simp_all
  have gn: "\<forall>p \<ge> h_next s. g p = None" using g(3) numberedD(2) [OF api_inv_owned(3) [OF i]] by blast
  show ?thesis
  proof (cases a)
    case None
    then show ?thesis using new [of "h_next s" g None] g(1,2) gn x by (simp add: connx_client_options_set_local_address_def)
  next
    case (Some b)
    let ?p = "h_next s"
    have "exclusive ((\<lambda>q. g q \<noteq> None)(?p := True)) ((owns_text s)(j := None, j := Some ?p))"
      by (rule exclusive_new [OF g(2)]) (use gn in simp_all)
    moreover have "(\<lambda>q. g q \<noteq> None)(?p := True) = (\<lambda>q. (g(?p \<mapsto> t)) q \<noteq> None)" for t by auto
    ultimately have "exclusive (\<lambda>q. (g(?p \<mapsto> t)) q \<noteq> None) ((owns_text s)(j := Some ?p))" for t by simp
    then have "api_inv e (s\<lparr>h_next := ?p + 1, h_strings := g(?p \<mapsto> t),
        h_options := (h_options s)(j \<mapsto> x\<lparr>local_address_copy := Some ?p, o_local_address := Some ?p\<rparr>)\<rparr>)" for t
      by (intro new) (use gn in auto)
    then show ?thesis
      using g(1) Some x by (simp add: connx_client_options_set_local_address_def Let_def split: option.splits)
  qed
qed

section \<open>Connections behind the clients\<close>

lemma inputs_ok_append: "inputs_ok e (is @ js) c \<longleftrightarrow> inputs_ok e is c \<and> inputs_ok e js (run e is c)"
  by (induction "is" arbitrary: c) auto

lemma is_run_new: "codec copts \<noteq> None \<Longrightarrow> is_run e k (ClientConnection_new k True copts n)"
  unfolding is_run_def by (metis inputs_ok.simps(1) run.simps(1))

lemma is_run_step:
  assumes "is_run e k c" "input_ok i c"
  shows "is_run e k (step e i c)"
proof -
  obtain "is" copts n where r: "codec copts \<noteq> None" "inputs_ok e is (ClientConnection_new k True copts n)"
    "c = run e is (ClientConnection_new k True copts n)"
    using assms(1) unfolding is_run_def by blast
  then have "inputs_ok e (is @ [i]) (ClientConnection_new k True copts n)" "step e i c = run e (is @ [i]) (ClientConnection_new k True copts n)"
    using assms(2) by (simp_all add: inputs_ok_append run_append_inputs)
  with r(1) show ?thesis unfolding is_run_def by blast
qed

lemma is_run_call: "is_run e k c \<Longrightarrow> \<not> owner_closing c \<Longrightarrow> is_run e k (app_call_outside a c)"
  using is_run_step [of e k c "InCall a"] by (simp add: input_ok_def)

text \<open>What the calls of the adaptor do to the connection is a call of the connection model, or nothing.\<close>

definition only_calls :: "ClientAdaptor \<Rightarrow> ClientAdaptor \<Rightarrow> bool" where
  "only_calls ad ad' \<longleftrightarrow> impl_connection ad' = impl_connection ad \<or>
     (\<exists>c a. impl_connection ad = Some c \<and> impl_connection ad' = Some (app_call_outside a c))"

lemma only_calls_refl [simp]: "only_calls ad ad"
  by (simp add: only_calls_def)

lemma only_calls_on_impl:
  assumes "\<And>im. im_connection (snd (f im)) = im_connection im \<or>
    (\<exists>c a. im_connection im = Some c \<and> im_connection (snd (f im)) = Some (app_call_outside a c))"
  shows "only_calls ad (snd (on_impl f r ad))"
proof (cases "ad_impl ad")
  case None
  then show ?thesis by (simp add: on_impl_def)
next
  case (Some im)
  then show ?thesis using assms [of im] by (auto simp: on_impl_def only_calls_def impl_connection_def split: prod.splits)
qed

lemma only_calls_connect: "only_calls ad (snd (on_impl (ClientImpl_Connect (Some h) ans) r ad))"
proof (rule only_calls_on_impl)
  fix im
  show "im_connection (snd (ClientImpl_Connect (Some h) ans im)) = im_connection im \<or>
    (\<exists>c a. im_connection im = Some c \<and> im_connection (snd (ClientImpl_Connect (Some h) ans im)) = Some (app_call_outside a c))"
    by (auto simp: ClientImpl_Connect_def split: option.split prod.split) (metis app_call_outside.simps(1) snd_conv)
qed

lemma only_calls_send: "only_calls ad (snd (on_impl (ClientImpl_SendMsg bs) r ad))"
proof (rule only_calls_on_impl)
  fix im
  show "im_connection (snd (ClientImpl_SendMsg bs im)) = im_connection im \<or>
    (\<exists>c a. im_connection im = Some c \<and> im_connection (snd (ClientImpl_SendMsg bs im)) = Some (app_call_outside a c))"
    by (auto simp: ClientImpl_SendMsg_def split: option.split prod.split) (metis app_call_outside.simps(3) snd_conv)
qed

lemma only_calls_disconnect: "only_calls ad (snd (on_impl (\<lambda>im. ((), ClientImpl_Disconnect im)) r ad))"
proof (rule only_calls_on_impl)
  fix im
  show "im_connection (snd ((), ClientImpl_Disconnect im)) = im_connection im \<or>
    (\<exists>c a. im_connection im = Some c \<and> im_connection (snd ((), ClientImpl_Disconnect im)) = Some (app_call_outside a c))"
    by (auto simp: ClientImpl_Disconnect_def split: option.split) (metis app_call_outside.simps(2))
qed

lemma only_calls_adaptor:
  "only_calls ad (snd (ClientAdaptor_Connect R m h ad))" "only_calls ad (snd (ClientAdaptor_Connect_ip_port R m alloc ip port ad))"
  "only_calls ad (ClientAdaptor_Disconnect ad)" "only_calls ad (snd (ClientAdaptor_SendBuffer data ad))"
  using only_calls_connect only_calls_send only_calls_disconnect
  by (simp_all add: ClientAdaptor_Connect_def ClientAdaptor_Connect_ip_port_def ClientAdaptor_Disconnect_def ClientAdaptor_SendBuffer_def
      split: option.split)

text \<open>Changing the implementation or the released state of one client.\<close>

lemma connections_run_upd:
  assumes "connections_run e s" "\<And>j. j \<noteq> k \<Longrightarrow> conn_of s' j = conn_of s j \<and> (h_clients s' j = None) = (h_clients s j = None)"
    and "\<And>c. conn_of s' k = Some c \<Longrightarrow> is_run e k c" "h_clients s' k \<noteq> None \<Longrightarrow> conn_of s' k \<noteq> None"
  shows "connections_run e s'"
  using assms unfolding connections_run_def by metis

lemma api_inv_impl:
  assumes i: "api_inv e s" and cl: "h_clients s k = Some cl" and c: "impl_connection ad = Some c" "is_run e k c"
  shows "api_inv e (s\<lparr>h_clients := (h_clients s)(k \<mapsto> cl\<lparr>cl_impl := ad\<rparr>)\<rparr>)"
proof -
  let ?s = "s\<lparr>h_clients := (h_clients s)(k \<mapsto> cl\<lparr>cl_impl := ad\<rparr>)\<rparr>"
  have "owns ?s = owns s" by (rule owns_eqI) (use cl in \<open>simp_all add: owns_simps\<close>)
  then have "codecs_owned ?s" using codecs_owned_cong [of ?s s] api_inv_owned(1) [OF i] by simp
  moreover have "texts_owned ?s" using texts_owned_cong [of ?s s] api_inv_owned(2) [OF i] by simp
  moreover have "numbered ?s"
    using api_inv_owned(3) [OF i] cl numbered_released [of s k] by (auto simp: numbered_def)
  moreover have "connections_run e ?s"
  proof (rule connections_run_upd [where k = k])
    show "connections_run e s" using i by (simp add: api_inv_def)
  qed (use c in \<open>simp_all add: conn_of_def split: option.split\<close>)
  ultimately show ?thesis using i by (simp add: api_inv_def)
qed

lemma api_inv_on_client:
  assumes i: "api_inv e s" and k: "client_ok s k" and f: "\<And>ad. only_calls ad (snd (f ad))"
  shows "ok_result e (drop_result (on_client r f k s))"
proof (cases k)
  case None
  then show ?thesis using i by (simp add: on_client_def)
next
  case (Some j)
  then obtain cl where cl: "h_clients s j = Some cl" using k by (auto simp: client_ok_def alive_def)
  then obtain c where c: "impl_connection (cl_impl cl) = Some c" "is_run e j c"
    using i unfolding api_inv_def connections_run_def by (metis conn_of_def option.distinct(1) option.exhaust option.simps(5))
  have "\<not> owner_closing c" using k Some cl c by (simp add: client_ok_def conn_of_def)
  then obtain c' where "impl_connection (snd (f (cl_impl cl))) = Some c'" "is_run e j c'"
    using f [of "cl_impl cl"] c is_run_call unfolding only_calls_def by (metis option.inject)
  then show ?thesis
    using api_inv_impl [OF i cl, of "snd (f (cl_impl cl))"] Some cl by (cases "f (cl_impl cl)") (simp add: on_client_def)
qed

lemma api_inv_library: "api_inv e s \<Longrightarrow> library_ok l \<Longrightarrow> api_inv e (s\<lparr>h_library := l\<rparr>)"
proof -
  assume i: "api_inv e s" and l: "library_ok l"
  let ?s = "s\<lparr>h_library := l\<rparr>"
  have "owns ?s = owns s" by (rule owns_eqI) (simp_all add: owns_simps)
  then have "codecs_owned ?s" using codecs_owned_cong [of ?s s] api_inv_owned(1) [OF i] by simp
  moreover have "texts_owned ?s" using texts_owned_cong [of ?s s] api_inv_owned(2) [OF i] by simp
  moreover have "numbered ?s" using api_inv_owned(3) [OF i] by (simp add: numbered_def)
  moreover have "connections_run e ?s" using i conn_of_cong [of ?s s] by (simp add: api_inv_def connections_run_def)
  ultimately show ?thesis using l by (simp add: api_inv_def)
qed

lemma CreateClient_result:
  assumes "library_ok l" "CreateClient a k n True copts l = (cli, l')"
  shows "library_ok l' \<and> (\<forall>ad. cli = Some ad \<longrightarrow> impl_connection ad = Some (ClientConnection_new k True copts n))"
proof -
  obtain ok l1 where i: "LibraryInit a l = (ok, l1)" by fastforce
  have "library_ok l1" using LibraryInit_count [OF assms(1) i] by simp
  then show ?thesis
    using assms i by (cases ok) (auto simp: CreateClient_def ClientAdaptor_new_def LibraryInitService_new_def ad_initialized_def
      ClientAdaptor_destroy_def LibraryInitService_destroy_def ClientAdaptor_Init_def on_impl_def SetOptions_def ClientImpl_Start_def
      ClientImpl_new_def impl_connection_def Let_def split: if_splits)
qed

lemma ReleaseClient_result:
  assumes "library_ok l" "ReleaseClient False (Some ad) l = (gone, l')"
  shows "library_ok l' \<and> gone = map_option (app_call_outside AppRelease) (impl_connection ad)"
  using assms library_ok_step [OF assms(1), of OpShutdown]
  by (auto simp: ReleaseClient_def ClientAdaptor_destroy_def LibraryInitService_destroy_def ClientImpl_Stop_def CloseFromOwner_def
      impl_connection_def Let_def split: option.splits if_splits)

lemma api_inv_client_new:
  assumes i: "api_inv e s" and x: "h_options s j = Some x"
  shows "ok_result e (drop_result (connx_client_new a n (Some h) (Some j) s))"
proof (cases "o_codec x")
  case None
  then show ?thesis using i x by (simp add: connx_client_new_def)
next
  case (Some p)
  have o: "owns s (By_options j) = Some p" using x Some by (simp add: owns_simps)
  then have "h_codecs s p \<noteq> None" using api_inv_owned(1) [OF i] unfolding codecs_owned_def exclusive_def by blast
  then obtain c where c: "h_codecs s p = Some c" by blast
  have lo: "o_local_address x = owns_text s j" using api_inv_owned(2) [OF i] x by (simp add: texts_owned_def owns_text_def)
  have "\<exists>addr. (case o_local_address x of None \<Rightarrow> Inr None | Some q \<Rightarrow> try_bind (deref (h_strings s) q) (\<lambda>t. Inr (Some t))) = Inr addr"
  proof (cases "o_local_address x")
    case (Some q)
    then have "h_strings s q \<noteq> None" using lo api_inv_owned(2) [OF i] by (auto simp: texts_owned_def exclusive_def)
    then show ?thesis using Some by auto
  qed simp
  then obtain addr where addr:
    "(case o_local_address x of None \<Rightarrow> Inr None | Some q \<Rightarrow> try_bind (deref (h_strings s) q) (\<lambda>t. Inr (Some t))) = Inr addr" by blast
  let ?k = "h_next s" and ?copts = "\<lparr>codec = Some c, tcp = o_tcp x, local_address = addr\<rparr>"
  obtain cli l where cc: "CreateClient a ?k n True ?copts (h_library s) = (cli, l)" by fastforce
  have res: "library_ok l" "\<And>ad. cli = Some ad \<Longrightarrow> impl_connection ad = Some (ClientConnection_new ?k True ?copts n)"
    using CreateClient_result [OF _ cc] i by (auto simp: api_inv_def)
  show ?thesis
  proof (cases cli)
    case None
    then show ?thesis using api_inv_library [OF i res(1)] x Some c addr cc by (simp add: connx_client_new_def Let_def)
  next
    case cl: (Some ad)
    let ?cl = "\<lparr>cl_impl = ad, cl_handler = h, cl_codec = Some p, cl_local_address = o_local_address x\<rparr>"
    let ?s = "s\<lparr>h_next := ?k + 1, h_library := l, h_clients := (h_clients s)(?k \<mapsto> ?cl), h_options := (h_options s)(j \<mapsto> x\<lparr>o_codec := None\<rparr>)\<rparr>"
    note num = numberedD [OF api_inv_owned(3) [OF i], OF order_refl]
    have j: "j < ?k" using numberedD(4) [OF api_inv_owned(3) [OF i], of j] x by (cases "j < ?k") auto
    have "owns ?s = (owns s)(By_options j := None, By_client ?k := owns s (By_options j))"
      by (rule owns_eqI) (simp_all add: owns_simps x Some)
    then have "codecs_owned ?s"
      using exclusive_move [of _ "owns s" "By_client ?k" "By_options j"] api_inv_owned(1) [OF i] num(5)
      by (simp add: codecs_owned_def owns_simps)
    moreover have "owns_text ?s = owns_text s" using x by (auto simp: owns_text_def fun_eq_iff)
    then have "texts_owned ?s" using x api_inv_owned(2) [OF i] by (simp add: texts_owned_def)
    moreover have "numbered ?s" using api_inv_owned(3) [OF i] j num(6) by (auto simp: numbered_def)
    moreover have "connections_run e ?s"
    proof (rule connections_run_upd [where k = ?k])
      show "connections_run e s" using i by (simp add: api_inv_def)
    qed (use res(2) [OF cl] is_run_new [of ?copts e ?k n] in \<open>simp_all add: conn_of_def split: option.split\<close>)
    ultimately have "api_inv e ?s" using res(1) by (simp add: api_inv_def)
    then show ?thesis using x Some c addr cc cl by (simp add: connx_client_new_def Let_def)
  qed
qed

lemma api_inv_client_destroy:
  assumes i: "api_inv e s" and k: "client_ok s (Some k)"
  shows "ok_result e (connx_client_destroy (Some k) s)"
proof -
  obtain cl where cl: "h_clients s k = Some cl" using k by (auto simp: client_ok_def alive_def)
  obtain c where c: "impl_connection (cl_impl cl) = Some c" "is_run e k c"
    using i cl unfolding api_inv_def connections_run_def by (metis conn_of_def option.distinct(1) option.exhaust option.simps(5))
  have oc: "\<not> owner_closing c" using k cl c by (simp add: client_ok_def conn_of_def)
  obtain gone l where g: "ReleaseClient False (Some (cl_impl cl)) (h_library s) = (gone, l)" by fastforce
  have r: "library_ok l" "gone = Some (app_call_outside AppRelease c)" using ReleaseClient_result [OF _ g] i c by (simp_all add: api_inv_def)
  let ?re = "\<lparr>re_connection = app_call_outside AppRelease c, re_codec = cl_codec cl\<rparr>"
  let ?s = "s\<lparr>h_library := l, h_clients := (h_clients s)(k := None), h_released := (h_released s)(k \<mapsto> ?re)\<rparr>"
  have rel: "h_released s k = None" by (rule numbered_released [OF api_inv_owned(3) [OF i] cl])
  have "owns ?s = (owns s)(By_client k := None, By_released k := owns s (By_client k))"
    by (rule owns_eqI) (simp_all add: owns_simps cl)
  then have "codecs_owned ?s"
    using exclusive_move [of _ "owns s" "By_released k" "By_client k"] api_inv_owned(1) [OF i] rel by (simp add: codecs_owned_def owns_simps)
  moreover have "texts_owned ?s" using texts_owned_cong [of ?s s] api_inv_owned(2) [OF i] by simp
  moreover have "numbered ?s"
    using api_inv_owned(3) [OF i] numberedD(5) [OF api_inv_owned(3) [OF i], of k] cl by (auto simp: numbered_def)
  moreover have "connections_run e ?s"
  proof (rule connections_run_upd [where k = k])
    show "connections_run e s" using i by (simp add: api_inv_def)
  qed (use is_run_call [OF c(2) oc, of AppRelease] in \<open>simp_all add: conn_of_def split: option.split\<close>)
  ultimately have "api_inv e ?s" using r(1) by (simp add: api_inv_def)
  then show ?thesis using cl g r(2) by (simp add: connx_client_destroy_def)
qed

lemma api_inv_released:
  assumes i: "api_inv e s" and re: "h_released s k = Some re" and c: "is_run e k c"
  shows "api_inv e (s\<lparr>h_released := (h_released s)(k \<mapsto> re\<lparr>re_connection := c\<rparr>)\<rparr>)"
proof -
  let ?s = "s\<lparr>h_released := (h_released s)(k \<mapsto> re\<lparr>re_connection := c\<rparr>)\<rparr>"
  have "owns ?s = owns s" by (rule owns_eqI) (use re in \<open>simp_all add: owns_simps\<close>)
  then have "codecs_owned ?s" using codecs_owned_cong [of ?s s] api_inv_owned(1) [OF i] by simp
  moreover have "texts_owned ?s" using texts_owned_cong [of ?s s] api_inv_owned(2) [OF i] by simp
  moreover have cl: "h_clients s k = None" using numbered_released [OF api_inv_owned(3) [OF i], of k] re by (cases "h_clients s k") auto
  then have "numbered ?s" using api_inv_owned(3) [OF i] re by (auto simp: numbered_def)
  moreover have "connections_run e ?s"
  proof (rule connections_run_upd [where k = k])
    show "connections_run e s" using i by (simp add: api_inv_def)
  qed (use c cl in \<open>simp_all add: conn_of_def split: option.split\<close>)
  ultimately show ?thesis using i by (simp add: api_inv_def)
qed

lemma api_inv_lib_step:
  assumes i: "api_inv e s" and ok: "\<And>c. conn_of s k = Some c \<Longrightarrow> input_ok inp c"
  shows "api_inv e (lib_step e k inp s)"
proof (cases "h_clients s k")
  case (Some cl)
  then obtain c where c: "impl_connection (cl_impl cl) = Some c" "is_run e k c"
    using i unfolding api_inv_def connections_run_def by (metis conn_of_def option.distinct(1) option.exhaust option.simps(5))
  then have "is_run e k (step e inp c)" using is_run_step ok Some by (simp add: conn_of_def)
  moreover obtain im where im: "ad_impl (cl_impl cl) = Some im" "im_connection im = Some c"
    using c(1) by (auto simp: impl_connection_def split: option.splits)
  moreover have "impl_connection ((cl_impl cl)\<lparr>ad_impl := Some (im\<lparr>im_connection := Some (step e inp c)\<rparr>)\<rparr>) = Some (step e inp c)"
    by (simp add: impl_connection_def)
  ultimately show ?thesis using api_inv_impl [OF i Some] Some by (simp add: lib_step_def)
next
  case None
  show ?thesis
  proof (cases "h_released s k")
    case rel: None
    then have "(h_released s)(k := None) = h_released s" by auto
    then show ?thesis using None rel i by (simp add: lib_step_def)
  next
    case (Some re)
    then have c: "conn_of s k = Some (re_connection re)" using None by (simp add: conn_of_def)
    then have "is_run e k (re_connection re)" using i by (simp add: api_inv_def connections_run_def)
    then have "is_run e k (step e inp (re_connection re))" using is_run_step ok c by blast
    then show ?thesis using api_inv_released [OF i Some] None Some by (simp add: lib_step_def)
  qed
qed

lemma api_inv_gone:
  assumes i: "api_inv e s"
  shows "ok_result e (connection_gone k s)"
proof (cases "h_released s k")
  case None
  then show ?thesis using i by (simp add: connection_gone_def)
next
  case (Some re)
  then have "owns s (By_released k) = re_codec re" by (simp add: owns_simps)
  with api_inv_owned(1) [OF i] obtain f where f: "delete_codec (re_codec re) s = Inr (s\<lparr>h_codecs := f\<rparr>)"
      "exclusive (\<lambda>p. f p \<noteq> None) ((owns s)(By_released k := None))" "\<forall>p. h_codecs s p = None \<longrightarrow> f p = None"
    by (rule delete_codec_owned)
  let ?s = "s\<lparr>h_codecs := f, h_released := (h_released s)(k := None)\<rparr>"
  have "owns ?s = (owns s)(By_released k := None)" by (rule owns_eqI) (simp_all add: owns_simps)
  then have "codecs_owned ?s" using f(2) by (simp add: codecs_owned_def)
  moreover have "texts_owned ?s" using texts_owned_cong [of ?s s] api_inv_owned(2) [OF i] by simp
  moreover have "numbered ?s" using api_inv_owned(3) [OF i] f(3) by (simp add: numbered_def)
  moreover have cl: "h_clients s k = None" using numbered_released [OF api_inv_owned(3) [OF i], of k] Some by (cases "h_clients s k") auto
  moreover have "connections_run e ?s"
  proof (rule connections_run_upd [where k = k])
    show "connections_run e s" using i by (simp add: api_inv_def)
  qed (use cl in \<open>simp_all add: conn_of_def split: option.split\<close>)
  ultimately have "api_inv e ?s" using i by (simp add: api_inv_def)
  then show ?thesis using f(1) Some i by (simp add: connection_gone_def)
qed

section \<open>Sequences of calls\<close>

lemma api_inv_codec_new: "api_inv e s \<Longrightarrow> ok_result e (drop_result (codec_new k s))"
  using api_inv_new_codec
  by (cases k) (auto simp: connx_codec_new_delimiter_def connx_codec_new_fixed_length_def connx_codec_new_length_field_def
      connx_codec_new_callback_def split: option.split)

lemma only_calls_status: "only_calls ad (snd (status r)) = only_calls ad (snd r)"
  by (simp add: status_def)

lemma api_inv_exec:
  assumes i: "api_inv e s" and ok: "call_ok c s"
  shows "ok_result e (api_exec e c s)"
proof (cases c)
  case (C_handler_new h)
  then show ?thesis using api_inv_handlers [OF i, of "h_next s + 1"] by (simp add: connx_client_handler_new_def)
next
  case (C_handler_destroy h)
  then show ?thesis
    using ok i api_inv_handlers [OF i, of "h_next s"]
    by (cases h) (auto simp: connx_client_handler_destroy_def dest: alive_Some)
next
  case (C_codec_destroy w)
  then show ?thesis using ok i api_inv_codec_destroy by (cases w) (auto simp: connx_codec_destroy_def dest: alive_Some)
next
  case (C_options_destroy j)
  then show ?thesis using ok i api_inv_options_destroy by (cases j) (auto simp: connx_client_options_destroy_def dest: alive_Some)
next
  case (C_set_codec j w)
  then show ?thesis
    using ok i api_inv_set_codec by (cases j; cases w) (auto simp: connx_client_options_set_codec_def dest!: alive_Some)
next
  case (C_set_local_address sm alloc j a)
  then show ?thesis
    using ok i api_inv_set_local_address by (cases j) (auto simp: connx_client_options_set_local_address_def dest: alive_Some)
next
  case (C_set_tcp f j)
  then show ?thesis using ok i api_inv_set_tcp by (cases j) (auto simp: set_tcp_def dest: alive_Some)
next
  case (C_client_new a n h j)
  then show ?thesis
    using ok i api_inv_client_new by (cases h; cases j) (auto simp: connx_client_new_def dest!: alive_Some)
next
  case (C_client_destroy k)
  then show ?thesis using ok i api_inv_client_destroy by (cases k) (auto simp: connx_client_destroy_def)
next
  case (C_connect R m k h)
  have "ok_result e (drop_result (on_client (- 1) (\<lambda>ad. status (ClientAdaptor_Connect R m h ad)) k s))"
    by (rule api_inv_on_client [OF i]) (use ok C_connect only_calls_adaptor(1) in \<open>simp_all add: only_calls_status\<close>)
  then show ?thesis using C_connect i by (simp add: connx_client_connect_def)
next
  case (C_connect_ip_port R m alloc k ip port)
  have "ok_result e (drop_result (on_client (- 1) (\<lambda>ad. status (ClientAdaptor_Connect_ip_port R m alloc ip port ad)) k s))"
    by (rule api_inv_on_client [OF i]) (use ok C_connect_ip_port only_calls_adaptor(2) in \<open>simp_all add: only_calls_status\<close>)
  then show ?thesis using C_connect_ip_port i by (simp add: connx_client_connect_ip_port_def)
next
  case (C_disconnect k)
  have "ok_result e (drop_result (on_client () (\<lambda>ad. ((), ClientAdaptor_Disconnect ad)) k s))"
    by (rule api_inv_on_client [OF i]) (use ok C_disconnect only_calls_adaptor(3) in \<open>simp_all add: only_calls_status\<close>)
  then show ?thesis using C_disconnect i by (simp add: connx_client_disconnect_def)
next
  case (C_send k data)
  have "ok_result e (drop_result (on_client (- 1) (\<lambda>ad. status (ClientAdaptor_SendBuffer data ad)) k s))"
    by (rule api_inv_on_client [OF i]) (use ok C_send only_calls_adaptor(4) in \<open>simp_all add: only_calls_status\<close>)
  then show ?thesis using C_send i by (simp add: connx_client_send_buffer_def)
next
  case (C_library q)
  then show ?thesis using api_inv_library [OF i] library_ok_step i by (simp add: api_inv_def)
next
  case (Lib_step k inp)
  have "api_inv e (lib_step e k inp s)" by (rule api_inv_lib_step [OF i]) (use ok Lib_step in simp)
  then show ?thesis using Lib_step by simp
qed (use i api_inv_codec_new api_inv_options_new api_inv_gone in simp_all)

lemma api_inv_new: "api_inv e c_api_new"
  using library_ok_new
  by (auto simp: api_inv_def c_api_new_def codecs_owned_def texts_owned_def exclusive_def owns_def owns_text_def numbered_def
      connections_run_def conn_of_def split: owner.splits)

lemma api_inv_run: "api_inv e s \<Longrightarrow> calls_ok e cs s \<Longrightarrow> ok_result e (run_api e cs s)"
proof (induction cs arbitrary: s)
  case (Cons c cs)
  have "ok_result e (api_exec e c s)" using api_inv_exec Cons.prems by simp
  then show ?case using Cons by (cases "api_exec e c s") auto
qed simp

section \<open>Properties\<close>


definition client_env :: env where
  "client_env = \<lparr>app = (\<lambda>_. []), FormatErrorMessage = (\<lambda>_. []), string_to_sockaddr = (\<lambda>_. None), size_max = SIZE_MAX64, fresh_byte = (\<lambda>_. 0)\<rparr>"

text \<open>A sequence of calls that creates a client with a codec and a local address.\<close>

definition sample_calls :: "api_call list" where
  "sample_calls =
     [C_handler_new \<lparr>has_on_connected = True, has_on_connect_failed = False, has_on_closed = True, has_on_message = True\<rparr>,
      C_codec_new (K_delimiter 10), C_options_new, C_set_local_address 1000 True (Some 3) (Some ''10.0.0.1''),
      C_set_codec (Some 3) (Some 1)]"

definition sample_heap :: c_api where
  "sample_heap = c_api_new\<lparr>h_next := 5, h_codecs := (\<lambda>_. None)(2 \<mapsto> Delimiter \<lparr>delimiter = 10\<rparr>), h_strings := (\<lambda>_. None)(4 \<mapsto> ''10.0.0.1''),
     h_wrappers := (\<lambda>_. None)(1 \<mapsto> None),
     h_options := (\<lambda>_. None)(3 \<mapsto> \<lparr>o_codec = Some 2, o_tcp = TcpOptions_new, o_local_address = Some 4, local_address_copy = Some 4\<rparr>),
     h_handlers := (\<lambda>_. None)(0 \<mapsto> \<lparr>has_on_connected = True, has_on_connect_failed = False, has_on_closed = True, has_on_message = True\<rparr>)\<rparr>"

lemma sample_calls_run: "run_api e sample_calls c_api_new = Inr sample_heap" "calls_ok e sample_calls c_api_new"
  by (simp_all add: sample_calls_def sample_heap_def c_api_new_def connx_client_handler_new_def connx_codec_new_delimiter_def new_codec_def
      connx_client_options_new_def connx_client_options_set_local_address_def connx_client_options_set_codec_def free_string_def
      delete_codec_def connx_strdup_def alive_def Let_def del: One_nat_def)



lemma sample_client_new:
  "\<exists>s1. connx_client_new sample_answers client_net (Some 0) (Some 3) sample_heap = Inr (Some 5, s1) \<and>
     run_api e (sample_calls @ [C_client_new sample_answers client_net (Some 0) (Some 3)]) c_api_new = Inr s1 \<and>
     calls_ok e (sample_calls @ [C_client_new sample_answers client_net (Some 0) (Some 3)]) c_api_new \<and> h_clients s1 5 \<noteq> None"
proof -
  let ?copts = "\<lparr>codec = Some (Delimiter \<lparr>delimiter = 10\<rparr>), tcp = TcpOptions_new, local_address = Some ''10.0.0.1''\<rparr>"
  have "fst (LibraryInit sample_answers library_new)"
    by (simp add: LibraryInit_def library_new_def GlobalRuntime_Start_def GlobalRuntime_new_def sample_answers_def
        Start_def WorkerPool_new_def list_all_iff Let_def)
  then have "\<exists>ad l. CreateClient sample_answers 5 client_net True ?copts library_new = (Some ad, l)"
    by (cases "LibraryInit sample_answers library_new")
      (simp add: CreateClient_def ClientAdaptor_new_def LibraryInitService_new_def ad_initialized_def)
  then obtain s1 where s1: "connx_client_new sample_answers client_net (Some 0) (Some 3) sample_heap = Inr (Some 5, s1)" "h_clients s1 5 \<noteq> None"
    by (auto simp: connx_client_new_def sample_heap_def c_api_new_def Let_def)
  have app: "run_api e (cs @ ds) s = try_bind (run_api e cs s) (run_api e ds)" for cs ds s
  proof (induction cs arbitrary: s)
    case (Cons c cs)
    then show ?case by (cases "api_exec e c s") simp_all
  qed simp
  have ok: "calls_ok e (cs @ ds) s" if "calls_ok e cs s" "run_api e cs s = Inr t" "calls_ok e ds t" for cs ds s t
    using that
  proof (induction cs arbitrary: s)
    case (Cons c cs)
    then show ?case by (cases "api_exec e c s") simp_all
  qed simp
  have "call_ok (C_client_new sample_answers client_net (Some 0) (Some 3)) sample_heap" by (simp add: alive_def sample_heap_def)
  then show ?thesis using s1 sample_calls_run [of e] ok [OF sample_calls_run(2,1)] by (simp add: app)
qed


text \<open>
  C31: A client keeps a pointer to freed memory: when its options carry a local address and are
  destroyed after the client was created, as the interface allows, the pointer that the
  client's connection will use to bind its socket refers to the text that was freed with the
  options.
\<close>

theorem local_address_dangles:
  assumes "calls_ok e cs c_api_new" "run_api e cs c_api_new = Inr s"
    and "h_options s j = Some x" "o_local_address x = Some p"
    and "connx_client_new a n (Some h) (Some j) s = Inr (Some k, s1)"
  shows "\<exists>s2 cl. connx_client_options_destroy (Some j) s1 = Inr s2 \<and> h_clients s2 k = Some cl \<and>
    cl_local_address cl = Some p \<and> h_strings s2 p = None"
proof -
  have i: "api_inv e s" using api_inv_run [OF api_inv_new assms(1)] assms(2) by simp
  have lo: "local_address_copy x = Some p" using api_inv_owned(2) [OF i] assms(3,4) by (simp add: texts_owned_def)
  then have "h_strings s p \<noteq> None"
    using api_inv_owned(2) [OF i] assms(3) unfolding texts_owned_def exclusive_def owns_text_def by (metis option.simps(5))
  then obtain t where t: "h_strings s p = Some t" by blast
  obtain q c ad l where r: "o_codec x = Some q" "h_codecs s q = Some c"
    "s1 = s\<lparr>h_next := h_next s + 1, h_library := l, h_clients := (h_clients s)(k \<mapsto> \<lparr>cl_impl = ad, cl_handler = h, cl_codec = Some q,
       cl_local_address = Some p\<rparr>), h_options := (h_options s)(j \<mapsto> x\<lparr>o_codec := None\<rparr>)\<rparr>"
    using assms(3-5) t by (auto simp: connx_client_new_def deref_def Let_def split: option.splits prod.splits)
  show ?thesis using r(3) lo t by (simp add: connx_client_options_destroy_def free_string_def delete_codec_def)
qed

theorem local_address_dangles_witness:
  "\<exists>s1 s2 cl. connx_client_new sample_answers client_net (Some 0) (Some 3) sample_heap = Inr (Some 5, s1) \<and>
     connx_client_options_destroy (Some 3) s1 = Inr s2 \<and> h_clients s2 5 = Some cl \<and> cl_local_address cl = Some 4 \<and> h_strings s2 4 = None"
proof -
  obtain s1 where s1: "connx_client_new sample_answers client_net (Some 0) (Some 3) sample_heap = Inr (Some 5, s1)"
    using sample_client_new [of client_env] by blast
  have x: "h_options sample_heap 3 = Some \<lparr>o_codec = Some 2, o_tcp = TcpOptions_new, o_local_address = Some 4, local_address_copy = Some 4\<rparr>"
    by (simp add: sample_heap_def)
  have "o_local_address \<lparr>o_codec = Some 2, o_tcp = TcpOptions_new, o_local_address = Some 4, local_address_copy = Some 4\<rparr> = Some 4" by simp
  from local_address_dangles [OF sample_calls_run(2,1) x this s1] s1 show ?thesis by blast
qed

end
