(* ===== verification/Pollers.thy ===== *)
theory Pollers
  imports Texts Client_Connection
begin

text \<open>
  The pollers of Linux and macOS (src/net/poller_linux.cc on epoll, src/net/poller_kqueue.cc
  on kqueue). What the kernel does is modelled as documented: an epoll set maps descriptors
  to an event mask and a 64-bit tag, a kqueue maps pairs of a descriptor and a filter to a
  flag and a tag; any call can be refused, by the next entry of a script in the state. Which
  events a wait returns is an argument. Both pollers are shown to fulfil the same contract,
  a map from descriptors to connection ids and interests.
\<close>

section \<open>The contract of a poller\<close>

datatype poller_op = PAdd int ConnectionId u32 | PModify int ConnectionId u32 | PRemove int

fun op_fd :: "poller_op \<Rightarrow> int" where
  "op_fd (PAdd f cid i) = f"
| "op_fd (PModify f cid i) = f"
| "op_fd (PRemove f) = f"

text \<open>The interests that the callers pass.\<close>

definition interest_wf :: "u32 \<Rightarrow> bool" where
  "interest_wf i \<longleftrightarrow> i = 0 \<or> i = kPollReadable \<or> i = kPollWritable \<or> i = kPollReadable OR kPollWritable"

fun op_wf :: "poller_op \<Rightarrow> bool" where
  "op_wf (PAdd f cid i) \<longleftrightarrow> interest_wf i"
| "op_wf (PModify f cid i) \<longleftrightarrow> interest_wf i"
| "op_wf (PRemove f) \<longleftrightarrow> True"

fun spec_op :: "poller_op \<Rightarrow> (int \<Rightarrow> (ConnectionId \<times> u32) option) \<Rightarrow> int \<Rightarrow> (ConnectionId \<times> u32) option" where
  "spec_op (PAdd f cid i) m = m(f \<mapsto> (cid, i))"
| "spec_op (PModify f cid i) m = m(f \<mapsto> (cid, i))"
| "spec_op (PRemove f) m = m(f := None)"

type_synonym 's poller_call = "int \<Rightarrow> ConnectionId \<Rightarrow> u32 \<Rightarrow> 's \<Rightarrow> bool \<times> 's"

fun poller_exec :: "'s poller_call \<Rightarrow> 's poller_call \<Rightarrow> (int \<Rightarrow> 's \<Rightarrow> 's) \<Rightarrow> poller_op \<Rightarrow> 's \<Rightarrow> bool \<times> 's" where
  "poller_exec add modify remove (PAdd f cid i) s = add f cid i s"
| "poller_exec add modify remove (PModify f cid i) s = modify f cid i s"
| "poller_exec add modify remove (PRemove f) s = (True, remove f s)"

fun poller_run :: "'s poller_call \<Rightarrow> 's poller_call \<Rightarrow> (int \<Rightarrow> 's \<Rightarrow> 's) \<Rightarrow> poller_op list \<Rightarrow> 's \<Rightarrow> bool list \<times> 's" where
  "poller_run add modify remove [] s = ([], s)"
| "poller_run add modify remove (q # qs) s =
     (case poller_exec add modify remove q s of (r, s) \<Rightarrow>
        (case poller_run add modify remove qs s of (rs, s) \<Rightarrow> (r # rs, s)))"

text \<open>
  The laws: a successful call has the effect of the specification, a refused one changes at
  most its own descriptor. \<open>usable\<close> says of a descriptor that it is not one of the poller's own.
\<close>

locale poller =
  fixes regs :: "'s \<Rightarrow> int \<Rightarrow> (ConnectionId \<times> u32) option"
    and inv :: "'s \<Rightarrow> bool"
    and usable :: "'s \<Rightarrow> int \<Rightarrow> bool"
    and add :: "'s poller_call"
    and modify :: "'s poller_call"
    and remove :: "int \<Rightarrow> 's \<Rightarrow> 's"
  assumes exec_keeps: "inv s \<Longrightarrow> op_wf q \<Longrightarrow> usable s (op_fd q) \<Longrightarrow> poller_exec add modify remove q s = (r, s') \<Longrightarrow>
      inv s' \<and> usable s' = usable s"
    and exec_done: "inv s \<Longrightarrow> op_wf q \<Longrightarrow> usable s (op_fd q) \<Longrightarrow> poller_exec add modify remove q s = (True, s') \<Longrightarrow>
      regs s' = spec_op q (regs s)"
    and exec_refused: "inv s \<Longrightarrow> op_wf q \<Longrightarrow> usable s (op_fd q) \<Longrightarrow> poller_exec add modify remove q s = (False, s') \<Longrightarrow>
      f \<noteq> op_fd q \<Longrightarrow> regs s' f = regs s f"
begin

lemma spec_op_other: "f \<noteq> op_fd q \<Longrightarrow> spec_op q m f = m f"
  by (cases q) simp_all

lemma spec_op_cong: "m f = m' f \<Longrightarrow> spec_op q m f = spec_op q m' f"
  by (cases q) simp_all

lemma fold_spec_cong: "m f = m' f \<Longrightarrow> fold spec_op qs m f = fold spec_op qs m' f"
proof (induction qs arbitrary: m m')
  case (Cons q qs)
  then show ?case using spec_op_cong by (metis fold_simps(2))
qed simp

lemma run_regs:
  assumes "inv s" "list_all op_wf qs" "list_all (\<lambda>q. usable s (op_fd q)) qs" "poller_run add modify remove qs s = (rs, s')"
  shows "inv s' \<and> length rs = length qs \<and>
    (\<forall>f. (\<forall>(q, r) \<in> set (zip qs rs). op_fd q = f \<longrightarrow> r) \<longrightarrow> regs s' f = fold spec_op qs (regs s) f)"
  using assms
proof (induction qs arbitrary: s rs)
  case (Cons q qs)
  obtain r s1 where e: "poller_exec add modify remove q s = (r, s1)" by fastforce
  obtain rs1 where rs: "poller_run add modify remove qs s1 = (rs1, s')" "rs = r # rs1"
    using Cons.prems(4) e by (auto split: prod.splits)
  have k: "inv s1" "usable s1 = usable s" using exec_keeps [OF _ _ _ e] Cons.prems by simp_all
  then have i: "inv s' \<and> length rs1 = length qs \<and>
    (\<forall>f. (\<forall>(q, r) \<in> set (zip qs rs1). op_fd q = f \<longrightarrow> r) \<longrightarrow> regs s' f = fold spec_op qs (regs s1) f)"
    using Cons.IH [OF k(1) _ _ rs(1)] Cons.prems by simp
  have "regs s' f = fold spec_op (q # qs) (regs s) f" if f: "\<forall>(q, r) \<in> set (zip (q # qs) rs). op_fd q = f \<longrightarrow> r" for f
  proof -
    have "regs s1 f = spec_op q (regs s) f"
    proof (cases r)
      case True
      then show ?thesis using exec_done [of s q s1] e Cons.prems by simp
    next
      case False
      then have "f \<noteq> op_fd q" using f rs(2) by auto
      then show ?thesis using exec_refused [of s q s1 f] e False Cons.prems spec_op_other by simp
    qed
    then show ?thesis using i f rs(2) fold_spec_cong [of "regs s1" f] by simp
  qed
  then show ?case using i rs(2) by simp
qed simp

end

text \<open>
  The poller that the model of a connection uses, in which a refused call changes nothing, fulfils
  the contract, so that it stands for each of the pollers below.
\<close>

definition accepted_call :: "int option \<times> net \<Rightarrow> bool \<times> net" where
  "accepted_call r = (fst r = None, snd r)"

lemma net_poller_exec:
  assumes "poller_exec (\<lambda>f cid i n. accepted_call (Poller_Add f cid i n)) (\<lambda>f cid i n. accepted_call (Poller_Modify f cid i n))
    Poller_Remove q n = (r, n')"
  shows "poll_regs n' = (if r then spec_op q (poll_regs n) else poll_regs n)"
  using assms by (cases q) (auto simp: accepted_call_def Poller_Add_def Poller_Modify_def Poller_Remove_def split: prod.splits)

interpretation net_poller: poller poll_regs "\<lambda>n. True" "\<lambda>n f. True"
  "\<lambda>f cid i n. accepted_call (Poller_Add f cid i n)" "\<lambda>f cid i n. accepted_call (Poller_Modify f cid i n)" Poller_Remove
  by unfold_locales (simp_all add: net_poller_exec)

section \<open>The epoll poller\<close>

definition EPOLLIN :: u32 where
  "EPOLLIN = 0x001"

definition EPOLLOUT :: u32 where
  "EPOLLOUT = 0x004"

definition EPOLLERR :: u32 where
  "EPOLLERR = 0x008"

definition EPOLLHUP :: u32 where
  "EPOLLHUP = 0x010"

definition EPOLLRDHUP :: u32 where
  "EPOLLRDHUP = 0x2000"

definition ECONNRESET :: int where
  "ECONNRESET = 104"

definition kMaxEvents :: nat where
  "kMaxEvents = 256"

definition ToEpollEvents :: "u32 \<Rightarrow> u32" where
  "ToEpollEvents interest =
     EPOLLRDHUP OR (if interest AND kPollReadable \<noteq> 0 then EPOLLIN else 0)
                OR (if interest AND kPollWritable \<noteq> 0 then EPOLLOUT else 0)"

text \<open>
  The poller and the kernel objects behind its descriptors: the open descriptors, the epoll
  set, the counter of the event descriptor, and which further calls are refused.
\<close>

record EpollPoller =
  poll_fd :: int
  wake_fd :: int
  ep_open :: "int list"
  ep_set :: "int \<Rightarrow> (u32 \<times> u64) option"
  ep_counter :: nat
  ep_refuse :: "bool list"

definition EpollPoller_new :: "bool list \<Rightarrow> EpollPoller" where
  "EpollPoller_new refuse =
     \<lparr>poll_fd = - 1, wake_fd = - 1, ep_open = [], ep_set = (\<lambda>_. None), ep_counter = 0, ep_refuse = refuse\<rparr>"

definition ep_close :: "int \<Rightarrow> EpollPoller \<Rightarrow> EpollPoller" where
  "ep_close f p = p\<lparr>ep_open := removeAll f (ep_open p)\<rparr>"

definition close_poll_fd :: "EpollPoller \<Rightarrow> EpollPoller" where
  "close_poll_fd p = (if 0 \<le> poll_fd p then (ep_close (poll_fd p) p)\<lparr>poll_fd := - 1, ep_set := (\<lambda>_. None)\<rparr> else p)"

definition close_wake_fd :: "EpollPoller \<Rightarrow> EpollPoller" where
  "close_wake_fd p = (if 0 \<le> wake_fd p then (ep_close (wake_fd p) p)\<lparr>wake_fd := - 1\<rparr> else p)"

text \<open>The kernel's \<open>epoll_ctl\<close>.\<close>

definition refused :: "EpollPoller \<Rightarrow> bool \<times> EpollPoller" where
  "refused p = (case next_answer False (ep_refuse p) of (r, rest) \<Rightarrow> (r \<or> poll_fd p < 0, p\<lparr>ep_refuse := rest\<rparr>))"

definition epoll_add :: "int \<Rightarrow> u32 \<times> u64 \<Rightarrow> EpollPoller \<Rightarrow> bool \<times> EpollPoller" where
  "epoll_add f ev p =
     (case refused p of (r, p) \<Rightarrow>
        if r \<or> f < 0 \<or> ep_set p f \<noteq> None then (False, p) else (True, p\<lparr>ep_set := (ep_set p)(f \<mapsto> ev)\<rparr>))"

definition epoll_mod :: "int \<Rightarrow> u32 \<times> u64 \<Rightarrow> EpollPoller \<Rightarrow> bool \<times> EpollPoller" where
  "epoll_mod f ev p =
     (case refused p of (r, p) \<Rightarrow>
        if r \<or> f < 0 \<or> ep_set p f = None then (False, p) else (True, p\<lparr>ep_set := (ep_set p)(f \<mapsto> ev)\<rparr>))"

text \<open>The answers to the calls of \<open>Init\<close>, a descriptor or an error number.\<close>

record epoll_answers =
  an_create1 :: "int + int"
  an_create :: "int + int"
  an_cloexec :: "int option"
  an_eventfd :: "int + int"
  an_ctl :: "int option"

text \<open>The descriptor of \<open>epoll_create1\<close>, or of \<open>epoll_create\<close> with the flag set by hand.\<close>

definition open_epoll :: "epoll_answers \<Rightarrow> EpollPoller \<Rightarrow> (int \<times> string) option \<times> EpollPoller" where
  "open_epoll a p =
     (case an_create1 a of
        Inr f \<Rightarrow> (None, p\<lparr>poll_fd := f, ep_open := f # ep_open p\<rparr>)
      | Inl e \<Rightarrow>
          (case an_create a of
             Inl err \<Rightarrow> (Some (err, ''epoll_create''), p\<lparr>poll_fd := - 1\<rparr>)
           | Inr f \<Rightarrow>
               let p = p\<lparr>poll_fd := f, ep_open := f # ep_open p\<rparr>
               in case an_cloexec a of
                    Some err \<Rightarrow> (Some (err, ''fcntl(epoll)''), close_poll_fd p)
                  | None \<Rightarrow> (None, p)))"

definition EpollPoller_Init :: "epoll_answers \<Rightarrow> EpollPoller \<Rightarrow> (int \<times> string) option \<times> EpollPoller" where
  "EpollPoller_Init a p =
     (if 0 \<le> poll_fd p then (None, p)
      else case open_epoll a p of
             (Some err, p) \<Rightarrow> (Some err, p)
           | (None, p) \<Rightarrow>
               (case an_eventfd a of
                  Inl err \<Rightarrow> (Some (err, ''eventfd''), close_poll_fd (p\<lparr>wake_fd := - 1\<rparr>))
                | Inr f \<Rightarrow>
                    let p = p\<lparr>wake_fd := f, ep_open := f # ep_open p, ep_counter := 0\<rparr>
                    in case an_ctl a of
                         Some err \<Rightarrow> (Some (err, ''epoll_ctl(wake)''), close_poll_fd (close_wake_fd p))
                       | None \<Rightarrow> (None, p\<lparr>ep_set := (ep_set p)(f \<mapsto> (EPOLLIN, 0))\<rparr>)))"

definition EpollPoller_Shutdown :: "EpollPoller \<Rightarrow> EpollPoller" where
  "EpollPoller_Shutdown p = close_poll_fd (close_wake_fd p)"

definition EpollPoller_Add :: "int \<Rightarrow> ConnectionId \<Rightarrow> u32 \<Rightarrow> EpollPoller \<Rightarrow> bool \<times> EpollPoller" where
  "EpollPoller_Add f cid interest p = epoll_add f (ToEpollEvents interest, ToUint64 cid) p"

definition EpollPoller_Modify :: "int \<Rightarrow> ConnectionId \<Rightarrow> u32 \<Rightarrow> EpollPoller \<Rightarrow> bool \<times> EpollPoller" where
  "EpollPoller_Modify f cid interest p = epoll_mod f (ToEpollEvents interest, ToUint64 cid) p"

definition EpollPoller_Remove :: "int \<Rightarrow> EpollPoller \<Rightarrow> EpollPoller" where
  "EpollPoller_Remove f p = (if f < 0 \<or> poll_fd p < 0 then p else p\<lparr>ep_set := (ep_set p)(f := None)\<rparr>)"

definition EpollPoller_Wake :: "EpollPoller \<Rightarrow> EpollPoller" where
  "EpollPoller_Wake p = (if wake_fd p < 0 then p else p\<lparr>ep_counter := ep_counter p + 1\<rparr>)"

text \<open>One event of \<open>epoll_wait\<close> that is not the wake descriptor's.\<close>

definition epoll_event :: "u32 \<times> u64 \<Rightarrow> PollEvent" where
  "epoll_event ev =
     (case ev of (flags, tag) \<Rightarrow>
        let err = (flags AND EPOLLERR \<noteq> 0 \<or> flags AND EPOLLHUP \<noteq> 0 \<and> flags AND (EPOLLIN OR EPOLLOUT) = 0)
        in \<lparr>ev_id = FromUint64 tag,
            events = (if err then kPollEventError else 0)
              OR (if flags AND (EPOLLIN OR EPOLLRDHUP) \<noteq> 0 then kPollEventReadable else 0)
              OR (if flags AND EPOLLOUT \<noteq> 0 then kPollEventWritable else 0),
            error_code = (if err then ECONNRESET else 0), operation = kPollOpReady\<rparr>)"

fun wait_loop :: "(u32 \<times> u64) list \<Rightarrow> PollEvent list \<Rightarrow> EpollPoller \<Rightarrow> PollEvent list \<times> EpollPoller" where
  "wait_loop [] out p = (out, p)"
| "wait_loop (ev # evs) out p =
     (if snd ev = 0 then wait_loop evs out (p\<lparr>ep_counter := 0\<rparr>)
      else wait_loop evs (out @ [epoll_event ev]) p)"

text \<open>\<open>answer\<close> is what \<open>epoll_wait\<close> returns: an error number, or at most \<open>kMaxEvents\<close> events.\<close>

definition EpollPoller_Wait ::
  "int + (u32 \<times> u64) list \<Rightarrow> PollEvent list option \<Rightarrow> EpollPoller \<Rightarrow> int \<times> PollEvent list option \<times> EpollPoller" where
  "EpollPoller_Wait answer out p =
     (case out of
        None \<Rightarrow> (0, None, p)
      | Some evs \<Rightarrow>
          if poll_fd p < 0 then (0, Some evs, p)
          else case answer of
                 Inl err \<Rightarrow> (if err = EINTR then 0 else - 1, Some evs, p)
               | Inr got \<Rightarrow>
                   (case wait_loop (take kMaxEvents got) evs p of (evs, p) \<Rightarrow> (int (length evs), Some evs, p)))"

section \<open>The epoll poller fulfils the contract\<close>

definition interest_of :: "u32 \<Rightarrow> u32" where
  "interest_of ev = (if ev AND EPOLLIN \<noteq> 0 then kPollReadable else 0) OR (if ev AND EPOLLOUT \<noteq> 0 then kPollWritable else 0)"

definition epoll_regs :: "EpollPoller \<Rightarrow> int \<Rightarrow> (ConnectionId \<times> u32) option" where
  "epoll_regs p f = map_option (\<lambda>(ev, tag). (FromUint64 tag, interest_of ev)) (ep_set p f)"

definition epoll_open :: "EpollPoller \<Rightarrow> bool" where
  "epoll_open p \<longleftrightarrow> 0 \<le> poll_fd p"

definition epoll_usable :: "EpollPoller \<Rightarrow> int \<Rightarrow> bool" where
  "epoll_usable p f \<longleftrightarrow> 0 \<le> f \<and> f \<noteq> wake_fd p"

lemma interest_roundtrip: "interest_wf i \<Longrightarrow> interest_of (ToEpollEvents i) = i"
  by (auto simp: interest_wf_def interest_of_def ToEpollEvents_def kPollReadable_def kPollWritable_def EPOLLIN_def EPOLLOUT_def EPOLLRDHUP_def)

lemma refused_fields: "refused p = (r, p') \<Longrightarrow> poll_fd p' = poll_fd p \<and> wake_fd p' = wake_fd p \<and> ep_set p' = ep_set p"
  by (auto simp: refused_def split: prod.splits)

lemmas epoll_call_defs = EpollPoller_Add_def EpollPoller_Modify_def EpollPoller_Remove_def epoll_add_def epoll_mod_def

lemma epoll_exec_keeps:
  "poller_exec EpollPoller_Add EpollPoller_Modify EpollPoller_Remove q p = (r, p') \<Longrightarrow> poll_fd p' = poll_fd p \<and> wake_fd p' = wake_fd p"
  by (cases q) (auto simp: epoll_call_defs dest: refused_fields split: prod.splits if_splits)

lemma epoll_exec_set:
  assumes "poller_exec EpollPoller_Add EpollPoller_Modify EpollPoller_Remove q p = (r, p')" "0 \<le> poll_fd p" "0 \<le> op_fd q"
  shows "ep_set p' = (if r then (case q of PAdd f cid i \<Rightarrow> (ep_set p)(f \<mapsto> (ToEpollEvents i, ToUint64 cid))
     | PModify f cid i \<Rightarrow> (ep_set p)(f \<mapsto> (ToEpollEvents i, ToUint64 cid)) | PRemove f \<Rightarrow> (ep_set p)(f := None)) else ep_set p)"
  using assms by (cases q) (auto simp: epoll_call_defs dest: refused_fields split: prod.splits if_splits)

interpretation epoll: poller epoll_regs epoll_open epoll_usable EpollPoller_Add EpollPoller_Modify EpollPoller_Remove
proof
  fix p q r p'
  assume "poller_exec EpollPoller_Add EpollPoller_Modify EpollPoller_Remove q p = (r, p')" "epoll_open p"
  then show "epoll_open p' \<and> epoll_usable p' = epoll_usable p"
    using epoll_exec_keeps by (simp add: epoll_open_def epoll_usable_def fun_eq_iff)
next
  fix p q p'
  assume "poller_exec EpollPoller_Add EpollPoller_Modify EpollPoller_Remove q p = (True, p')" "epoll_open p" "op_wf q"
    "epoll_usable p (op_fd q)"
  then show "epoll_regs p' = spec_op q (epoll_regs p)"
    using epoll_exec_set [of q p True p']
    by (cases q) (auto simp: epoll_open_def epoll_usable_def epoll_regs_def fun_eq_iff interest_roundtrip)
next
  fix p q p' f
  assume "poller_exec EpollPoller_Add EpollPoller_Modify EpollPoller_Remove q p = (False, p')" "epoll_open p" "epoll_usable p (op_fd q)"
  then show "epoll_regs p' f = epoll_regs p f"
    using epoll_exec_set [of q p False p'] by (simp add: epoll_open_def epoll_usable_def epoll_regs_def)
qed

lemma wait_loop_eq:
  "wait_loop evs out p = (out @ map epoll_event (filter (\<lambda>ev. snd ev \<noteq> 0) evs),
     if \<exists>ev \<in> set evs. snd ev = 0 then p\<lparr>ep_counter := 0\<rparr> else p)"
  by (induction evs arbitrary: out p) auto

lemma epoll_event_bits:
  "(events (epoll_event (flags, tag)) AND kPollEventReadable \<noteq> 0 \<longleftrightarrow> flags AND (EPOLLIN OR EPOLLRDHUP) \<noteq> 0) \<and>
   (events (epoll_event (flags, tag)) AND kPollEventWritable \<noteq> 0 \<longleftrightarrow> flags AND EPOLLOUT \<noteq> 0) \<and>
   (events (epoll_event (flags, tag)) AND kPollEventError \<noteq> 0 \<longleftrightarrow>
      flags AND EPOLLERR \<noteq> 0 \<or> flags AND EPOLLHUP \<noteq> 0 \<and> flags AND (EPOLLIN OR EPOLLOUT) = 0)"
  by (simp add: epoll_event_def Let_def kPollEventReadable_def kPollEventWritable_def kPollEventError_def)

section \<open>Properties\<close>


definition sample_epoll :: EpollPoller where
  "sample_epoll = \<lparr>poll_fd = 3, wake_fd = 4, ep_open = [4, 3], ep_set = (\<lambda>_. None)(4 \<mapsto> (EPOLLIN, 0)), ep_counter = 0, ep_refuse = []\<rparr>"


text \<open>
  A wait reports exactly what the kernel reported: one event for each reported descriptor,
  in order, none for the wake descriptor, whose counter is read empty; each with the id under
  which some descriptor is registered, since no valid id has the tag of the wake descriptor;
  readable for input or a half-closed peer, writable for output space, and an error for an
  error condition or for a hang-up without anything to read or write.
\<close>

lemma epoll_wait_reports:
  assumes "0 \<le> poll_fd p" "length got \<le> kMaxEvents" "EpollPoller_Wait (Inr got) (Some []) p = (n, Some evs, p')"
    and "\<forall>(flags, tag) \<in> set got. \<exists>f mask. ep_set p f = Some (mask, tag)"
    and "\<forall>f mask tag. ep_set p f = Some (mask, tag) \<longrightarrow> (tag = 0 \<longleftrightarrow> f = wake_fd p)"
  shows "evs = map epoll_event (filter (\<lambda>ev. snd ev \<noteq> 0) got) \<and> n = int (length evs) \<and>
    (\<forall>ev \<in> set evs. \<exists>f i. f \<noteq> wake_fd p \<and> epoll_regs p f = Some (ev_id ev, i)) \<and>
    ((\<exists>ev \<in> set got. snd ev = 0) \<longrightarrow> ep_counter p' = 0) \<and>
    (\<forall>(flags, tag) \<in> set got. let ev = epoll_event (flags, tag) in
       (events ev AND kPollEventReadable \<noteq> 0 \<longleftrightarrow> flags AND (EPOLLIN OR EPOLLRDHUP) \<noteq> 0) \<and>
       (events ev AND kPollEventWritable \<noteq> 0 \<longleftrightarrow> flags AND EPOLLOUT \<noteq> 0) \<and>
       (events ev AND kPollEventError \<noteq> 0 \<longleftrightarrow>
          flags AND EPOLLERR \<noteq> 0 \<or> flags AND EPOLLHUP \<noteq> 0 \<and> flags AND (EPOLLIN OR EPOLLOUT) = 0))"
proof -
  have w: "n = int (length evs)" "evs = map epoll_event (filter (\<lambda>ev. snd ev \<noteq> 0) got)"
    "(\<exists>ev \<in> set got. snd ev = 0) \<Longrightarrow> ep_counter p' = 0"
    using assms(1-3) by (auto simp: EpollPoller_Wait_def wait_loop_eq)
  have "\<exists>f i. f \<noteq> wake_fd p \<and> epoll_regs p f = Some (ev_id ev, i)" if "ev \<in> set evs" for ev
  proof -
    obtain flags tag where e: "(flags, tag) \<in> set got" "tag \<noteq> 0" "ev = epoll_event (flags, tag)" using \<open>ev \<in> set evs\<close> w(2) by auto
    then obtain f mask where f: "ep_set p f = Some (mask, tag)" using assms(4) by blast
    then have "f \<noteq> wake_fd p" using assms(5) e(2) by blast
    then show ?thesis using f e(3) by (auto simp: epoll_regs_def epoll_event_def Let_def)
  qed
  then show ?thesis using w epoll_event_bits by (simp add: Let_def)
qed

definition sample_id :: ConnectionId where
  "sample_id = \<lparr>slot = 1, generation = 1\<rparr>"

definition sample_epoll_added :: EpollPoller where
  "sample_epoll_added = sample_epoll\<lparr>ep_set := (\<lambda>_. None)(4 \<mapsto> (EPOLLIN, 0), 7 \<mapsto> (ToEpollEvents kPollReadable, ToUint64 sample_id))\<rparr>"

lemma epoll_wait_reports_example:
  "EpollPoller_Add 7 sample_id kPollReadable sample_epoll = (True, sample_epoll_added) \<and>
   (\<exists>p'. EpollPoller_Wait (Inr [(EPOLLIN, 0), (EPOLLIN OR EPOLLHUP, ToUint64 sample_id)]) (Some []) sample_epoll_added =
     (1, Some [epoll_event (EPOLLIN OR EPOLLHUP, ToUint64 sample_id)], p') \<and> ep_counter p' = 0)"
proof
  let ?got = "[(EPOLLIN, 0), (EPOLLIN OR EPOLLHUP, ToUint64 sample_id)]" and ?p = sample_epoll_added
  show "EpollPoller_Add 7 sample_id kPollReadable sample_epoll = (True, ?p)"
    by (simp add: epoll_call_defs refused_def sample_epoll_def sample_epoll_added_def)
  have t: "ToUint64 sample_id \<noteq> 0" by (rule ToUint64_nonzero) (simp add: valid_def sample_id_def)
  have op: "0 \<le> poll_fd ?p" "length ?got \<le> kMaxEvents" by (simp_all add: sample_epoll_added_def sample_epoll_def kMaxEvents_def)
  obtain n evs p' where w: "EpollPoller_Wait (Inr ?got) (Some []) ?p = (n, Some evs, p')"
    using op(1) by (simp add: EpollPoller_Wait_def wait_loop_eq)
  have set: "ep_set ?p 4 = Some (EPOLLIN, 0)" "ep_set ?p 7 = Some (ToEpollEvents kPollReadable, ToUint64 sample_id)"
    by (simp_all add: sample_epoll_added_def)
  then have "\<forall>(flags, tag) \<in> set ?got. \<exists>f mask. ep_set ?p f = Some (mask, tag)" by auto
  moreover have "\<forall>f mask tag. ep_set ?p f = Some (mask, tag) \<longrightarrow> (tag = 0 \<longleftrightarrow> f = wake_fd ?p)"
    using t by (simp add: sample_epoll_added_def sample_epoll_def)
  ultimately have "evs = map epoll_event (filter (\<lambda>ev. snd ev \<noteq> 0) ?got) \<and> n = int (length evs) \<and>
      ((\<exists>ev \<in> set ?got. snd ev = 0) \<longrightarrow> ep_counter p' = 0)"
    using epoll_wait_reports [OF op w] by blast
  then show "\<exists>p'. EpollPoller_Wait (Inr ?got) (Some []) ?p = (1, Some [epoll_event (EPOLLIN OR EPOLLHUP, ToUint64 sample_id)], p') \<and> ep_counter p' = 0"
    using w t by simp
qed

text \<open>
  A failed initialisation of the poller leaks nothing: whatever call fails, both
  descriptors are closed again and the poller is as before. A successful one leaves exactly
  two more open descriptors with the wake descriptor registered under the tag 0, and
  \<open>Shutdown\<close> closes both.
\<close>

lemma epoll_init_closes:
  assumes "poll_fd p = - 1" "wake_fd p = - 1" "EpollPoller_Init a p = (err, p')"
    and "\<forall>f \<in> {f. an_create1 a = Inr f \<or> an_create a = Inr f \<or> an_eventfd a = Inr f}. 0 \<le> f \<and> f \<notin> set (ep_open p)"
    and "\<forall>f. an_eventfd a = Inr f \<longrightarrow> an_create1 a \<noteq> Inr f \<and> an_create a \<noteq> Inr f"
  shows "(err \<noteq> None \<longrightarrow> poll_fd p' = - 1 \<and> wake_fd p' = - 1 \<and> ep_open p' = ep_open p) \<and>
    (err = None \<longrightarrow> 0 \<le> poll_fd p' \<and> 0 \<le> wake_fd p' \<and> poll_fd p' \<noteq> wake_fd p' \<and> ep_open p' = wake_fd p' # poll_fd p' # ep_open p \<and>
       ep_set p' (wake_fd p') = Some (EPOLLIN, 0) \<and> ep_open (EpollPoller_Shutdown p') = ep_open p)"
proof -
  show ?thesis
    using assms
    by (auto simp: EpollPoller_Init_def open_epoll_def close_poll_fd_def close_wake_fd_def ep_close_def EpollPoller_Shutdown_def Let_def
        split: sum.splits option.splits if_splits)
qed

lemma epoll_init_closes_example:
  "let (err, p) = EpollPoller_Init \<lparr>an_create1 = Inl 38, an_create = Inr 3, an_cloexec = None, an_eventfd = Inl 24, an_ctl = None\<rparr>
     (EpollPoller_new [])
   in err = Some (24, ''eventfd'') \<and> ep_open p = []"
proof -
  let ?a = "\<lparr>an_create1 = Inl 38, an_create = Inr 3, an_cloexec = None, an_eventfd = Inl 24, an_ctl = None\<rparr>"
  obtain err p where i: "EpollPoller_Init ?a (EpollPoller_new []) = (err, p)" by fastforce
  then have "err = Some (24, ''eventfd'')" by (auto simp: EpollPoller_Init_def EpollPoller_new_def open_epoll_def Let_def)
  then show ?thesis using epoll_init_closes [OF _ _ i] i by (simp add: EpollPoller_new_def)
qed

end
