(* ===== verification/Kqueue_Poller.thy ===== *)
theory Kqueue_Poller
  imports Pollers
begin

text \<open>
  The poller of macOS (src/net/poller_kqueue.cc). A registration consists of two filters of
  the kernel queue, each with a flag and the tag of the connection; a call changes them one
  after the other, and stops at the first change that the kernel refuses, so that a refused
  call can have changed one of them.
\<close>

section \<open>The kernel queue\<close>

datatype kfilter = EVFILT_READ | EVFILT_WRITE

text \<open>An entry of the queue: whether it is enabled, and its tag.\<close>

record KqueuePoller =
  kq_fd :: int
  wake_read_fd :: int
  wake_write_fd :: int
  kq_open :: "int list"
  kq_set :: "int \<times> kfilter \<Rightarrow> (bool \<times> u64) option"
  kq_pipe :: nat
  kq_refuse :: "bool list"

definition KqueuePoller_new :: "bool list \<Rightarrow> KqueuePoller" where
  "KqueuePoller_new refuse =
     \<lparr>kq_fd = - 1, wake_read_fd = - 1, wake_write_fd = - 1, kq_open = [], kq_set = (\<lambda>_. None), kq_pipe = 0, kq_refuse = refuse\<rparr>"

text \<open>\<open>EV_ADD\<close> with \<open>EV_ENABLE\<close> or \<open>EV_DISABLE\<close>, and \<open>EV_DELETE\<close>.\<close>

datatype kchange = EvAdd int kfilter bool u64 | EvDelete int kfilter

fun apply_change :: "kchange \<Rightarrow> KqueuePoller \<Rightarrow> bool \<times> KqueuePoller" where
  "apply_change (EvAdd f fi enable tag) p =
     (case next_answer False (kq_refuse p) of (r, rest) \<Rightarrow>
        let p = p\<lparr>kq_refuse := rest\<rparr>
        in if r \<or> kq_fd p < 0 \<or> f < 0 then (False, p) else (True, p\<lparr>kq_set := (kq_set p)((f, fi) \<mapsto> (enable, tag))\<rparr>))"
| "apply_change (EvDelete f fi) p =
     (if kq_fd p < 0 \<or> kq_set p (f, fi) = None then (False, p) else (True, p\<lparr>kq_set := (kq_set p)((f, fi) := None)\<rparr>))"

fun kevent :: "kchange list \<Rightarrow> KqueuePoller \<Rightarrow> bool \<times> KqueuePoller" where
  "kevent [] p = (True, p)"
| "kevent (c # cs) p = (case apply_change c p of (ok, p) \<Rightarrow> if ok then kevent cs p else (False, p))"

section \<open>The operations\<close>

definition close_kq_fd :: "KqueuePoller \<Rightarrow> KqueuePoller" where
  "close_kq_fd p = (if 0 \<le> kq_fd p then p\<lparr>kq_open := removeAll (kq_fd p) (kq_open p), kq_fd := - 1, kq_set := (\<lambda>_. None)\<rparr> else p)"

definition close_wake_read :: "KqueuePoller \<Rightarrow> KqueuePoller" where
  "close_wake_read p = (if 0 \<le> wake_read_fd p then p\<lparr>kq_open := removeAll (wake_read_fd p) (kq_open p), wake_read_fd := - 1\<rparr> else p)"

definition close_wake_write :: "KqueuePoller \<Rightarrow> KqueuePoller" where
  "close_wake_write p = (if 0 \<le> wake_write_fd p then p\<lparr>kq_open := removeAll (wake_write_fd p) (kq_open p), wake_write_fd := - 1\<rparr> else p)"

record kqueue_answers =
  ka_kqueue :: "int + int"
  ka_cloexec :: "int option"
  ka_pipe :: "int + int \<times> int"
  ka_flags :: "int option"
  ka_wake :: "int option"

definition KqueuePoller_Init :: "kqueue_answers \<Rightarrow> KqueuePoller \<Rightarrow> (int \<times> string) option \<times> KqueuePoller" where
  "KqueuePoller_Init a p =
     (if 0 \<le> kq_fd p then (None, p)
      else case ka_kqueue a of
             Inl err \<Rightarrow> (Some (err, ''kqueue''), p\<lparr>kq_fd := - 1\<rparr>)
           | Inr f \<Rightarrow>
               let p = p\<lparr>kq_fd := f, kq_open := f # kq_open p\<rparr>
               in case ka_cloexec a of
                    Some err \<Rightarrow> (Some (err, ''fcntl(kqueue)''), close_kq_fd p)
                  | None \<Rightarrow>
                      (case ka_pipe a of
                         Inl err \<Rightarrow> (Some (err, ''pipe''), close_kq_fd p)
                       | Inr (rd, wr) \<Rightarrow>
                           let p = p\<lparr>wake_read_fd := rd, wake_write_fd := wr, kq_open := wr # rd # kq_open p, kq_pipe := 0\<rparr>
                           in case ka_flags a of
                                Some err \<Rightarrow> (Some (err, ''fcntl(pipe)''), close_kq_fd (close_wake_write (close_wake_read p)))
                              | None \<Rightarrow>
                                  (case ka_wake a of
                                     Some err \<Rightarrow> (Some (err, ''kevent(wake)''), close_kq_fd (close_wake_write (close_wake_read p)))
                                   | None \<Rightarrow> (None, p\<lparr>kq_set := (kq_set p)((rd, EVFILT_READ) \<mapsto> (True, 0))\<rparr>))))"

definition KqueuePoller_Shutdown :: "KqueuePoller \<Rightarrow> KqueuePoller" where
  "KqueuePoller_Shutdown p = close_kq_fd (close_wake_read (close_wake_write p))"

definition KqueuePoller_Add :: "int \<Rightarrow> ConnectionId \<Rightarrow> u32 \<Rightarrow> KqueuePoller \<Rightarrow> bool \<times> KqueuePoller" where
  "KqueuePoller_Add f cid interest p =
     kevent [EvAdd f EVFILT_READ (interest AND kPollReadable \<noteq> 0) (ToUint64 cid),
             EvAdd f EVFILT_WRITE (interest AND kPollWritable \<noteq> 0) (ToUint64 cid)] p"

definition KqueuePoller_Modify :: "int \<Rightarrow> ConnectionId \<Rightarrow> u32 \<Rightarrow> KqueuePoller \<Rightarrow> bool \<times> KqueuePoller" where
  "KqueuePoller_Modify f cid interest p = KqueuePoller_Add f cid interest p"

definition KqueuePoller_Remove :: "int \<Rightarrow> KqueuePoller \<Rightarrow> KqueuePoller" where
  "KqueuePoller_Remove f p =
     (if f < 0 \<or> kq_fd p < 0 then p else snd (kevent [EvDelete f EVFILT_READ, EvDelete f EVFILT_WRITE] p))"

definition KqueuePoller_Wake :: "KqueuePoller \<Rightarrow> KqueuePoller" where
  "KqueuePoller_Wake p = (if wake_write_fd p < 0 then p else p\<lparr>kq_pipe := kq_pipe p + 1\<rparr>)"

text \<open>An event of the kernel.\<close>

record kernel_event =
  ident :: int
  kfilt :: kfilter
  ev_error :: bool
  ev_eof :: bool
  fflags :: int
  kdata :: int
  udata :: u64

text \<open>\<open>so_error\<close> is what \<open>getsockopt\<close> tells of a descriptor; \<open>None\<close> when it fails.\<close>

definition SocketError :: "(int \<Rightarrow> int option) \<Rightarrow> int \<Rightarrow> kernel_event \<Rightarrow> int" where
  "SocketError so_error f ev =
     (if ev_error ev then kdata ev
      else if ev_eof ev \<and> fflags ev \<noteq> 0 then fflags ev
      else if 0 \<le> f then (case so_error f of None \<Rightarrow> 0 | Some err \<Rightarrow> err)
      else 0)"

definition kqueue_event :: "(int \<Rightarrow> int option) \<Rightarrow> kernel_event \<Rightarrow> PollEvent" where
  "kqueue_event so_error ev =
     (let err = (ev_error ev \<or> ev_eof ev \<and> kfilt ev = EVFILT_WRITE)
      in \<lparr>ev_id = FromUint64 (udata ev),
          events = (if err then kPollEventError else 0)
            OR (if kfilt ev = EVFILT_READ then kPollEventReadable else 0)
            OR (if kfilt ev = EVFILT_WRITE then kPollEventWritable else 0),
          error_code = (if err then SocketError so_error (ident ev) ev else 0), operation = kPollOpReady\<rparr>)"

fun kwait_loop :: "(int \<Rightarrow> int option) \<Rightarrow> kernel_event list \<Rightarrow> PollEvent list \<Rightarrow> KqueuePoller \<Rightarrow> PollEvent list \<times> KqueuePoller" where
  "kwait_loop so [] out p = (out, p)"
| "kwait_loop so (ev # evs) out p =
     (if ident ev = wake_read_fd p then kwait_loop so evs out (p\<lparr>kq_pipe := 0\<rparr>)
      else kwait_loop so evs (out @ [kqueue_event so ev]) p)"

text \<open>The timeout as seconds and nanoseconds; the poll thread passes none below 0.\<close>

definition kqueue_timeout :: "int \<Rightarrow> int \<times> int" where
  "kqueue_timeout timeout_ms = (timeout_ms div 1000, (timeout_ms mod 1000) * 1000000)"

definition KqueuePoller_Wait ::
  "(int \<Rightarrow> int option) \<Rightarrow> (int \<times> int \<Rightarrow> int + kernel_event list) \<Rightarrow> int \<Rightarrow> PollEvent list option \<Rightarrow> KqueuePoller \<Rightarrow>
     int \<times> PollEvent list option \<times> KqueuePoller" where
  "KqueuePoller_Wait so answer timeout_ms out p =
     (case out of
        None \<Rightarrow> (0, None, p)
      | Some evs \<Rightarrow>
          if kq_fd p < 0 then (0, Some evs, p)
          else case answer (kqueue_timeout timeout_ms) of
                 Inl err \<Rightarrow> (if err = EINTR then 0 else - 1, Some evs, p)
               | Inr got \<Rightarrow>
                   (case kwait_loop so (take kMaxEvents got) evs p of (evs, p) \<Rightarrow> (int (length evs), Some evs, p)))"

section \<open>The kqueue poller fulfils the contract\<close>

text \<open>A descriptor is registered when both filters are there, with the same tag.\<close>

definition kqueue_regs :: "KqueuePoller \<Rightarrow> int \<Rightarrow> (ConnectionId \<times> u32) option" where
  "kqueue_regs p f =
     (case (kq_set p (f, EVFILT_READ), kq_set p (f, EVFILT_WRITE)) of
        (Some (rd, tag), Some (wr, tag')) \<Rightarrow>
          Some (FromUint64 tag, (if rd then kPollReadable else 0) OR (if wr then kPollWritable else 0))
      | _ \<Rightarrow> None)"

definition kqueue_inv :: "KqueuePoller \<Rightarrow> bool" where
  "kqueue_inv p \<longleftrightarrow> 0 \<le> kq_fd p \<and> (\<forall>f. f \<noteq> wake_read_fd p \<longrightarrow> kq_set p (f, EVFILT_WRITE) \<noteq> None \<longrightarrow> kq_set p (f, EVFILT_READ) \<noteq> None)"

definition kqueue_usable :: "KqueuePoller \<Rightarrow> int \<Rightarrow> bool" where
  "kqueue_usable p f \<longleftrightarrow> 0 \<le> f \<and> f \<noteq> wake_read_fd p"

lemma apply_change_fields:
  "apply_change c p = (r, p') \<Longrightarrow> kq_fd p' = kq_fd p \<and> wake_read_fd p' = wake_read_fd p \<and> wake_write_fd p' = wake_write_fd p"
  by (cases c) (auto simp: Let_def split: prod.splits if_splits)

lemma kevent_fields: "kevent cs p = (r, p') \<Longrightarrow> kq_fd p' = kq_fd p \<and> wake_read_fd p' = wake_read_fd p"
proof (induction cs arbitrary: p)
  case (Cons c cs)
  then show ?case using apply_change_fields [of c p] by (auto split: prod.splits if_splits)
qed simp

text \<open>The effect of a registration: both filters, or at most the first of them.\<close>

lemma KqueuePoller_Add_set:
  assumes "KqueuePoller_Add f cid i p = (r, p')"
  defines "rd \<equiv> (kq_set p)((f, EVFILT_READ) \<mapsto> (i AND kPollReadable \<noteq> 0, ToUint64 cid))"
  shows "if r then kq_set p' = rd((f, EVFILT_WRITE) \<mapsto> (i AND kPollWritable \<noteq> 0, ToUint64 cid)) else kq_set p' = kq_set p \<or> kq_set p' = rd"
  using assms(1) unfolding rd_def by (auto simp: KqueuePoller_Add_def Let_def split: prod.splits if_splits)

lemma KqueuePoller_Remove_set:
  assumes "0 \<le> f" "kqueue_inv p" "f \<noteq> wake_read_fd p"
  shows "kq_set (KqueuePoller_Remove f p) = (kq_set p)((f, EVFILT_READ) := None, (f, EVFILT_WRITE) := None)"
proof (cases "kq_set p (f, EVFILT_READ)")
  case None
  then have w: "kq_set p (f, EVFILT_WRITE) = None" using assms unfolding kqueue_inv_def by blast
  then have "(kq_set p)((f, EVFILT_READ) := None, (f, EVFILT_WRITE) := None) = kq_set p" using None by (auto simp: fun_eq_iff)
  then show ?thesis using None assms by (simp add: KqueuePoller_Remove_def kqueue_inv_def)
next
  case (Some x)
  have "((kq_set p)((f, EVFILT_READ) := None))((f, EVFILT_WRITE) := None) = (kq_set p)((f, EVFILT_READ) := None)"
    if "kq_set p (f, EVFILT_WRITE) = None" using that by (auto simp: fun_eq_iff)
  then show ?thesis using Some assms by (auto simp: KqueuePoller_Remove_def kqueue_inv_def)
qed

lemma kevent_snd: "kq_fd (snd (kevent cs p)) = kq_fd p" "wake_read_fd (snd (kevent cs p)) = wake_read_fd p"
  using kevent_fields [of cs p] by (metis prod.collapse)+

lemma kqueue_exec_keeps:
  assumes "poller_exec KqueuePoller_Add KqueuePoller_Modify KqueuePoller_Remove q p = (r, p')"
  shows "kq_fd p' = kq_fd p \<and> wake_read_fd p' = wake_read_fd p"
proof (cases q)
  case (PRemove f)
  then have "p' = KqueuePoller_Remove f p" using assms by simp
  then show ?thesis by (simp add: KqueuePoller_Remove_def kevent_snd del: kevent.simps)
next
  case (PAdd f cid i)
  then show ?thesis using assms kevent_fields by (simp add: KqueuePoller_Add_def del: kevent.simps)
next
  case (PModify f cid i)
  then show ?thesis using assms kevent_fields by (simp add: KqueuePoller_Modify_def KqueuePoller_Add_def del: kevent.simps)
qed

lemma interest_bits: "interest_wf i \<Longrightarrow>
    (if i AND kPollReadable \<noteq> 0 then kPollReadable else 0) OR (if i AND kPollWritable \<noteq> 0 then kPollWritable else 0) = i"
  by (auto simp: interest_wf_def kPollReadable_def kPollWritable_def)

lemma kqueue_regs_cong:
  "kq_set p' (g, EVFILT_READ) = kq_set p (g, EVFILT_READ) \<Longrightarrow> kq_set p' (g, EVFILT_WRITE) = kq_set p (g, EVFILT_WRITE) \<Longrightarrow>
   kqueue_regs p' g = kqueue_regs p g"
  by (simp add: kqueue_regs_def)

lemma kqueue_add_contract:
  assumes "KqueuePoller_Add f cid i p = (r, p')" "kqueue_inv p" "interest_wf i"
  shows "kqueue_inv p' \<and> (r \<longrightarrow> kqueue_regs p' = (kqueue_regs p)(f \<mapsto> (cid, i))) \<and> (\<forall>g. g \<noteq> f \<longrightarrow> kqueue_regs p' g = kqueue_regs p g)"
proof -
  have k: "kq_fd p' = kq_fd p \<and> wake_read_fd p' = wake_read_fd p"
    using kqueue_exec_keeps [of "PAdd f cid i" p r p'] assms(1) by simp
  note set = KqueuePoller_Add_set [OF assms(1)]
  have "kqueue_inv p'" using k set assms(2) by (cases r) (auto simp: kqueue_inv_def)
  moreover have other: "kqueue_regs p' g = kqueue_regs p g" if "g \<noteq> f" for g
    by (rule kqueue_regs_cong) (use set that in \<open>auto split: if_splits\<close>)
  moreover have "kqueue_regs p' f = Some (cid, i)" if r
    using set that interest_bits [OF assms(3)] by (simp add: kqueue_regs_def)
  ultimately show ?thesis by (auto simp: fun_eq_iff)
qed

lemma kqueue_remove_contract:
  assumes "kqueue_inv p" "kqueue_usable p f"
  shows "kqueue_inv (KqueuePoller_Remove f p) \<and> kqueue_regs (KqueuePoller_Remove f p) = (kqueue_regs p)(f := None)"
proof -
  have s: "kq_set (KqueuePoller_Remove f p) = (kq_set p)((f, EVFILT_READ) := None, (f, EVFILT_WRITE) := None)"
    using KqueuePoller_Remove_set [of f p] assms by (simp add: kqueue_usable_def)
  have k: "kq_fd (KqueuePoller_Remove f p) = kq_fd p \<and> wake_read_fd (KqueuePoller_Remove f p) = wake_read_fd p"
    using kqueue_exec_keeps [of "PRemove f" p True] by simp
  have "kqueue_regs (KqueuePoller_Remove f p) g = kqueue_regs p g" if "g \<noteq> f" for g
    by (rule kqueue_regs_cong) (use s that in simp_all)
  moreover have "kqueue_regs (KqueuePoller_Remove f p) f = None" using s by (simp add: kqueue_regs_def)
  moreover have "kqueue_inv (KqueuePoller_Remove f p)" using s k assms(1) by (auto simp: kqueue_inv_def)
  ultimately show ?thesis by (auto simp: fun_eq_iff)
qed

interpretation kqueue: poller kqueue_regs kqueue_inv kqueue_usable KqueuePoller_Add KqueuePoller_Modify KqueuePoller_Remove
proof
  fix p q r p'
  assume e: "poller_exec KqueuePoller_Add KqueuePoller_Modify KqueuePoller_Remove q p = (r, p')" and i: "kqueue_inv p" "op_wf q"
    "kqueue_usable p (op_fd q)"
  have "kqueue_inv p'"
    using e i kqueue_add_contract kqueue_remove_contract by (cases q) (auto simp: KqueuePoller_Modify_def)
  then show "kqueue_inv p' \<and> kqueue_usable p' = kqueue_usable p"
    using kqueue_exec_keeps [OF e] by (simp add: kqueue_usable_def fun_eq_iff)
next
  fix p q p'
  assume e: "poller_exec KqueuePoller_Add KqueuePoller_Modify KqueuePoller_Remove q p = (True, p')" and i: "kqueue_inv p" "op_wf q"
    "kqueue_usable p (op_fd q)"
  then show "kqueue_regs p' = spec_op q (kqueue_regs p)"
    using kqueue_add_contract kqueue_remove_contract by (cases q) (auto simp: KqueuePoller_Modify_def)
next
  fix p q p' f
  assume e: "poller_exec KqueuePoller_Add KqueuePoller_Modify KqueuePoller_Remove q p = (False, p')" and i: "kqueue_inv p" "op_wf q"
    "f \<noteq> op_fd q"
  then show "kqueue_regs p' f = kqueue_regs p f"
    using kqueue_add_contract by (cases q) (auto simp: KqueuePoller_Modify_def)
qed

section \<open>Properties\<close>


definition sample_kqueue :: KqueuePoller where
  "sample_kqueue = \<lparr>kq_fd = 3, wake_read_fd = 4, wake_write_fd = 5, kq_open = [5, 4, 3],
     kq_set = (\<lambda>_. None)((4, EVFILT_READ) \<mapsto> (True, 0)), kq_pipe = 0, kq_refuse = []\<rparr>"


end
