(* ===== verification/Iocp_Poller.thy ===== *)
theory Iocp_Poller
  imports Pollers
begin

text \<open>
  The poller of Windows (src/net/poller_win32.cc), which works on completions instead of
  readiness: a request is started with a buffer, tracked under the address of its \<open>OVERLAPPED\<close>
  and handed over with the event of its completion. Requests are objects on a heap, so that
  it can be stated which of them are freed when. What the system answers to a call and what
  \<open>GetQueuedCompletionStatus\<close> returns are arguments; handles and the port are not modelled
  beyond their success. The members under the mutex of the state are one step.
\<close>

section \<open>State\<close>

definition kMaxCompletions :: nat where
  "kMaxCompletions = 256"

text \<open>Only the buffer of a receive and the data of a send have contents.\<close>

record WinIoRequest =
  req_operation :: PollOperation
  req_id :: ConnectionId
  req_buffer :: "byte list"

definition WinIoRequest_new :: "PollOperation \<Rightarrow> WinIoRequest" where
  "WinIoRequest_new opn = \<lparr>req_operation = opn, req_id = ConnectionId_none, req_buffer = []\<rparr>"

record PollerState =
  connectex :: bool
  requests :: "nat \<Rightarrow> WinIoRequest option"

definition PollerState_new :: PollerState where
  "PollerState_new = \<lparr>connectex = False, requests = (\<lambda>a. None)\<rparr>"

text \<open>
  \<open>poller_state\<close> is \<open>state_\<close>. \<open>req_heap\<close> holds the requests that have been allocated and not freed,
  \<open>next_req\<close> is the address of the next one; addresses are not used again. \<open>packets\<close> counts the
  empty packets posted by \<open>Wake\<close>.
\<close>

record IocpPoller =
  poller_state :: "PollerState option"
  req_heap :: "nat \<Rightarrow> WinIoRequest option"
  next_req :: nat
  packets :: nat

definition IocpPoller_new :: IocpPoller where
  "IocpPoller_new = \<lparr>poller_state = None, req_heap = (\<lambda>a. None), next_req = 0, packets = 0\<rparr>"

section \<open>Operations\<close>

text \<open>The argument is the error of \<open>CreateIoCompletionPort\<close>, if any; the result that of \<open>Init\<close>.\<close>

definition IocpPoller_Init :: "int option \<Rightarrow> IocpPoller \<Rightarrow> int option \<times> IocpPoller" where
  "IocpPoller_Init err p =
     (if poller_state p \<noteq> None then (None, p)
      else case err of
        Some e \<Rightarrow> (Some e, p)
      | None \<Rightarrow> (None, p\<lparr>poller_state := Some PollerState_new\<rparr>))"

definition IocpPoller_Shutdown :: "IocpPoller \<Rightarrow> IocpPoller" where
  "IocpPoller_Shutdown p = p\<lparr>poller_state := None\<rparr>"

definition IocpPoller_Add :: "bool \<Rightarrow> int \<Rightarrow> ConnectionId \<Rightarrow> u32 \<Rightarrow> IocpPoller \<Rightarrow> bool" where
  "IocpPoller_Add associated f cid interest p \<longleftrightarrow>
     \<not> (poller_state p = None \<or> \<not> IsValidSocketHandle f) \<and> associated"

definition IocpPoller_Modify :: "int \<Rightarrow> ConnectionId \<Rightarrow> u32 \<Rightarrow> IocpPoller \<Rightarrow> bool" where
  "IocpPoller_Modify f cid interest p \<longleftrightarrow> poller_state p \<noteq> None"

definition IocpPoller_Wake :: "IocpPoller \<Rightarrow> IocpPoller" where
  "IocpPoller_Wake p = (if poller_state p = None then p else p\<lparr>packets := packets p + 1\<rparr>)"

definition LoadConnectEx :: "int option \<Rightarrow> PollerState \<Rightarrow> int option \<times> PollerState" where
  "LoadConnectEx err st =
     (if connectex st then (None, st)
      else case err of Some e \<Rightarrow> (Some e, st) | None \<Rightarrow> (None, st\<lparr>connectex := True\<rparr>))"

definition TrackRequest :: "nat \<Rightarrow> WinIoRequest \<Rightarrow> PollerState \<Rightarrow> PollerState" where
  "TrackRequest a req st = st\<lparr>requests := (requests st)(a \<mapsto> req)\<rparr>"

definition UntrackRequest :: "nat \<Rightarrow> PollerState \<Rightarrow> WinIoRequest option \<times> PollerState" where
  "UntrackRequest a st =
     (case requests st a of
        None \<Rightarrow> (None, st)
      | Some req \<Rightarrow> (Some req, st\<lparr>requests := (requests st)(a := None)\<rparr>))"

text \<open>Without the reference that \<open>UntrackRequest\<close> creates.\<close>

definition RemoveRequest :: "nat \<Rightarrow> PollerState \<Rightarrow> WinIoRequest option \<times> PollerState" where
  "RemoveRequest a st =
     (case requests st a of
        None \<Rightarrow> (None, st)
      | Some req \<Rightarrow> (Some req, st\<lparr>requests := (requests st)(a := None)\<rparr>))"

text \<open>What the system answers to the start of an operation.\<close>

datatype start_answer = Started | Pending | Refused int

text \<open>
  The common end of \<open>StartConnect\<close>, \<open>StartRecv\<close> and \<open>StartSend\<close>: a new request is tracked before the
  system is called, and removed and deleted again if the system refuses the operation.
\<close>

definition start_request :: "WinIoRequest \<Rightarrow> start_answer \<Rightarrow> PollerState \<Rightarrow> IocpPoller \<Rightarrow> int option \<times> IocpPoller" where
  "start_request req ans st p =
     (let a = next_req p;
          st = TrackRequest a req st;
          p = p\<lparr>req_heap := (req_heap p)(a \<mapsto> req), next_req := a + 1, poller_state := Some st\<rparr>
      in case ans of
           Refused e \<Rightarrow>
             (Some e,
              case RemoveRequest a st of
                (None, st) \<Rightarrow> p
              | (Some req, st) \<Rightarrow> p\<lparr>poller_state := Some st, req_heap := (req_heap p)(a := None)\<rparr>)
         | _ \<Rightarrow> (None, p))"

text \<open>The error \<open>- 1\<close> stands for the text that the poller is not initialised.\<close>

definition IocpPoller_StartConnect ::
    "int option \<Rightarrow> start_answer \<Rightarrow> int \<Rightarrow> ConnectionId \<Rightarrow> IocpPoller \<Rightarrow> int option \<times> IocpPoller" where
  "IocpPoller_StartConnect load ans f cid p =
     (case poller_state p of
        None \<Rightarrow> (Some (- 1), p)
      | Some st \<Rightarrow>
          if \<not> IsValidSocketHandle f then (Some (- 1), p)
          else case LoadConnectEx load st of
            (Some e, st) \<Rightarrow> (Some e, p\<lparr>poller_state := Some st\<rparr>)
          | (None, st) \<Rightarrow> start_request ((WinIoRequest_new kPollOpConnect)\<lparr>req_id := cid\<rparr>) ans st p)"

text \<open>\<open>fresh\<close> is the content of newly allocated memory.\<close>

definition IocpPoller_StartRecv ::
    "(nat \<Rightarrow> byte) \<Rightarrow> start_answer \<Rightarrow> int \<Rightarrow> ConnectionId \<Rightarrow> nat \<Rightarrow> IocpPoller \<Rightarrow> int option \<times> IocpPoller" where
  "IocpPoller_StartRecv fresh ans f cid len p =
     (case poller_state p of
        None \<Rightarrow> (Some (- 1), p)
      | Some st \<Rightarrow>
          if \<not> IsValidSocketHandle f then (Some (- 1), p)
          else start_request ((WinIoRequest_new kPollOpRecv)\<lparr>req_id := cid, req_buffer := map fresh [0..<len]\<rparr>) ans st p)"

definition IocpPoller_StartSend ::
    "start_answer \<Rightarrow> int \<Rightarrow> ConnectionId \<Rightarrow> byte list \<Rightarrow> IocpPoller \<Rightarrow> int option \<times> IocpPoller" where
  "IocpPoller_StartSend ans f cid data p =
     (case poller_state p of
        None \<Rightarrow> (Some (- 1), p)
      | Some st \<Rightarrow>
          if \<not> IsValidSocketHandle f then (Some (- 1), p)
          else start_request ((WinIoRequest_new kPollOpSend)\<lparr>req_id := cid, req_buffer := data\<rparr>) ans st p)"

text \<open>
  What \<open>GetQueuedCompletionStatus\<close> returns: nothing, which is a time-out, an error of the port or an
  empty packet, or a completion with its success, the bytes transferred and the error.
\<close>

datatype completion = No_overlapped | Completion bool nat nat int

text \<open>An event with its bytes, and the address of the request that it carries.\<close>

record WinEvent = PollEvent +
  bytes_transferred :: nat
  data :: nat

definition win_event :: "bool \<Rightarrow> nat \<Rightarrow> nat \<Rightarrow> int \<Rightarrow> WinIoRequest \<Rightarrow> WinEvent" where
  "win_event ok bytes a err req =
     \<lparr>ev_id = req_id req,
      events = (if \<not> ok then kPollEventError
                else if req_operation req = kPollOpConnect \<or> req_operation req = kPollOpSend then kPollEventWritable
                else if req_operation req = kPollOpRecv then kPollEventReadable
                else 0),
      error_code = (if \<not> ok then err else 0),
      operation = req_operation req, bytes_transferred = bytes, data = a\<rparr>"

definition PollOne :: "completion \<Rightarrow> PollerState \<Rightarrow> WinEvent option \<times> PollerState" where
  "PollOne c st =
     (case c of
        No_overlapped \<Rightarrow> (None, st)
      | Completion ok bytes a err \<Rightarrow>
          (case UntrackRequest a st of
             (None, st) \<Rightarrow> (None, st)
           | (Some req, st) \<Rightarrow> (Some (win_event ok bytes a err req), st)))"

text \<open>The loop of \<open>Wait\<close>, with the completions in the order in which the port hands them out.\<close>

fun completion_loop :: "completion list \<Rightarrow> WinEvent list \<Rightarrow> PollerState \<Rightarrow> WinEvent list \<times> PollerState" where
  "completion_loop [] evs st = (evs, st)"
| "completion_loop (c # cs) evs st =
     (if \<not> length evs < kMaxCompletions then (evs, st)
      else case PollOne c st of
        (None, st) \<Rightarrow> (evs, st)
      | (Some ev, st) \<Rightarrow> completion_loop cs (evs @ [ev]) st)"

definition IocpPoller_Wait :: "completion list \<Rightarrow> IocpPoller \<Rightarrow> WinEvent list \<times> IocpPoller" where
  "IocpPoller_Wait cs p =
     (case poller_state p of
        None \<Rightarrow> ([], p)
      | Some st \<Rightarrow> (case completion_loop cs [] st of (evs, st) \<Rightarrow> (evs, p\<lparr>poller_state := Some st\<rparr>)))"

text \<open>The last reference to an event frees its request.\<close>

definition drop_event :: "WinEvent \<Rightarrow> IocpPoller \<Rightarrow> IocpPoller" where
  "drop_event ev p = p\<lparr>req_heap := (req_heap p)(data ev := None)\<rparr>"

section \<open>Ownership of requests\<close>

text \<open>
  Calls of the poller by the connections and the poll loop. The events that were returned and not
  yet dropped are kept with the poller.
\<close>

datatype iocp_call =
    I_connect "int option" start_answer int ConnectionId
  | I_recv "nat \<Rightarrow> byte" start_answer int ConnectionId nat
  | I_send start_answer int ConnectionId "byte list"
  | I_wait "completion list"
  | I_drop nat

fun iocp_exec :: "iocp_call \<Rightarrow> IocpPoller \<times> WinEvent list \<Rightarrow> IocpPoller \<times> WinEvent list" where
  "iocp_exec (I_connect load ans f cid) (p, held) = (snd (IocpPoller_StartConnect load ans f cid p), held)"
| "iocp_exec (I_recv fresh ans f cid len) (p, held) = (snd (IocpPoller_StartRecv fresh ans f cid len p), held)"
| "iocp_exec (I_send ans f cid bs) (p, held) = (snd (IocpPoller_StartSend ans f cid bs p), held)"
| "iocp_exec (I_wait cs) (p, held) = (case IocpPoller_Wait cs p of (evs, p) \<Rightarrow> (p, held @ evs))"
| "iocp_exec (I_drop i) (p, held) =
     (if i < length held then (drop_event (held ! i) p, take i held @ drop (Suc i) held) else (p, held))"

definition event_of :: "(nat \<Rightarrow> WinIoRequest option) \<Rightarrow> WinEvent \<Rightarrow> bool" where
  "event_of h ev \<longleftrightarrow> (\<exists>r. h (data ev) = Some r \<and> ev_id ev = req_id r \<and> operation ev = req_operation r)"

text \<open>
  The requests on the heap are those that the poller tracks and those that an event carries, no
  request is both, no two events carry the same one, and every event tells the id and the
  operation of its request.
\<close>

definition requests_ok :: "(nat \<Rightarrow> WinIoRequest option) \<Rightarrow> PollerState \<Rightarrow> WinEvent list \<Rightarrow> bool" where
  "requests_ok h st held \<longleftrightarrow> requests st \<subseteq>\<^sub>m h \<and> dom h = dom (requests st) \<union> data ` set held \<and>
     dom (requests st) \<inter> data ` set held = {} \<and> distinct (map data held) \<and> list_all (event_of h) held"

definition iocp_inv :: "IocpPoller \<times> WinEvent list \<Rightarrow> bool" where
  "iocp_inv s \<longleftrightarrow> (case s of (p, held) \<Rightarrow>
     (\<forall>a \<ge> next_req p. req_heap p a = None) \<and> (\<exists>st. poller_state p = Some st \<and> requests_ok (req_heap p) st held))"

lemma requests_ok_track:
  assumes "requests_ok h st held" "h a = None"
  shows "requests_ok (h(a \<mapsto> r)) (TrackRequest a r st) held"
proof -
  have n: "a \<notin> dom (requests st)" "a \<notin> data ` set held" using assms by (auto simp: requests_ok_def domIff)
  have "event_of h ev \<Longrightarrow> event_of (h(a \<mapsto> r)) ev" for ev using assms(2) by (auto simp: event_of_def)
  thus ?thesis using assms n
    by (auto simp: requests_ok_def TrackRequest_def map_le_def list_all_iff domIff)
qed

lemma start_request_inv:
  assumes "iocp_inv (p, held)" "requests st = requests (the (poller_state p))"
  shows "iocp_inv (snd (start_request r ans st p), held)"
proof -
  obtain st0 where st0: "poller_state p = Some st0" "requests_ok (req_heap p) st0 held"
    and fresh: "\<forall>a \<ge> next_req p. req_heap p a = None"
    using assms(1) by (auto simp: iocp_inv_def)
  have o: "requests_ok (req_heap p) st held" using st0 assms(2) by (simp add: requests_ok_def)
  have n: "req_heap p (next_req p) = None" "requests st (next_req p) = None"
    using fresh o by (auto simp: requests_ok_def map_le_def domIff) 
  have "requests_ok ((req_heap p)(next_req p := None)) (st\<lparr>requests := (requests st)(next_req p := None)\<rparr>) held"
    using o n by (simp add: requests_ok_def fun_upd_idem)
  thus ?thesis using requests_ok_track [OF o n(1), of r] fresh
    by (cases ans) (auto simp: start_request_def RemoveRequest_def TrackRequest_def Let_def iocp_inv_def)
qed

lemma PollOne_ok:
  assumes "requests_ok h st held" "PollOne c st = (Some ev, st')"
  shows "requests_ok h st' (held @ [ev])"
proof -
  obtain ok n a e r where r: "requests st a = Some r" "ev = win_event ok n a e r" "st' = st\<lparr>requests := (requests st)(a := None)\<rparr>"
    using assms(2) by (auto simp: PollOne_def UntrackRequest_def split: completion.splits option.splits)
  have "h a = Some r" using assms(1) r(1) by (metis requests_ok_def map_le_def domI)
  hence "event_of h ev" using r(2) by (simp add: event_of_def win_event_def)
  moreover have "data ev = a" using r(2) by (simp add: win_event_def)
  ultimately show ?thesis using assms(1) r(1,3) by (auto simp: requests_ok_def map_le_def domIff split: if_splits)
qed

lemma completion_loop_ok:
  assumes "requests_ok h st (held @ evs)" "completion_loop cs evs st = (evs', st')"
  shows "requests_ok h st' (held @ evs')"
  using assms
proof (induction cs arbitrary: evs st)
  case (Cons c cs)
  show ?case
  proof (cases "PollOne c st")
    case (Pair r st1)
    show ?thesis
    proof (cases r)
      case None
      hence "requests st1 = requests st"
        using Pair by (auto simp: PollOne_def UntrackRequest_def split: completion.splits option.splits)
      thus ?thesis using Cons.prems Pair None by (auto simp: requests_ok_def split: if_splits)
    next
      case (Some ev)
      thus ?thesis using Cons Pair PollOne_ok [of h st "held @ evs" c ev st1] by (auto split: if_splits)
    qed
  qed
qed simp

lemma drop_event_ok:
  assumes "requests_ok h st (xs @ ev # ys)"
  shows "requests_ok (h(data ev := None)) st (xs @ ys)"
proof -
  have d: "data ev \<notin> data ` set (xs @ ys)" "data ev \<notin> dom (requests st)" using assms by (auto simp: requests_ok_def)
  hence "\<forall>x \<in> set (xs @ ys). data x \<noteq> data ev" by (metis imageI)
  hence "\<forall>x \<in> set (xs @ ys). event_of h x \<longrightarrow> event_of (h(data ev := None)) x" by (auto simp: event_of_def)
  thus ?thesis using assms d by (auto simp: requests_ok_def map_le_def list_all_iff)
qed

lemma start_invs:
  assumes "iocp_inv (p, held)"
  shows "iocp_inv (snd (IocpPoller_StartConnect load ans f cid p), held)"
    and "iocp_inv (snd (IocpPoller_StartRecv fresh ans f cid len p), held)"
    and "iocp_inv (snd (IocpPoller_StartSend ans f cid bs p), held)"
proof -
  obtain st where st: "poller_state p = Some st" using assms by (auto simp: iocp_inv_def)
  have l: "requests (snd (LoadConnectEx load st)) = requests st" by (auto simp: LoadConnectEx_def split: option.split)
  have k: "iocp_inv (p\<lparr>poller_state := Some (snd (LoadConnectEx load st))\<rparr>, held)"
    using assms st l by (auto simp: iocp_inv_def requests_ok_def)
  show "iocp_inv (snd (IocpPoller_StartConnect load ans f cid p), held)"
    using assms st l k start_request_inv [OF assms, of "snd (LoadConnectEx load st)"]
    by (cases "LoadConnectEx load st") (auto simp: IocpPoller_StartConnect_def split: option.split)
  show "iocp_inv (snd (IocpPoller_StartRecv fresh ans f cid len p), held)"
    "iocp_inv (snd (IocpPoller_StartSend ans f cid bs p), held)"
    using assms st start_request_inv [OF assms, of st] by (simp_all add: IocpPoller_StartRecv_def IocpPoller_StartSend_def)
qed

lemma iocp_exec_inv: "iocp_inv s \<Longrightarrow> iocp_inv (iocp_exec c s)"
proof (cases s)
  case (Pair p held)
  assume "iocp_inv s"
  hence i: "iocp_inv (p, held)" using Pair by simp
  then obtain st where st: "poller_state p = Some st" "requests_ok (req_heap p) st held" by (auto simp: iocp_inv_def)
  show ?thesis
  proof (cases c)
    case (I_wait cs)
    obtain evs st' where w: "completion_loop cs [] st = (evs, st')" by fastforce
    have "requests_ok (req_heap p) st' (held @ evs)" using completion_loop_ok [OF _ w, of "req_heap p" held] st(2) by simp
    thus ?thesis using i Pair I_wait w st(1) by (auto simp: IocpPoller_Wait_def iocp_inv_def)
  next
    case (I_drop n)
    show ?thesis
    proof (cases "n < length held")
      case True
      have "requests_ok ((req_heap p)(data (held ! n) := None)) st (take n held @ drop (Suc n) held)"
        using drop_event_ok st(2) id_take_nth_drop [OF True] by metis
      thus ?thesis using i Pair I_drop True st(1) by (auto simp: drop_event_def iocp_inv_def)
    next
      case False
      thus ?thesis using i Pair I_drop by simp
    qed
  qed (use start_invs [OF i] Pair in simp_all)
qed

lemma iocp_run_inv: "iocp_inv s \<Longrightarrow> iocp_inv (fold iocp_exec cs s)"
  by (induction cs arbitrary: s) (simp_all add: iocp_exec_inv)

text \<open>
  C38: The poller of Windows neither loses nor frees twice a request: after any sequence of calls
  and whatever the system answers and reports, the requests on the heap are those that the poller
  tracks and those that returned events carry, without overlap, so that every completion is
  reported at most once; every event has the id and the operation of its request; an operation
  that the system has refused leaves no request behind. Only a shutdown leaves the requests that
  are tracked at that time on the heap with nobody to free them.
\<close>

theorem iocp_requests:
  assumes "IocpPoller_Init None IocpPoller_new = (None, p0)" and "fold iocp_exec cs (p0, []) = (p, held)"
  shows "\<exists>st. poller_state p = Some st \<and> dom (req_heap p) = dom (requests st) \<union> data ` set held \<and>
    dom (requests st) \<inter> data ` set held = {} \<and> distinct (map data held) \<and> list_all (event_of (req_heap p)) held \<and>
    (\<forall>e r. fst (start_request r (Refused e) st p) = Some e \<and> req_heap (snd (start_request r (Refused e) st p)) = req_heap p) \<and>
    (\<forall>a \<in> dom (requests st). req_heap (IocpPoller_Shutdown p) a = requests st a \<and> poller_state (IocpPoller_Shutdown p) = None)"
proof -
  have "iocp_inv (p0, [])"
    using assms(1) by (auto simp: IocpPoller_Init_def IocpPoller_new_def iocp_inv_def requests_ok_def PollerState_new_def)
  hence i: "iocp_inv (p, held)" using iocp_run_inv assms(2) by metis
  then obtain st where st: "poller_state p = Some st" "requests_ok (req_heap p) st held" by (auto simp: iocp_inv_def)
  have "req_heap p (next_req p) = None" using i by (simp add: iocp_inv_def)
  hence "fst (start_request r (Refused e) st p) = Some e \<and> req_heap (snd (start_request r (Refused e) st p)) = req_heap p" for e r
    by (simp add: start_request_def RemoveRequest_def TrackRequest_def Let_def fun_upd_idem)
  thus ?thesis using st by (auto simp: requests_ok_def map_le_def IocpPoller_Shutdown_def)
qed

definition sample_request_run :: "iocp_call list" where
  "sample_request_run =
     [I_recv (\<lambda>i. 0) Pending 4 \<lparr>slot = 0, generation = 1\<rparr> 8, I_send (Refused 10054) 4 \<lparr>slot = 0, generation = 1\<rparr> [1, 2],
      I_wait [Completion True 5 0 0, No_overlapped]]"

theorem iocp_requests_witness:
  "\<exists>p held. fold iocp_exec sample_request_run (snd (IocpPoller_Init None IocpPoller_new), []) = (p, held) \<and>
     length held = 1 \<and> list_all (event_of (req_heap p)) held"
proof -
  obtain p held where h: "fold iocp_exec sample_request_run (snd (IocpPoller_Init None IocpPoller_new), []) = (p, held)"
    by fastforce
  moreover have "length held = 1"
    using h by (auto simp: sample_request_run_def IocpPoller_Init_def IocpPoller_new_def PollerState_new_def
        IocpPoller_StartRecv_def IocpPoller_StartSend_def start_request_def TrackRequest_def UntrackRequest_def RemoveRequest_def
        IsValidSocketHandle_def IocpPoller_Wait_def PollOne_def kMaxCompletions_def)
  moreover have "list_all (event_of (req_heap p)) held"
    using iocp_requests [OF _ h] by (auto simp: IocpPoller_Init_def IocpPoller_new_def)
  ultimately show ?thesis by blast
qed

end
