(* ===== verification/Drain_Protocols.thy ===== *)
theory Drain_Protocols
  imports Connx_Prelude
begin

text \<open>
  How the threads share one connection (the members \<open>Post\<close>, \<open>ScheduleDrain\<close>, \<open>Drain\<close>,
  \<open>DrainTaskQueue\<close> and \<open>CloseFromOwner\<close> of src/net/client_connection.cc), step by step: any number
  of threads that post tasks, drain jobs on the workers or inline, and the thread that
  releases the connection from outside a callback. Every atomic access of the source is a
  step; the steps of different threads interleave in any order. The theorems justify what
  the connection model takes for granted: that tasks run one at a time, in the order in
  which they were posted, that none is forgotten, and that none runs after a release.

  The task queue is a list. A pop finds no task when the queue is empty or while a push is
  between its two steps, which is what the queue of the source guarantees. A wait on the
  condition variable is a step that is enabled when its condition holds; the conditions are
  read access by access.
\<close>

section \<open>Steps\<close>

text \<open>A thread in \<open>Post\<close>, by its next step; the flag of \<open>P_leave\<close> is whether it has set \<open>draining_\<close>.\<close>

datatype dposter = P_enter nat | P_check nat | P_refused | P_count nat | P_push nat | P_link | P_cas | P_leave bool | P_sched

text \<open>A thread in \<open>Drain\<close>. The steps \<open>D_cl_\<close> are those after \<open>owner_closing_\<close> was seen.\<close>

datatype drain_pc = D_top | D_pop | D_store | D_c1 | D_c2 | D_c3 | D_cas | D_popped nat | D_run nat | D_after | D_resched
  | D_cl_pop | D_cl_popped nat | D_cl_active | D_cl_queued | D_close | D_end

text \<open>The thread in \<open>CloseFromOwner\<close>.\<close>

datatype owner_pc = O_idle | O_accept | O_wait1 | O_cas | O_sched | O_wait2 | O_queued | O_active | O_done

text \<open>
  \<open>g_pushed\<close> and \<open>g_popped\<close> are the histories of the queue, \<open>g_done\<close> the tasks that were run or, with
  the flag \<open>False\<close>, deleted, and \<open>g_closed\<close> tells whether the connection was closed by the release.
\<close>

record drain_state =
  d_active :: nat
  d_accepting :: bool
  d_queued :: nat
  d_queue :: "nat list"
  d_draining :: bool
  d_owner_closing :: bool
  d_posters :: "dposter multiset"
  d_jobs :: nat
  d_drains :: "drain_pc multiset"
  d_owner :: owner_pc
  g_pushed :: "nat list"
  g_popped :: "nat list"
  g_done :: "(nat \<times> bool) list"
  g_closed :: bool

definition drain_new :: drain_state where
  "drain_new = \<lparr>d_active = 0, d_accepting = True, d_queued = 0, d_queue = [], d_draining = False, d_owner_closing = False,
     d_posters = {#}, d_jobs = 0, d_drains = {#}, d_owner = O_idle, g_pushed = [], g_popped = [], g_done = [], g_closed = False\<rparr>"

text \<open>\<open>ScheduleDrain\<close>: a job for the worker, or a drain by the same thread when the worker refuses it.\<close>

definition schedule :: "bool \<Rightarrow> drain_state \<Rightarrow> drain_state" where
  "schedule posted s = (if posted then s\<lparr>d_jobs := d_jobs s + 1\<rparr> else s\<lparr>d_drains := add_mset D_top (d_drains s)\<rparr>)"

text \<open>A step of a thread in \<open>Post\<close>: what it becomes, nothing when it returns.\<close>

fun dpost_step :: "bool \<Rightarrow> dposter \<Rightarrow> drain_state \<Rightarrow> dposter multiset \<times> drain_state" where
  "dpost_step posted (P_enter t) s = ({#P_check t#}, s\<lparr>d_active := d_active s + 1\<rparr>)"
| "dpost_step posted (P_check t) s = ({#if d_accepting s then P_count t else P_refused#}, s)"
| "dpost_step posted P_refused s = ({#}, s\<lparr>d_active := d_active s - 1\<rparr>)"
| "dpost_step posted (P_count t) s = ({#P_push t#}, s\<lparr>d_queued := d_queued s + 1\<rparr>)"
| "dpost_step posted (P_push t) s = ({#P_link#}, s\<lparr>d_queue := d_queue s @ [t], g_pushed := g_pushed s @ [t]\<rparr>)"
| "dpost_step posted P_link s = ({#P_cas#}, s)"
| "dpost_step posted P_cas s =
     (if d_draining s then ({#P_leave False#}, s) else ({#P_leave True#}, s\<lparr>d_draining := True\<rparr>))"
| "dpost_step posted (P_leave h) s = (if h then {#P_sched#} else {#}, s\<lparr>d_active := d_active s - 1\<rparr>)"
| "dpost_step posted P_sched s = ({#}, schedule posted s)"

definition take_task :: "(nat \<Rightarrow> drain_pc) \<Rightarrow> drain_pc \<Rightarrow> drain_state \<Rightarrow> drain_pc multiset \<times> drain_state" where
  "take_task f stay s =
     (case d_queue s of
        [] \<Rightarrow> ({#stay#}, s)
      | t # q \<Rightarrow> ({#f t#}, s\<lparr>d_queue := q, g_popped := g_popped s @ [t]\<rparr>))"

text \<open>
  A step of a thread in \<open>Drain\<close>. \<open>b\<close> is the result of a pop, true for no task, and after a task
  whether the drain must yield.
\<close>

fun drain_step :: "bool \<Rightarrow> bool \<Rightarrow> drain_pc \<Rightarrow> drain_state \<Rightarrow> drain_pc multiset \<times> drain_state" where
  "drain_step b posted D_top s = ({#if d_owner_closing s then D_cl_pop else D_pop#}, s)"
| "drain_step b posted D_pop s = (if b then ({#D_store#}, s) else take_task D_popped D_pop s)"
| "drain_step b posted D_store s = ({#D_c1#}, s\<lparr>d_draining := False\<rparr>)"
| "drain_step b posted D_c1 s = ({#if d_owner_closing s then D_cas else D_c2#}, s)"
| "drain_step b posted D_c2 s = ({#if d_queued s = 0 then D_c3 else D_cas#}, s)"
| "drain_step b posted D_c3 s = (if d_active s = 0 then {#} else {#D_cas#}, s)"
| "drain_step b posted D_cas s = (if d_draining s then ({#}, s) else ({#D_top#}, s\<lparr>d_draining := True\<rparr>))"
| "drain_step b posted (D_popped t) s = ({#D_run t#}, s\<lparr>d_queued := d_queued s - 1\<rparr>)"
| "drain_step b posted (D_run t) s = ({#D_after#}, s\<lparr>g_done := g_done s @ [(t, True)]\<rparr>)"
| "drain_step b posted D_after s = ({#if b \<and> \<not> d_owner_closing s then D_resched else D_top#}, s)"
| "drain_step b posted D_resched s = ({#}, schedule posted s)"
| "drain_step b posted D_cl_pop s = (if b then ({#D_cl_active#}, s) else take_task D_cl_popped D_cl_pop s)"
| "drain_step b posted (D_cl_popped t) s =
     ({#D_cl_pop#}, s\<lparr>d_queued := d_queued s - 1, g_done := g_done s @ [(t, False)]\<rparr>)"
| "drain_step b posted D_cl_active s = ({#if d_active s = 0 then D_cl_queued else D_cl_pop#}, s)"
| "drain_step b posted D_cl_queued s = ({#if d_queued s = 0 then D_close else D_cl_pop#}, s)"
| "drain_step b posted D_close s = ({#D_end#}, s\<lparr>g_closed := True\<rparr>)"
| "drain_step b posted D_end s = ({#}, s\<lparr>d_draining := False\<rparr>)"

text \<open>The state after a step of a drain.\<close>

definition drain_next :: "bool \<Rightarrow> bool \<Rightarrow> drain_pc \<Rightarrow> drain_pc multiset \<Rightarrow> drain_state \<Rightarrow> drain_state" where
  "drain_next b posted d ds s =
     (let (dn, s') = drain_step b posted d (s\<lparr>d_drains := ds\<rparr>) in s'\<lparr>d_drains := d_drains s' + dn\<rparr>)"

text \<open>When a pop can find no task.\<close>

definition pop_null_ok :: "drain_state \<Rightarrow> bool" where
  "pop_null_ok s \<longleftrightarrow> d_queue s = [] \<or> P_link \<in># d_posters s"

definition owner_step :: "bool \<Rightarrow> drain_state \<Rightarrow> drain_state" where
  "owner_step posted s =
     (case d_owner s of
        O_idle \<Rightarrow> s\<lparr>d_owner_closing := True, d_owner := O_accept\<rparr>
      | O_accept \<Rightarrow> s\<lparr>d_accepting := False, d_owner := O_wait1\<rparr>
      | O_wait1 \<Rightarrow> if d_active s = 0 then s\<lparr>d_owner := O_cas\<rparr> else s
      | O_cas \<Rightarrow> if d_draining s then s\<lparr>d_owner := O_wait2\<rparr> else s\<lparr>d_draining := True, d_owner := O_sched\<rparr>
      | O_sched \<Rightarrow> (schedule posted s)\<lparr>d_owner := O_wait2\<rparr>
      | O_wait2 \<Rightarrow> if d_draining s then s else s\<lparr>d_owner := O_queued\<rparr>
      | O_queued \<Rightarrow> s\<lparr>d_owner := if d_queued s = 0 then O_active else O_wait2\<rparr>
      | O_active \<Rightarrow> s\<lparr>d_owner := if d_active s = 0 then O_done else O_wait2\<rparr>
      | O_done \<Rightarrow> s)"

text \<open>
  The moves of a run, each with what the source leaves open: a call of \<open>Post\<close>, a step of one of the
  threads in it, the start of a job by a worker, a step of a drain, a step of the owner.
\<close>

datatype move = M_call nat | M_post dposter bool | M_job | M_drain drain_pc bool bool | M_owner bool

fun do_move :: "move \<Rightarrow> drain_state \<Rightarrow> drain_state option" where
  "do_move (M_call t) s = Some (s\<lparr>d_posters := add_mset (P_enter t) (d_posters s)\<rparr>)"
| "do_move (M_post p posted) s =
     (if p \<in># d_posters s
      then (let (ps, s') = dpost_step posted p s in Some (s'\<lparr>d_posters := d_posters s - {#p#} + ps\<rparr>))
      else None)"
| "do_move M_job s =
     (if 0 < d_jobs s then Some (s\<lparr>d_jobs := d_jobs s - 1, d_drains := add_mset D_top (d_drains s)\<rparr>) else None)"
| "do_move (M_drain d b posted) s =
     (if d \<in># d_drains s \<and> ((d = D_pop \<or> d = D_cl_pop) \<and> b \<longrightarrow> pop_null_ok s)
      then Some (drain_next b posted d (d_drains s - {#d#}) s)
      else None)"
| "do_move (M_owner posted) s = Some (owner_step posted s)"

fun do_moves :: "move list \<Rightarrow> drain_state \<Rightarrow> drain_state option" where
  "do_moves [] s = Some s"
| "do_moves (m # ms) s = (case do_move m s of None \<Rightarrow> None | Some s' \<Rightarrow> do_moves ms s')"

section \<open>Invariant\<close>

fun p_inside :: "dposter \<Rightarrow> bool" where
  "p_inside (P_enter t) \<longleftrightarrow> False"
| "p_inside P_sched \<longleftrightarrow> False"
| "p_inside p \<longleftrightarrow> True"

fun p_admitted :: "dposter \<Rightarrow> bool" where
  "p_admitted (P_count t) \<longleftrightarrow> True"
| "p_admitted (P_push t) \<longleftrightarrow> True"
| "p_admitted P_link \<longleftrightarrow> True"
| "p_admitted P_cas \<longleftrightarrow> True"
| "p_admitted (P_leave h) \<longleftrightarrow> True"
| "p_admitted p \<longleftrightarrow> False"

fun p_counted :: "dposter \<Rightarrow> bool" where
  "p_counted (P_push t) \<longleftrightarrow> True"
| "p_counted p \<longleftrightarrow> False"

fun p_holds :: "dposter \<Rightarrow> bool" where
  "p_holds (P_leave h) \<longleftrightarrow> h"
| "p_holds P_sched \<longleftrightarrow> True"
| "p_holds p \<longleftrightarrow> False"

text \<open>A drain that has given \<open>draining_\<close> up and has not taken it again.\<close>

fun d_idle :: "drain_pc \<Rightarrow> bool" where
  "d_idle D_c1 \<longleftrightarrow> True"
| "d_idle D_c2 \<longleftrightarrow> True"
| "d_idle D_c3 \<longleftrightarrow> True"
| "d_idle D_cas \<longleftrightarrow> True"
| "d_idle d \<longleftrightarrow> False"

text \<open>A drain that runs tasks, or can do so without looking at \<open>owner_closing_\<close> again.\<close>

fun d_busy :: "drain_pc \<Rightarrow> bool" where
  "d_busy D_pop \<longleftrightarrow> True"
| "d_busy D_store \<longleftrightarrow> True"
| "d_busy (D_popped t) \<longleftrightarrow> True"
| "d_busy (D_run t) \<longleftrightarrow> True"
| "d_busy D_after \<longleftrightarrow> True"
| "d_busy D_resched \<longleftrightarrow> True"
| "d_busy d \<longleftrightarrow> False"

text \<open>A drain that has seen \<open>owner_closing_\<close>.\<close>

fun d_closing :: "drain_pc \<Rightarrow> bool" where
  "d_closing D_cl_pop \<longleftrightarrow> True"
| "d_closing (D_cl_popped t) \<longleftrightarrow> True"
| "d_closing D_cl_active \<longleftrightarrow> True"
| "d_closing D_cl_queued \<longleftrightarrow> True"
| "d_closing D_close \<longleftrightarrow> True"
| "d_closing D_end \<longleftrightarrow> True"
| "d_closing d \<longleftrightarrow> False"

fun d_uncounted :: "drain_pc \<Rightarrow> bool" where
  "d_uncounted (D_popped t) \<longleftrightarrow> True"
| "d_uncounted (D_cl_popped t) \<longleftrightarrow> True"
| "d_uncounted d \<longleftrightarrow> False"

fun d_hand :: "drain_pc \<Rightarrow> nat multiset" where
  "d_hand (D_popped t) = {#t#}"
| "d_hand (D_run t) = {#t#}"
| "d_hand (D_cl_popped t) = {#t#}"
| "d_hand d = {#}"

definition hands :: "drain_pc multiset \<Rightarrow> nat multiset" where
  "hands M = (\<Sum>d \<in># M. d_hand d)"

lemma hands_simps [simp]: "hands {#} = {#}" "hands (add_mset d M) = d_hand d + hands M" "hands (M + N) = hands M + hands N"
  by (simp_all add: hands_def)

definition active_ok :: "drain_state \<Rightarrow> bool" where
  "active_ok s \<longleftrightarrow> d_active s = size (filter_mset p_inside (d_posters s))"

definition queued_ok :: "drain_state \<Rightarrow> bool" where
  "queued_ok s \<longleftrightarrow> d_queued s = length (d_queue s) + size (filter_mset p_counted (d_posters s)) +
     size (filter_mset d_uncounted (d_drains s))"

text \<open>Who holds \<open>draining_\<close>: waiting jobs, drains at work, threads about to schedule a drain.\<close>

definition holders :: "drain_state \<Rightarrow> nat" where
  "holders s = d_jobs s + size (filter_mset (\<lambda>d. \<not> d_idle d) (d_drains s)) + size (filter_mset p_holds (d_posters s)) +
     of_bool (d_owner s = O_sched)"

definition token_ok :: "drain_state \<Rightarrow> bool" where
  "token_ok s \<longleftrightarrow> holders s = of_bool (d_draining s)"

definition found_ok :: "drain_state \<Rightarrow> bool" where
  "found_ok s \<longleftrightarrow> (\<not> d_owner_closing s \<and> \<not> d_draining s \<and> d_queue s \<noteq> [] \<longrightarrow>
     (P_link \<in># d_posters s \<or> P_cas \<in># d_posters s) \<or> D_c1 \<in># d_drains s \<or> D_c2 \<in># d_drains s \<or> D_cas \<in># d_drains s)"

definition order_ok :: "drain_state \<Rightarrow> bool" where
  "order_ok s \<longleftrightarrow> g_pushed s = g_popped s @ d_queue s \<and> (\<exists>hs. g_popped s = map fst (g_done s) @ hs \<and> mset hs = hands (d_drains s))"

text \<open>The owner has seen no thread in \<open>Post\<close>; it has seen \<open>draining_\<close> unset after that; it has seen no queued task after that.\<close>

fun o_alone :: "owner_pc \<Rightarrow> bool" where
  "o_alone O_idle \<longleftrightarrow> False"
| "o_alone O_accept \<longleftrightarrow> False"
| "o_alone O_wait1 \<longleftrightarrow> False"
| "o_alone q \<longleftrightarrow> True"

fun o_settled :: "owner_pc \<Rightarrow> bool" where
  "o_settled O_queued \<longleftrightarrow> True"
| "o_settled O_active \<longleftrightarrow> True"
| "o_settled O_done \<longleftrightarrow> True"
| "o_settled q \<longleftrightarrow> False"

fun o_drained :: "owner_pc \<Rightarrow> bool" where
  "o_drained O_active \<longleftrightarrow> True"
| "o_drained O_done \<longleftrightarrow> True"
| "o_drained q \<longleftrightarrow> False"

definition d_release_ok :: "drain_state \<Rightarrow> bool" where
  "d_release_ok s \<longleftrightarrow> (d_owner_closing s \<longleftrightarrow> d_owner s \<noteq> O_idle) \<and> (d_accepting s \<longleftrightarrow> d_owner s = O_idle \<or> d_owner s = O_accept) \<and>
     (o_alone (d_owner s) \<longrightarrow> (\<forall>p \<in># d_posters s. \<not> p_admitted p)) \<and>
     (o_settled (d_owner s) \<longrightarrow> (\<forall>d \<in># d_drains s. \<not> d_busy d)) \<and>
     (o_drained (d_owner s) \<longrightarrow> d_queue s = [])"

definition closing_ok :: "drain_state \<Rightarrow> bool" where
  "closing_ok s \<longleftrightarrow> (\<not> d_owner_closing s \<longrightarrow> (\<forall>d \<in># d_drains s. \<not> d_closing d) \<and> list_all snd (g_done s))"

definition drain_inv :: "drain_state \<Rightarrow> bool" where
  "drain_inv s \<longleftrightarrow> closing_ok s \<and> active_ok s \<and> queued_ok s \<and> token_ok s \<and> found_ok s \<and> order_ok s \<and> d_release_ok s"

lemmas drain_parts = closing_ok_def active_ok_def queued_ok_def token_ok_def holders_def found_ok_def order_ok_def d_release_ok_def

lemma drain_inv_new: "drain_inv drain_new"
  by (simp add: drain_inv_def drain_parts drain_new_def)


lemma idle_hands: "\<forall>d \<in># M. d_idle d \<Longrightarrow> hands M = {#}"
  by (induction M) (auto elim: d_idle.elims)

lemma order_hand: "drain_inv s \<Longrightarrow> d_drains s = add_mset d ds \<Longrightarrow> \<not> d_idle d \<Longrightarrow> hands ds = {#}"
proof -
  assume i: "drain_inv s" and e: "d_drains s = add_mset d ds" and n: "\<not> d_idle d"
  have "size (filter_mset (\<lambda>d. \<not> d_idle d) ds) = 0"
    using i e n by (cases "d_draining s") (simp_all add: drain_inv_def token_ok_def holders_def)
  hence "\<forall>x \<in># ds. d_idle x" by (simp add: filter_mset_eq_conv)
  thus ?thesis by (rule idle_hands)
qed

lemma inv_call: "drain_inv s \<Longrightarrow> drain_inv (s\<lparr>d_posters := add_mset (P_enter t) (d_posters s)\<rparr>)"
  by (simp add: drain_inv_def drain_parts)

lemma inv_job: "drain_inv s \<Longrightarrow> 0 < d_jobs s \<Longrightarrow> drain_inv (s\<lparr>d_jobs := d_jobs s - 1, d_drains := add_mset D_top (d_drains s)\<rparr>)"
  by (auto simp: drain_inv_def drain_parts)

lemma post_closing:
  assumes "closing_ok s" "d_posters s = add_mset p qs" "dpost_step posted p s = (ps, s')"
  shows "closing_ok (s'\<lparr>d_posters := qs + ps\<rparr>)"
  using assms by (cases p) (auto simp: closing_ok_def schedule_def split: if_splits)

lemma post_active:
  assumes "active_ok s" "d_posters s = add_mset p qs" "dpost_step posted p s = (ps, s')"
  shows "active_ok (s'\<lparr>d_posters := qs + ps\<rparr>)"
  using assms by (cases p) (auto simp: active_ok_def schedule_def split: if_splits)

lemma post_queued:
  assumes "queued_ok s" "d_posters s = add_mset p qs" "dpost_step posted p s = (ps, s')"
  shows "queued_ok (s'\<lparr>d_posters := qs + ps\<rparr>)"
  using assms by (cases p) (auto simp: queued_ok_def schedule_def split: if_splits)

lemma post_holders:
  assumes "d_posters s = add_mset p qs" "dpost_step posted p s = (ps, s')"
  shows "holders (s'\<lparr>d_posters := qs + ps\<rparr>) + of_bool (d_draining s) = holders s + of_bool (d_draining s')"
  using assms by (cases p) (auto simp: holders_def schedule_def split: if_splits)

lemma post_token:
  assumes "token_ok s" "d_posters s = add_mset p qs" "dpost_step posted p s = (ps, s')"
  shows "token_ok (s'\<lparr>d_posters := qs + ps\<rparr>)"
  using post_holders [OF assms(2,3)] assms(1) by (simp add: token_ok_def)

lemma post_found:
  assumes "found_ok s" "d_posters s = add_mset p qs" "dpost_step posted p s = (ps, s')"
  shows "found_ok (s'\<lparr>d_posters := qs + ps\<rparr>)"
  using assms by (cases p) (auto simp: found_ok_def schedule_def split: if_splits)

lemma post_order:
  assumes "order_ok s" "d_posters s = add_mset p qs" "dpost_step posted p s = (ps, s')"
  shows "order_ok (s'\<lparr>d_posters := qs + ps\<rparr>)"
  using assms by (cases p) (auto simp: order_ok_def schedule_def split: if_splits)

lemma owner_phases: "o_drained q \<Longrightarrow> o_settled q" "o_settled q \<Longrightarrow> o_alone q" "o_alone q \<Longrightarrow> q \<noteq> O_idle \<and> q \<noteq> O_accept"
  by (cases q; simp)+

lemma dpost_frame:
  "d_owner (snd (dpost_step posted p s)) = d_owner s" "d_owner_closing (snd (dpost_step posted p s)) = d_owner_closing s"
  "d_accepting (snd (dpost_step posted p s)) = d_accepting s"
  by (cases p; simp add: schedule_def)+

lemma dpost_not_admitted:
  assumes "\<not> p_admitted p"
  shows "d_queue (snd (dpost_step posted p s)) = d_queue s"
    and "\<forall>d \<in># d_drains (snd (dpost_step posted p s)). d \<in># d_drains s \<or> d = D_top"
    and "\<not> d_accepting s \<Longrightarrow> \<forall>q \<in># fst (dpost_step posted p s). \<not> p_admitted q"
  using assms by (cases p; simp add: schedule_def)+

lemma post_release:
  assumes "d_release_ok s" "d_posters s = add_mset p qs" "dpost_step posted p s = (ps, s')"
  shows "d_release_ok (s'\<lparr>d_posters := qs + ps\<rparr>)"
proof -
  have f: "d_owner s' = d_owner s" "d_owner_closing s' = d_owner_closing s" "d_accepting s' = d_accepting s"
    using dpost_frame [of posted p s] assms(3) by simp_all
  show ?thesis
  proof (cases "p_admitted p")
    case True
    hence "\<not> o_alone (d_owner s)" using assms by (auto simp: d_release_ok_def)
    moreover from this have "\<not> o_settled (d_owner s)" "\<not> o_drained (d_owner s)" using owner_phases by blast+
    ultimately show ?thesis using assms(1) f by (simp add: d_release_ok_def)
  next
    case False
    note n = dpost_not_admitted [OF False, where posted = posted and s = s, unfolded assms(3) fst_conv snd_conv]
    have r: "d_owner_closing s \<longleftrightarrow> d_owner s \<noteq> O_idle" "d_accepting s \<longleftrightarrow> d_owner s = O_idle \<or> d_owner s = O_accept"
      "o_alone (d_owner s) \<Longrightarrow> \<forall>p \<in># d_posters s. \<not> p_admitted p"
      "o_settled (d_owner s) \<Longrightarrow> \<forall>d \<in># d_drains s. \<not> d_busy d" "o_drained (d_owner s) \<Longrightarrow> d_queue s = []"
      using assms(1) unfolding d_release_ok_def by blast+
    have "o_alone (d_owner s) \<Longrightarrow> \<forall>p \<in># qs + ps. \<not> p_admitted p"
      using r(2,3) n(3) assms(2) owner_phases(3) by fastforce
    moreover have "o_settled (d_owner s) \<Longrightarrow> \<forall>d \<in># d_drains s'. \<not> d_busy d" using r(4) n(2) by fastforce
    ultimately show ?thesis using r(1,2,5) f n(1) unfolding d_release_ok_def by simp
  qed
qed

lemma inv_post:
  assumes "drain_inv s" "d_posters s = add_mset p qs" "dpost_step posted p s = (ps, s')"
  shows "drain_inv (s'\<lparr>d_posters := qs + ps\<rparr>)"
  using assms(1) post_closing [OF _ assms(2,3)] post_active [OF _ assms(2,3)] post_queued [OF _ assms(2,3)] post_token [OF _ assms(2,3)]
    post_found [OF _ assms(2,3)] post_order [OF _ assms(2,3)] post_release [OF _ assms(2,3)]
  by (simp add: drain_inv_def)

lemma drain_frame:
  "d_active (drain_next b posted d ds s) = d_active s" "d_posters (drain_next b posted d ds s) = d_posters s"
  "d_owner (drain_next b posted d ds s) = d_owner s" "d_owner_closing (drain_next b posted d ds s) = d_owner_closing s"
  "d_accepting (drain_next b posted d ds s) = d_accepting s" "g_pushed (drain_next b posted d ds s) = g_pushed s"
  by (cases d; simp add: drain_next_def take_task_def schedule_def split: list.split)+

lemma drain_queued:
  assumes "queued_ok s" "d_drains s = add_mset d ds"
  shows "queued_ok (drain_next b posted d ds s)"
  using assms by (cases d) (simp_all add: queued_ok_def drain_next_def take_task_def schedule_def split: list.split)

lemma drain_holders:
  assumes "d_drains s = add_mset d ds" "d = D_store \<or> d = D_end \<Longrightarrow> d_draining s"
  shows "holders (drain_next b posted d ds s) + of_bool (d_draining s) = holders s + of_bool (d_draining (drain_next b posted d ds s))"
  using assms by (cases d) (simp_all add: holders_def drain_next_def take_task_def schedule_def split: list.split)

lemma holder_draining: "token_ok s \<Longrightarrow> d_drains s = add_mset d ds \<Longrightarrow> \<not> d_idle d \<Longrightarrow> d_draining s"
  by (rule ccontr) (simp add: token_ok_def holders_def)

lemma drain_token:
  assumes "token_ok s" "d_drains s = add_mset d ds"
  shows "token_ok (drain_next b posted d ds s)"
proof -
  have "d = D_store \<or> d = D_end \<Longrightarrow> d_draining s" using holder_draining [OF assms] by auto
  from drain_holders [OF assms(2) this, of b posted] assms(1) show ?thesis by (simp add: token_ok_def)
qed

lemma drain_found:
  assumes "found_ok s" "queued_ok s" "token_ok s" "d_drains s = add_mset d ds" "closing_ok s"
  shows "found_ok (drain_next b posted d ds s)"
proof (cases "d_idle d")
  case True
  thus ?thesis using assms by (cases d) (auto simp: found_ok_def queued_ok_def drain_next_def)
next
  case False
  note e = holder_draining [OF assms(3,4) this]
  show ?thesis
  proof (cases "d = D_store \<or> d = D_end")
    case True
    thus ?thesis using assms e by (auto simp: found_ok_def closing_ok_def drain_next_def)
  next
    case n: False
    have "d_draining (drain_next b posted d ds s)"
      using e False n by (cases d) (simp_all add: drain_next_def take_task_def schedule_def split: list.split)
    thus ?thesis by (simp add: found_ok_def)
  qed
qed

lemma drain_order:
  assumes "drain_inv s" "d_drains s = add_mset d ds"
  shows "order_ok (drain_next b posted d ds s)"
proof (cases "d_idle d")
  case True
  thus ?thesis using assms by (cases d) (auto simp: drain_inv_def order_ok_def drain_next_def)
next
  case False
  have h: "hands ds = {#}" by (rule order_hand [OF assms False])
  have o: "g_pushed s = g_popped s @ d_queue s" "\<exists>hs. g_popped s = map fst (g_done s) @ hs \<and> mset hs = d_hand d"
    using assms h by (auto simp: drain_inv_def order_ok_def)
  show ?thesis using h o False
    by (cases d) (auto simp: order_ok_def drain_next_def take_task_def schedule_def mset_single_iff split: list.split)
qed

lemma drain_busy:
  assumes "d_owner_closing s" "\<not> d_busy d" "\<forall>x \<in># ds. \<not> d_busy x"
  shows "\<forall>x \<in># d_drains (drain_next b posted d ds s). \<not> d_busy x"
  using assms by (cases d) (auto simp: drain_next_def take_task_def split: list.split)

lemma drain_closing:
  assumes "closing_ok s" "d_drains s = add_mset d ds"
  shows "closing_ok (drain_next b posted d ds s)"
  using assms by (cases d) (auto simp: closing_ok_def drain_next_def take_task_def schedule_def split: list.split)

lemma drain_queue_empty: "d_queue s = [] \<Longrightarrow> d_queue (drain_next b posted d ds s) = []"
  by (cases d) (simp_all add: drain_next_def take_task_def schedule_def)

lemma drain_release:
  assumes "d_release_ok s" "d_drains s = add_mset d ds"
  shows "d_release_ok (drain_next b posted d ds s)"
proof -
  have "o_settled (d_owner s) \<Longrightarrow> \<forall>x \<in># d_drains (drain_next b posted d ds s). \<not> d_busy x"
    using assms owner_phases by (intro drain_busy) (auto simp: d_release_ok_def)
  thus ?thesis using assms(1) drain_queue_empty unfolding d_release_ok_def drain_frame by blast
qed

lemma inv_drain:
  assumes "drain_inv s" "d_drains s = add_mset d ds"
  shows "drain_inv (drain_next b posted d ds s)"
proof -
  have "active_ok (drain_next b posted d ds s)" using assms(1) by (simp add: drain_inv_def active_ok_def drain_frame)
  thus ?thesis using assms drain_closing drain_queued drain_token drain_found drain_order drain_release
    unfolding drain_inv_def by metis
qed

lemma not_inside: "active_ok s \<Longrightarrow> d_active s = 0 \<Longrightarrow> \<forall>p \<in># d_posters s. \<not> p_admitted p"
proof -
  assume "active_ok s" "d_active s = 0"
  hence "\<forall>p \<in># d_posters s. \<not> p_inside p" by (simp add: active_ok_def filter_mset_eq_conv)
  moreover have "p_admitted p \<Longrightarrow> p_inside p" for p by (cases p) simp_all
  ultimately show ?thesis by blast
qed

lemma not_held: "token_ok s \<Longrightarrow> \<not> d_draining s \<Longrightarrow> \<forall>d \<in># d_drains s. \<not> d_busy d"
proof -
  assume "token_ok s" "\<not> d_draining s"
  hence "\<forall>d \<in># d_drains s. d_idle d" by (simp add: token_ok_def holders_def filter_mset_eq_conv)
  moreover have "d_idle d \<Longrightarrow> \<not> d_busy d" for d by (cases d) simp_all
  ultimately show ?thesis by blast
qed

lemma owner_release:
  assumes "drain_inv s"
  shows "d_release_ok (owner_step posted s)"
proof -
  have q: "d_queued s = 0 \<Longrightarrow> d_queue s = []" using assms by (simp add: drain_inv_def queued_ok_def)
  have a: "d_active s = 0 \<Longrightarrow> \<forall>p \<in># d_posters s. \<not> p_admitted p" using assms by (intro not_inside) (simp_all add: drain_inv_def)
  have h: "\<not> d_draining s \<Longrightarrow> \<forall>d \<in># d_drains s. \<not> d_busy d" using assms by (intro not_held) (simp_all add: drain_inv_def)
  have r: "d_release_ok s" using assms by (simp add: drain_inv_def)
  show ?thesis using q a h r by (cases "d_owner s") (simp_all add: d_release_ok_def owner_step_def schedule_def)
qed

lemma inv_owner:
  assumes "drain_inv s"
  shows "drain_inv (owner_step posted s)"
proof -
  have "holders (owner_step posted s) + of_bool (d_draining s) = holders s + of_bool (d_draining (owner_step posted s))"
    by (cases "d_owner s") (simp_all add: owner_step_def holders_def schedule_def)
  hence "token_ok (owner_step posted s)" using assms by (simp add: drain_inv_def token_ok_def)
  moreover have c: "d_owner_closing (owner_step posted s)"
    using assms by (cases "d_owner s") (simp_all add: drain_inv_def d_release_ok_def owner_step_def schedule_def)
  moreover have "active_ok (owner_step posted s)" "queued_ok (owner_step posted s)" "order_ok (owner_step posted s)"
    using assms by (cases "d_owner s"; simp add: drain_inv_def active_ok_def queued_ok_def order_ok_def owner_step_def schedule_def)+
  ultimately show ?thesis using owner_release [OF assms, of posted] by (simp add: drain_inv_def found_ok_def closing_ok_def)
qed

lemma inv_move: "drain_inv s \<Longrightarrow> do_move m s = Some s' \<Longrightarrow> drain_inv s'"
  by (cases m) (auto simp: inv_call inv_job [simplified] inv_owner split: if_splits prod.splits
      dest!: multi_member_split intro: inv_post [of s] inv_drain)

lemma inv_moves: "drain_inv s \<Longrightarrow> do_moves ms s = Some s' \<Longrightarrow> drain_inv s'"
  by (induction ms arbitrary: s) (auto split: option.splits dest: inv_move)

lemmas inv_run = inv_moves [OF drain_inv_new]

section \<open>Properties\<close>

lemma size_hands: "size (hands M) \<le> size (filter_mset (\<lambda>d. \<not> d_idle d) M)"
proof (induction M)
  case (add d M)
  have "size (d_hand d) \<le> of_bool (\<not> d_idle d)" by (cases d) simp_all
  thus ?case using add by auto
qed simp

lemma all_ran: "list_all snd xs \<Longrightarrow> xs = map (\<lambda>t. (t, True)) (map fst xs)"
  by (induction xs) auto

lemma one_holder: "drain_inv s \<Longrightarrow> size (filter_mset (\<lambda>d. \<not> d_idle d) (d_drains s)) \<le> of_bool (d_draining s)"
  by (simp add: drain_inv_def token_ok_def holders_def)

text \<open>
  C8: tasks of a connection run one at a time and in the order in which they were posted.
  However the threads interleave, at most one drain holds the connection, and the tasks run or
  deleted so far, the task in the hands of a drain, if any, and the tasks in the queue are
  together the tasks pushed so far, in that order.
\<close>

theorem tasks_run_serially:
  assumes "do_moves ms drain_new = Some s"
  shows "size (filter_mset (\<lambda>d. \<not> d_idle d) (d_drains s)) \<le> of_bool (d_draining s) \<and>
    (\<exists>hand. g_pushed s = map fst (g_done s) @ hand @ d_queue s \<and> mset hand = hands (d_drains s) \<and> length hand \<le> 1)"
proof -
  note i = inv_run [OF assms]
  obtain hand where h: "g_popped s = map fst (g_done s) @ hand" "mset hand = hands (d_drains s)"
    using i by (auto simp: drain_inv_def order_ok_def)
  have "length hand \<le> of_bool (d_draining s)"
    using one_holder [OF i] size_hands [of "d_drains s"] h(2) by (metis order_trans size_mset)
  moreover have "of_bool (d_draining s) \<le> (1::nat)" by simp
  ultimately have "length hand \<le> 1" by linarith
  thus ?thesis using i h one_holder [OF i] by (auto simp: drain_inv_def order_ok_def)
qed


definition ran :: "drain_state \<Rightarrow> nat list" where
  "ran s = map fst (filter snd (g_done s))"

lemma drain_ran: "\<not> d_busy d \<Longrightarrow> ran (drain_next b posted d ds s) = ran s"
  by (cases d) (simp_all add: ran_def drain_next_def take_task_def split: list.split)

lemma dpost_done: "g_done (snd (dpost_step posted p s)) = g_done s"
  by (cases p) (simp_all add: schedule_def)

lemma settled_move:
  assumes "drain_inv s" "d_owner s = O_done" "do_move m s = Some s'"
  shows "d_owner s' = O_done \<and> ran s' = ran s"
proof (cases m)
  case (M_post p posted)
  thus ?thesis using assms(2,3) dpost_frame [of posted p s] dpost_done [of posted p s]
    by (auto simp: ran_def split: if_splits prod.splits)
next
  case (M_drain d b posted)
  have "d \<in># d_drains s \<Longrightarrow> \<not> d_busy d" using assms(1,2) by (simp add: drain_inv_def d_release_ok_def)
  thus ?thesis using assms(2,3) M_drain by (auto simp: drain_frame drain_ran split: if_splits)
qed (use assms in \<open>auto simp: ran_def owner_step_def split: if_splits\<close>)

lemma settled_moves:
  assumes "drain_inv s" "d_owner s = O_done" "do_moves ms s = Some s'"
  shows "d_owner s' = O_done \<and> ran s' = ran s"
  using assms
proof (induction ms arbitrary: s)
  case (Cons m ms)
  then obtain s1 where "do_move m s = Some s1" "do_moves ms s1 = Some s'" by (auto split: option.splits)
  thus ?case using Cons settled_move inv_move by metis
qed simp

text \<open>
  C10: when \<open>CloseFromOwner\<close> has returned, no task of the connection runs any more, whatever the other
  threads do: the queue is empty, no thread can push to it, and the tasks run in any continuation
  of the run are those that had run by then.
\<close>

theorem release_stops_tasks:
  assumes "do_moves ms drain_new = Some s" and "d_owner s = O_done" and "do_moves ms' s = Some s'"
  shows "d_queue s' = [] \<and> (\<forall>p \<in># d_posters s'. \<not> p_admitted p) \<and> (\<forall>t. D_run t \<notin># d_drains s') \<and> ran s' = ran s"
proof -
  have i: "drain_inv s'" using inv_moves [OF inv_run [OF assms(1)] assms(3)] .
  have "d_owner s' = O_done" "ran s' = ran s" using settled_moves [OF inv_run [OF assms(1)] assms(2,3)] by simp_all
  thus ?thesis using i by (auto simp: drain_inv_def d_release_ok_def)
qed

text \<open>Runs in which the release comes first, and in which a task is posted and run.\<close>

lemmas evaluate_moves = drain_new_def drain_next_def take_task_def schedule_def owner_step_def pop_null_ok_def

definition release_moves :: "move list" where
  "release_moves = replicate 5 (M_owner True) @
     [M_job, M_drain D_top False True, M_drain D_cl_pop True True, M_drain D_cl_active False True, M_drain D_cl_queued False True,
      M_drain D_close False True, M_drain D_end False True] @ replicate 3 (M_owner True)"

definition first_task :: "move list" where
  "first_task =
     [M_call 1, M_post (P_enter 1) True, M_post (P_check 1) True, M_post (P_count 1) True, M_post (P_push 1) True,
      M_post P_link True, M_post P_cas True, M_post (P_leave True) True, M_post P_sched True, M_job,
      M_drain D_top False True, M_drain D_pop False True, M_drain (D_popped 1) False True, M_drain (D_run 1) False True,
      M_drain D_after False True, M_drain D_top False True, M_drain D_pop True True]"

lemma release_moves_run:
  "\<exists>s. do_moves release_moves drain_new = Some s \<and> d_owner s = O_done \<and> g_closed s"
  by (simp add: release_moves_def evaluate_moves numeral_eq_Suc)

lemma first_task_run:
  "\<exists>s. do_moves first_task drain_new = Some s \<and> \<not> d_owner_closing s \<and> g_done s = [(1, True)] \<and> d_drains s = {#D_store#}"
  by (simp add: first_task_def evaluate_moves)

theorem tasks_run_serially_witness:
  "\<exists>s. do_moves first_task drain_new = Some s \<and> size (filter_mset (\<lambda>d. \<not> d_idle d) (d_drains s)) \<le> of_bool (d_draining s)"
  using first_task_run tasks_run_serially [of first_task] by blast


theorem release_stops_tasks_witness:
  "\<exists>s. do_moves release_moves drain_new = Some s \<and> d_owner s = O_done \<and> d_queue s = [] \<and> (\<forall>t. D_run t \<notin># d_drains s)"
  using release_moves_run release_stops_tasks [of release_moves _ "[]"] by fastforce

text \<open>
  The wait at the end of \<open>CloseFromOwner\<close> is over when a drain has given \<open>draining_\<close> up, also when
  that drain has not seen \<open>owner_closing_\<close> yet: then the connection is closed only afterwards.
\<close>

lemma release_can_return_early:
  "\<exists>ms s. do_moves ms drain_new = Some s \<and> d_owner s = O_done \<and> \<not> g_closed s"
  by (rule exI [of _ "first_task @ replicate 4 (M_owner True) @ [M_drain D_store False True] @ replicate 3 (M_owner True)"])
    (simp add: first_task_def evaluate_moves numeral_eq_Suc)

section \<open>A release that never returns\<close>

definition hang_moves :: "move list" where
  "hang_moves =
     [M_call 1, M_post (P_enter 1) True, M_post (P_check 1) True, M_post (P_count 1) True, M_post (P_push 1) True,
      M_post P_link True, M_post P_cas True, M_post (P_leave True) True, M_post P_sched True, M_job, M_owner True,
      M_drain D_top False True, M_drain D_cl_pop False True, M_drain (D_cl_popped 1) False True, M_drain D_cl_pop True True,
      M_drain D_cl_active False True, M_drain D_cl_queued False True, M_call 2, M_post (P_enter 2) True, M_post (P_check 2) True,
      M_post (P_count 2) True, M_post (P_push 2) True, M_post P_link True, M_post P_cas True, M_post (P_leave False) True,
      M_owner True, M_owner True, M_owner True, M_drain D_close False True, M_drain D_end False True]"

definition hung :: "drain_state \<Rightarrow> bool" where
  "hung s \<longleftrightarrow> (d_owner s = O_wait2 \<or> d_owner s = O_queued) \<and> 0 < d_queued s \<and> \<not> d_draining s \<and> \<not> d_accepting s \<and>
     d_jobs s = 0 \<and> d_drains s = {#} \<and> (\<forall>p \<in># d_posters s. \<not> p_admitted p \<and> p \<noteq> P_sched)"

lemma hung_post:
  assumes "hung s" "p \<in># d_posters s"
  shows "hung (snd (dpost_step posted p s)\<lparr>d_posters := d_posters s - {#p#} + fst (dpost_step posted p s)\<rparr>)"
proof -
  have p: "\<not> p_admitted p" "p \<noteq> P_sched" and r: "\<forall>q \<in># d_posters s - {#p#}. \<not> p_admitted q \<and> q \<noteq> P_sched"
    using assms by (auto simp: hung_def dest: in_diffD)
  show ?thesis using p r assms(1) by (cases p) (auto simp: hung_def)
qed

lemma hung_move: "hung s \<Longrightarrow> do_move m s = Some s' \<Longrightarrow> hung s'"
proof (cases m)
  case (M_post p posted)
  assume "hung s" "do_move m s = Some s'"
  thus ?thesis using M_post hung_post [of s p posted] by (auto split: if_splits prod.splits)
qed (auto simp: hung_def owner_step_def split: if_splits)

lemma hung_moves: "hung s \<Longrightarrow> do_moves ms s = Some s' \<Longrightarrow> hung s'"
  by (induction ms arbitrary: s) (auto split: option.splits dest: hung_move)

lemma hang_reached: "\<exists>s. do_moves hang_moves drain_new = Some s \<and> hung s"
  by (simp add: hang_moves_def evaluate_moves hung_def)

text \<open>
  C34: a release can wait forever. After the run \<open>hang_moves\<close> the call of \<open>CloseFromOwner\<close> never returns,
  whatever the threads do from then on: the drain finds the queue empty and closes the
  connection after \<open>owner_closing_\<close> was set and before \<open>accepting_tasks_\<close> is unset, a task is
  posted between the two, and the owner's attempt to schedule a drain comes before that drain
  gives \<open>draining_\<close> up. The task stays in the queue and nobody drains it.
\<close>

theorem release_can_hang:
  assumes "do_moves hang_moves drain_new = Some s" and "do_moves ms s = Some s'"
  shows "d_owner s \<noteq> O_idle \<and> d_owner s' \<noteq> O_done \<and> d_queue s' \<noteq> []"
proof -
  have s: "hung s" using assms(1) hang_reached by auto
  have h: "hung s'" by (rule hung_moves [OF s assms(2)])
  have "p_counted p \<Longrightarrow> p_admitted p" for p by (cases p) simp_all
  hence "\<forall>p \<in># d_posters s'. \<not> p_counted p" using h by (auto simp: hung_def)
  hence "size (filter_mset p_counted (d_posters s')) = 0" by (simp add: filter_mset_eq_conv)
  moreover have "queued_ok s'" using inv_moves [OF inv_run [OF assms(1)] assms(2)] by (simp add: drain_inv_def)
  ultimately show ?thesis using s h by (auto simp del: size_eq_0_iff_empty simp: hung_def queued_ok_def)
qed

theorem release_can_hang_witness:
  "\<exists>s. do_moves hang_moves drain_new = Some s \<and> d_owner s \<noteq> O_idle \<and> d_owner s \<noteq> O_done \<and> d_queue s \<noteq> []"
  using hang_reached release_can_hang [of _ "[]"] by fastforce

section \<open>Delayed stores\<close>

text \<open>
  The steps above take effect at once. The source asks for less: \<open>Drain\<close> gives \<open>draining_\<close> up with a
  release store and then reads the counters with acquire loads, so that the reads may come
  before the store is seen by other threads, as with the store buffers of x86. The runs below add
  this for that store: it waits in the buffer until it is flushed, and the drain that made it goes
  on with its reads; its next read-modify-write has to wait.
\<close>

datatype tso_move = T_move move | T_buffer | T_flush

fun locked :: "move \<Rightarrow> bool" where
  "locked (M_drain d b posted) \<longleftrightarrow> d = D_store \<or> d = D_cas \<or> d = D_end"
| "locked m \<longleftrightarrow> False"

fun do_tso :: "tso_move \<Rightarrow> bool \<times> drain_state \<Rightarrow> (bool \<times> drain_state) option" where
  "do_tso (T_move m) (buffered, s) =
     (if buffered \<and> locked m then None else (case do_move m s of None \<Rightarrow> None | Some s' \<Rightarrow> Some (buffered, s')))"
| "do_tso T_buffer (buffered, s) =
     (if \<not> buffered \<and> D_store \<in># d_drains s
      then Some (True, s\<lparr>d_drains := add_mset D_c1 (d_drains s - {#D_store#})\<rparr>) else None)"
| "do_tso T_flush (buffered, s) = (if buffered then Some (False, s\<lparr>d_draining := False\<rparr>) else None)"

fun do_tsos :: "tso_move list \<Rightarrow> bool \<times> drain_state \<Rightarrow> (bool \<times> drain_state) option" where
  "do_tsos [] s = Some s"
| "do_tsos (m # ms) s = (case do_tso m s of None \<Rightarrow> None | Some s' \<Rightarrow> do_tsos ms s')"

text \<open>
  C35: with delayed stores a task can be left in the queue with nobody to run it. There is a run
  without a release after which all threads are at rest, the flag is unset and the queue is not
  empty, which without the delay is impossible: the drain reads the counters as zero and returns,
  a task is posted while the store to \<open>draining_\<close> is not yet seen, so that the poster schedules no
  drain, and then the store takes effect.
\<close>

theorem delayed_store_strands_task:
  "\<exists>ms s. do_tsos ms (False, drain_new) = Some (False, s) \<and> \<not> d_owner_closing s \<and> \<not> d_draining s \<and>
     d_posters s = {#} \<and> d_drains s = {#} \<and> d_jobs s = 0 \<and> d_queue s = [2] \<and> g_done s = [(1, True)]"
  by (rule exI [of _ "map T_move first_task @ [T_buffer] @
        map T_move [M_drain D_c1 False True, M_drain D_c2 False True, M_drain D_c3 False True, M_call 2, M_post (P_enter 2) True,
          M_post (P_check 2) True, M_post (P_count 2) True, M_post (P_push 2) True, M_post P_link True, M_post P_cas True,
          M_post (P_leave False) True] @ [T_flush]"])
    (simp add: first_task_def evaluate_moves)

end
