(* ===== verification/Logging.thy ===== *)
theory Logging
  imports Texts
begin

text \<open>
  Logging (src/bridge/log.cc and the macros of src/utils/log.h): the level filter, the message
  that is built from a format in two buffers, the callback of the application and the default
  output to stderr. What a format expands to is an argument, as are the allocations, the time
  and the number of the calling thread. The atomic variables are plain fields, except in the
  last section, which interleaves the loads of a message with the stores of a new callback.
\<close>

section \<open>Levels and callbacks\<close>

definition CONNX_LOG_LEVEL_TRACE :: int where
  "CONNX_LOG_LEVEL_TRACE = 0"

definition CONNX_LOG_LEVEL_DEBUG :: int where
  "CONNX_LOG_LEVEL_DEBUG = 1"

definition CONNX_LOG_LEVEL_ERROR :: int where
  "CONNX_LOG_LEVEL_ERROR = 4"

lemmas log_levels = CONNX_LOG_LEVEL_TRACE_def CONNX_LOG_LEVEL_DEBUG_def CONNX_LOG_LEVEL_ERROR_def

text \<open>The value of a function pointer that is not null: the default of the library or a function of the application.\<close>

datatype log_function = connx_log_default_fn | User nat

record log_state =
  g_seq :: int
  g_log_function :: "log_function option"
  g_user_data :: nat
  g_min_level :: int

definition log_new :: log_state where
  "log_new = \<lparr>g_seq = 0, g_log_function = Some connx_log_default_fn, g_user_data = 0, g_min_level = CONNX_LOG_LEVEL_DEBUG\<rparr>"

definition connx_log_set_min_level :: "int \<Rightarrow> log_state \<Rightarrow> log_state" where
  "connx_log_set_min_level level s =
     s\<lparr>g_min_level :=
         if level < CONNX_LOG_LEVEL_TRACE then CONNX_LOG_LEVEL_TRACE
         else if level > CONNX_LOG_LEVEL_ERROR then CONNX_LOG_LEVEL_ERROR
         else level\<rparr>"

definition connx_log_get_min_level :: "log_state \<Rightarrow> int" where
  "connx_log_get_min_level s = g_min_level s"

text \<open>The four stores of \<open>connx_log_set_callback\<close>, in order; \<open>q\<close> is the value of \<open>g_seq\<close> that it has loaded.\<close>

definition set_callback_stores :: "log_function option \<Rightarrow> nat \<Rightarrow> int \<Rightarrow> (log_state \<Rightarrow> log_state) list" where
  "set_callback_stores callback user_data q =
     [\<lambda>s. s\<lparr>g_seq := q + 1\<rparr>, \<lambda>s. s\<lparr>g_log_function := callback\<rparr>, \<lambda>s. s\<lparr>g_user_data := user_data\<rparr>, \<lambda>s. s\<lparr>g_seq := q + 2\<rparr>]"

definition connx_log_set_callback :: "log_function option \<Rightarrow> nat \<Rightarrow> log_state \<Rightarrow> log_state" where
  "connx_log_set_callback callback user_data s = fold (\<lambda>f. f) (set_callback_stores callback user_data (g_seq s)) s"

section \<open>Messages\<close>

text \<open>What a callback is called with.\<close>

record log_call =
  lc_function :: log_function
  lc_level :: int
  lc_line :: int
  lc_thread :: nat
  lc_message :: string
  lc_user_data :: nat

text \<open>The message on the heap, \<open>None\<close> where \<open>connx_log\<close> returns without one. \<open>text\<close> is what the format expands to.\<close>

definition log_message :: "bool \<Rightarrow> string \<Rightarrow> string option" where
  "log_message alloc text =
     (case vsnprintf 128 text of (ret, buf) \<Rightarrow>
        if ret < 0 then None
        else let buff_len = nat ret + 1
             in if \<not> alloc then None
                else if buff_len \<le> 128 then Some (take buff_len buf)
                else Some (snd (vsnprintf buff_len text)))"

definition connx_log :: "bool \<Rightarrow> nat \<Rightarrow> int \<Rightarrow> int \<Rightarrow> string \<Rightarrow> log_state \<Rightarrow> log_call option" where
  "connx_log alloc threadid level line text s =
     (if level < CONNX_LOG_LEVEL_TRACE \<or> level > CONNX_LOG_LEVEL_ERROR then None
      else if level < g_min_level s then None
      else case log_message alloc text of
        None \<Rightarrow> None
      | Some message \<Rightarrow>
          (let usr_data = g_user_data s
           in case g_log_function s of
                None \<Rightarrow> None
              | Some fn \<Rightarrow> Some \<lparr>lc_function = fn, lc_level = level, lc_line = line, lc_thread = threadid,
                                lc_message = message, lc_user_data = usr_data\<rparr>))"

text \<open>The macros \<open>CONNX_LOG_DEBUG\<close> and so on test the level before they call \<open>connx_log\<close>.\<close>

definition CONNX_LOG :: "bool \<Rightarrow> nat \<Rightarrow> int \<Rightarrow> int \<Rightarrow> string \<Rightarrow> log_state \<Rightarrow> log_call option" where
  "CONNX_LOG alloc threadid level line text s =
     (if connx_log_get_min_level s \<le> level then connx_log alloc threadid level line text s else None)"

text \<open>
  The line that the default function writes: \<open>time\<close> is the result of \<open>localtime_r\<close> and \<open>strftime\<close>, each
  of which can fail. The conversions \<open>%03d\<close> and \<open>%lu\<close> are given as texts.
\<close>

datatype clock_text = No_localtime | No_strftime | Time string

fun time_buffer :: "clock_text \<Rightarrow> string" where
  "time_buffer No_localtime = ''error:localtime''"
| "time_buffer No_strftime = ''error:strftime''"
| "time_buffer (Time t) = t"

definition g_desc :: "string list" where
  "g_desc = [''Trace'', ''Debug'', ''Info'', ''Warn'', ''Error'']"

definition pad3 :: "nat \<Rightarrow> string" where
  "pad3 n = replicate (3 - length (digits n)) (CHR ''0'') @ digits n"

definition connx_log_default :: "bool \<Rightarrow> clock_text \<Rightarrow> nat \<Rightarrow> log_call \<Rightarrow> string option" where
  "connx_log_default alloc time tv_nsec c =
     snd (connx_format alloc ''%s.%s %s %d %s %s''
       [FStr (time_buffer time), FStr (pad3 (tv_nsec div 1000000)), FStr (digits (lc_thread c)), FInt (lc_line c),
        FStr (g_desc ! nat (lc_level c)), FStr (lc_message c)])"

section \<open>Properties\<close>

lemma log_message_full: "length text \<le> INT_MAX \<Longrightarrow> log_message True text = Some text"
  by (auto simp: log_message_def vsnprintf_def Let_def)

lemma set_min_level_range: "0 \<le> g_min_level (connx_log_set_min_level n s) \<and> g_min_level (connx_log_set_min_level n s) \<le> 4"
  by (simp add: connx_log_set_min_level_def log_levels)

lemma set_callback_fields:
  "connx_log_set_callback f u s = s\<lparr>g_seq := g_seq s + 2, g_log_function := f, g_user_data := u\<rparr>"
  by (simp add: connx_log_set_callback_def set_callback_stores_def)



section \<open>A message while the callback changes\<close>

text \<open>
  A message that loads \<open>g_user_data\<close> after the first \<open>i\<close> stores of \<open>connx_log_set_callback\<close> and
  \<open>g_log_function\<close> after the first \<open>j\<close>.
\<close>

definition log_during :: "nat \<Rightarrow> nat \<Rightarrow> log_function option \<Rightarrow> nat \<Rightarrow> log_state \<Rightarrow> log_function option \<times> nat" where
  "log_during i j callback user_data s =
     (let st = set_callback_stores callback user_data (g_seq s);
          usr_data = g_user_data (fold (\<lambda>f. f) (take i st) s);
          fn = g_log_function (fold (\<lambda>f. f) (take j st) s)
      in (fn, usr_data))"

lemma less_5_cases: "(i :: nat) \<le> 4 \<Longrightarrow> i = 0 \<or> i = 1 \<or> i = 2 \<or> i = 3 \<or> i = 4"
  by arith



end
