(* ===== verification/Spec2Isabelle.thy ===== *)
theory Spec2Isabelle
  imports Codec_Roundtrip Connection_Properties C_Ownership Kqueue_Poller Iocp_Poller Drain_Protocols Logging
begin

text \<open>
  Verification of connx, a C++ library for asynchronous TCP clients with a C interface.

  \<^bold>\<open>The program.\<close> An application creates a client through the C++ interface (src/bridge/client.cc,
  src/net/clientimpl.cc) or the C interface (src/bridge/c.cc) with a handler and options, among
  them a codec (src/codec) that cuts the received bytes into messages. Behind a client is one
  connection (src/net/client_connection.cc with a part for each platform). All work on a
  connection is done by tasks in its task queue (src/utils/mpscq.cc); a drain job on a worker
  (src/net/worker_pool.cc) runs them. The poll thread of the runtime (src/net/runtime.cc) waits
  for the poller (src/net/poller_linux.cc, src/net/poller_kqueue.cc) and the timers
  (src/net/timer_queue.cc), looks the connection up in the connection table
  (src/net/connection_table.cc) and posts a task to it. Received and unsent bytes are kept in
  slice buffers (src/utils/slice_buffer.cc) of reference-counted slices (src/utils/slice.cc).
  Clients count initialisations of the library (src/core), which start and stop the runtime.

  \<^bold>\<open>Theories.\<close> Paths are relative to the directory src of the repository or to its root.
  \<^item> \<open>Connx_Prelude\<close>: names of machine types, theorem collections, facts on lists and words.
  \<^item> \<open>Codecs\<close>, \<open>Codec_Roundtrip\<close> (codec.h, src/codec): the constructors and \<open>Decode\<close> of the three
    codecs with reads outside the data as \<open>None\<close>, codecs of the application as functions, and
    \<open>frames\<close>, the cutting of a stream into messages. Locale \<open>framing_codec\<close>, interpreted for the
    codecs. Shown: the length-field stream round trip, independence of how the stream is split,
    what the delimiter codec delivers, and that the constructor admits a length field outside
    the header.
  \<^item> \<open>Slices\<close>, \<open>Slice_Buffers\<close> (slice.cc, slice_buffer.cc): a heap of counted blocks, in which an access
    to freed memory is an error value, and every operation on slices; the buffer with its
    cached length. Locale \<open>byte_queue\<close>, interpreted for the buffer. Shown: programs over slices
    compute what they compute over byte strings, without error and without leak; every read of
    a buffer returns buffered bytes.
  \<^item> \<open>Connection_Tables\<close>, \<open>Timer_Queues\<close> (connection_id.h, connection_table.cc, timer_queue.cc): ids
    with slots and generations of 32 bits and their 64-bit tag, the table as an array with free
    slots, timers ordered by deadline. Locales \<open>handle_table\<close> and \<open>min_queue\<close>, interpreted for
    the table and the queue. Shown: the table is a finite map, unregistered ids never resolve
    again until a generation wraps, exactly the due timers are taken in order.
  \<^item> \<open>Client_Connection\<close>, \<open>Connection_Io\<close> (client_connection.h, client_connection.cc,
    client_connection_posix.cc): the record \<open>ClientConnection\<close> has the members of the class, one
    definition stands for each member function; the application is a function from the
    callbacks so far to the calls it makes inside the last one; the answers of the operating
    system are scripts in the state.
  \<^item> \<open>Connection_Invariants\<close>, \<open>Connection_Runs\<close>, \<open>Connection_Delivery\<close>, \<open>Connection_Scheduling\<close>,
    \<open>Connection_Properties\<close>: the invariant of a connection and its preservation by every operation
    and by runs; the order of callbacks and the messages delivered; scheduling of drain jobs,
    release, and that queued work finishes; the properties over all runs.
  \<^item> \<open>Drain_Protocols\<close> (\<open>Post\<close>, \<open>ScheduleDrain\<close>, \<open>Drain\<close>, \<open>DrainTaskQueue\<close>, \<open>CloseFromOwner\<close> again, access
    by access): any number of posting threads, drains and a releasing thread. Shown: tasks run
    one at a time and in order, which is what the sequential model of a connection takes for
    granted; no task is forgotten; none runs after a release has returned. Also shown: a release
    that never returns, and, when the release store of \<open>draining_\<close> is delayed as the memory
    order of the source allows, a task that nobody runs.
  \<^item> \<open>Mpsc_Queues\<close>, \<open>Worker_Pools\<close> (mpscq.cc, worker_pool.cc): the queue with each atomic access as a
    step, a worker with posting threads, its own loop and the thread in \<open>Stop\<close>. Locale \<open>fifo_queue\<close>,
    interpreted for the queue. Shown: first in first out in every interleaving, an empty
    answer only if the queue is empty or a push is under way, no sleeping worker with tasks,
    every task run or deleted once, end of \<open>DrainQueue\<close>.
  \<^item> \<open>Runtime\<close> (runtime.cc, init.cc, library.cc): settings, start and stop with every failure, the
    rounds of the poll loop. Shown: the loop gives a connection a run of the connection model;
    the runtime runs exactly while initialisations outnumber shutdowns.
  \<^item> \<open>Pollers\<close>, \<open>Kqueue_Poller\<close> (poller_linux.cc, poller_kqueue.cc): the kernel's sets as maps, with
    any call refused by a script. Locale \<open>poller\<close>, interpreted for both. Shown: both keep the map of
    registrations that their calls describe; what a wait reports.
  \<^item> \<open>Texts\<close>, \<open>Host_Ports\<close> (string.cc, status.cc, resolve_address.cc, socket_util.cc): formatting with
    the two buffers of the source, errors, joining and splitting of hosts and ports, resolution
    with the system's resolver as a parameter.
  \<^item> \<open>Client_Api\<close>, \<open>C_Interface\<close>, \<open>C_Ownership\<close> (clientimpl.cc, client.cc, c.cc): clients over the
    connection model and the library; handlers, codecs, options and clients of the C
    interface as objects of a heap. Shown: calls of a correct caller use no freed object, and
    what happens behind the clients is a run of the connection model; the local address of the
    options is kept after it was freed.

  \<^bold>\<open>Bounds and termination.\<close> \<open>size_t\<close> is a natural number with the bound \<open>size_max\<close> of the
  environment, and wrap-around is written out where the source can reach it; ids, interests and
  counters are words of their width. No definition has fuel: the loops are structural, or
  terminate by a measure that is proved, such as the budget of 64 tasks of a drain and of 64
  messages of a parse and the length of the scripts of the operating system. Interleavings are
  inductive or lists of steps of any length; no bound on threads or tasks is assumed.

  \<^bold>\<open>Memory order.\<close> The interleavings are sequentially consistent, except for the delayed store of the
  last section of \<open>Drain_Protocols\<close>. A wait on a condition variable is a step that is enabled
  when its condition holds, so that lost notifications are not covered.

  \<^bold>\<open>Not modelled.\<close>
  \<^item> The Windows parts (poller_win32.cc, client_connection_win32.cc, the Windows branches of
    string.cc and resolve_address.cc), which are separate programs over completion ports.
  \<^item> Logging (log.cc, log.h): its calls have no effect on the components.
  \<^item> The wrappers of mutexes, atomics, time and byte order (sync.cc, atomic.h, time.cc, endian.h):
    their users model the effect of the calls; the current time is an argument.
  \<^item> Exceptions from failed allocations outside of the C interface and the slices.
  \<^item> Tests and examples.
\<close>

end
